(* ===== verification/Prelude.thy ===== *)
theory Prelude
  imports Main "HOL-Library.Word"
begin

text \<open>
  Shared vocabulary of the development: the Go types the sources use, the
  collections of facts that carry the component proofs, and the parts of the Go
  standard library (\<^verbatim>\<open>encoding/binary\<close>) the sources call.

  \<^item> A Go string and a byte slice are byte lists.  A slice or pointer whose
    \<^verbatim>\<open>nil\<close> the sources tell apart from the empty value is an \<open>option\<close>.
  \<^item> A fixed-width integer that travels on the wire is a word of its width, read
    as a signed number with \<open>sint\<close>.
  \<^item> Go's \<^verbatim>\<open>int\<close> and \<^verbatim>\<open>int64\<close> arithmetic is integer arithmetic, wrapped by \<open>s64\<close>
    where the operands come from untrusted input.
\<close>

type_synonym byte = "8 word"
type_synonym bytes = "byte list"
type_synonym gostring = "byte list"
type_synonym int8 = "8 word"
type_synonym int16 = "16 word"
type_synonym int32 = "32 word"
type_synonym int64 = "64 word"
type_synonym uint32 = "32 word"
type_synonym uint64 = "64 word"

text \<open>Facts that unfold the codecs, and the composition rules of the reader laws.\<close>

named_theorems codec_defs
named_theorems reads_intros

text \<open>An ASCII literal of the sources as a byte list.\<close>

definition str :: "string \<Rightarrow> gostring" where
  "str s = map (\<lambda>c. of_nat (of_char c)) s"

lemma str_code [code]: "str s = map (\<lambda>c. word_of_int (of_char c)) s"
proof -
  have "(of_nat (of_char c) :: byte) = word_of_int (of_char c)" for c
  proof -
    have "(of_char c :: int) = int (of_char c)" by (simp only: of_nat_of_char)
    then show ?thesis by (metis of_int_of_nat_eq)
  qed
  then show ?thesis by (simp add: str_def)
qed

subsection \<open>Errors\<close>

text \<open>
  The errors the sources return, one constructor per message (\<open>Errorf\<close> with the text of
  the less common ones), and \<open>Panic\<close> for a
  Go run-time panic (an index or allocation out of range).
\<close>

datatype go_error =
    ErrUnexpectedEOF
  | InvalidUvarint
  | InvalidVarint
  | BytesVarintOverrun
  | InvalidRecordLengthVarint
  | InvalidRecordLength
  | BatchTooShort
  | UnsupportedMagic
  | InvalidFrameLength
  | FrameTooLarge
  | ErrUnsupportedCompression
  | Lz4FrameTooShort | Lz4BadMagic | Lz4LengthMismatch | Lz4LiteralLengthOverrun | Lz4LiteralOverrun
  | Lz4OffsetOverrun | Lz4MatchLengthOverrun | Lz4InvalidOffset | Lz4SizeMismatch
  | SnappyMissingPrefix | SnappyLengthMismatch | SnappyLiteralLengthOverrun | SnappyLiteralOverrun
  | SnappyCopyOverrun | SnappyInvalidOffset
  | SegmentOffsetOverflow
  | RecoverRead
  | EOF
  | InvalidResponseLength
  | CorrelationMismatch
  | MalformedRemoteStub
  | NoRemoteFetcher
  | SegmentNotRestored
  | ErrOutOfOrderSequence
  | ProducerEpochRegression
  | WALBadRecordLength | WALChecksumMismatch | WALShortPayload | WALUnsupportedVersion
  | WALTruncatedPartition | WALTruncatedOffset | WALTruncatedLeaderEpoch | WALTruncatedTimestamp
  | WALTruncatedStringLength | WALTruncatedString | WALTruncatedNullableStringLength
  | OffsetSnapshotCorrupt
  | UnknownOffsetBackend
  | NonEmptyGroup
  | ErrCompactionRunning
  | IOError
  | Errorf string
  | Panic

type_synonym 'a res = "go_error + 'a"

definition res_bind :: "'a res \<Rightarrow> ('a \<Rightarrow> 'b res) \<Rightarrow> 'b res" where
  "res_bind m f = (case m of Inl e \<Rightarrow> Inl e | Inr x \<Rightarrow> f x)"

lemma res_bind_simps [simp]:
  "res_bind (Inl e) f = Inl e"
  "res_bind (Inr x) f = f x"
  by (simp_all add: res_bind_def)

lemma res_bind_eq_Inr: "res_bind m f = Inr y \<longleftrightarrow> (\<exists>x. m = Inr x \<and> f x = Inr y)"
  by (cases m) auto

subsection \<open>Wrap-around of Go's signed integers\<close>

definition s32 :: "int \<Rightarrow> int" where
  "s32 x = (x + 2 ^ 31) mod 2 ^ 32 - 2 ^ 31"

definition s64 :: "int \<Rightarrow> int" where
  "s64 x = (x + 2 ^ 63) mod 2 ^ 64 - 2 ^ 63"

definition u32 :: "int \<Rightarrow> nat" where
  "u32 x = nat (x mod 2 ^ 32)"

lemma s32_id: "- (2 ^ 31) \<le> x \<Longrightarrow> x < 2 ^ 31 \<Longrightarrow> s32 x = x"
  by (simp add: s32_def)

lemma s64_id: "- (2 ^ 63) \<le> x \<Longrightarrow> x < 2 ^ 63 \<Longrightarrow> s64 x = x"
  by (simp add: s64_def)

lemma s32_range: "- (2 ^ 31) \<le> s32 x \<and> s32 x < 2 ^ 31"
proof -
  define m where "m = (x + 2 ^ 31) mod 2 ^ 32"
  have "0 \<le> m" and "m < 2 ^ 32" unfolding m_def by simp_all
  then show ?thesis unfolding s32_def m_def [symmetric] by simp
qed

lemma s64_range: "- (2 ^ 63) \<le> s64 x \<and> s64 x < 2 ^ 63"
proof -
  define m where "m = (x + 2 ^ 63) mod 2 ^ 64"
  have "0 \<le> m" and "m < 2 ^ 64" unfolding m_def by simp_all
  then show ?thesis unfolding s64_def m_def [symmetric] by simp
qed

lemma u32_id: "0 \<le> x \<Longrightarrow> x < 2 ^ 32 \<Longrightarrow> u32 x = nat x"
  by (simp add: u32_def)

lemma sint32_bounds: "- (2 ^ 31) \<le> sint (w :: 32 word) \<and> sint w < 2 ^ 31"
  using sint_ge [of w] sint_lt [of w] by simp

lemma sint64_of_int: "- (2 ^ 63) \<le> x \<Longrightarrow> x < 2 ^ 63 \<Longrightarrow> sint (word_of_int x :: 64 word) = x"
  by (simp add: signed_of_int signed_take_bit_int_eq_self)

lemma sint64_bounds: "- (2 ^ 63) \<le> sint (w :: 64 word) \<and> sint w < 2 ^ 63"
  using sint_ge [of w] sint_lt [of w] by simp

lemma sint16_bounds: "- (2 ^ 15) \<le> sint (w :: 16 word) \<and> sint w < 2 ^ 15"
  using sint_ge [of w] sint_lt [of w] by simp

lemma sint_succ: "sint w + 1 < 2 ^ (LENGTH('a) - 1) \<Longrightarrow> sint (w + 1 :: 'a::len word) = sint w + 1"
proof -
  assume w: "sint w + 1 < 2 ^ (LENGTH('a) - 1)"
  have "w + 1 = word_of_int (sint w + 1)" by simp
  also have "sint (word_of_int (sint w + 1) :: 'a word) = sint w + 1"
    using w sint_ge [of w] by (simp add: signed_of_int signed_take_bit_int_eq_self del: of_int_add)
  finally show ?thesis .
qed

lemma sint_of_nat_small:
  "n < 2 ^ (LENGTH('a) - 1) \<Longrightarrow> sint (of_nat n :: 'a::len word) = int n"
proof -
  assume n: "n < 2 ^ (LENGTH('a) - 1)"
  then have "int n < 2 ^ (LENGTH('a) - 1)" by (metis of_nat_less_iff of_nat_numeral of_nat_power)
  moreover have "- (2 ^ (LENGTH('a) - 1)) \<le> int n"
    by (rule order_trans [of _ 0]) simp_all
  ultimately have "signed_take_bit (LENGTH('a) - Suc 0) (int n) = int n"
    by (simp add: signed_take_bit_int_eq_self_iff)
  moreover have "sint (of_nat n :: 'a word) = signed_take_bit (LENGTH('a) - Suc 0) (int n)"
    by (simp add: signed_of_nat)
  ultimately show ?thesis by simp
qed

lemma unat8_less: "unat (w :: 8 word) < 256"
  using unsigned_less [of w, where 'a = nat] by simp

lemma unat16_less: "unat (w :: 16 word) < 65536"
  using unsigned_less [of w, where 'a = nat] by simp

lemma unat32_less: "unat (w :: 32 word) < 4294967296"
  using unsigned_less [of w, where 'a = nat] by simp

lemma unat64_less: "unat (w :: 64 word) < 18446744073709551616"
  using unsigned_less [of w, where 'a = nat] by simp

subsection \<open>Lists\<close>

lemma length_concat_member: "x \<in> set xs \<Longrightarrow> length (f x) \<le> length (concat (map f xs))"
  by (induction xs) auto

lemma length_concat_count:
  "(\<And>x. x \<in> set xs \<Longrightarrow> f x \<noteq> []) \<Longrightarrow> length xs \<le> length (concat (map f xs))"
proof (induction xs)
  case (Cons x xs)
  then have "f x \<noteq> []" by simp
  then have "Suc 0 \<le> length (f x)" by (simp add: Suc_leI)
  with Cons show ?case by fastforce
qed simp

subsection \<open>Big-endian integers (\<^verbatim>\<open>encoding/binary.BigEndian\<close>)\<close>

primrec be_put :: "nat \<Rightarrow> nat \<Rightarrow> bytes" where
  "be_put 0 k = []"
| "be_put (Suc n) k = be_put n (k div 256) @ [of_nat k]"

definition be_get :: "bytes \<Rightarrow> nat" where
  "be_get bs = foldl (\<lambda>acc b. acc * 256 + unat b) 0 bs"

lemma be_get_Nil [simp]: "be_get [] = 0"
  by (simp add: be_get_def)

lemma be_get_snoc [simp]: "be_get (bs @ [b]) = be_get bs * 256 + unat b"
  by (simp add: be_get_def)

lemma length_be_put [simp]: "length (be_put n k) = n"
  by (induction n arbitrary: k) simp_all

lemma be_get_put: "be_get (be_put n k) = k mod 256 ^ n"
proof (induction n arbitrary: k)
  case (Suc n)
  have "unat (of_nat k :: byte) = k mod 256"
    by (simp add: unat_of_nat)
  then show ?case
    by (simp add: Suc mod_mult2_eq [of k 256 "256 ^ n"])
qed simp

lemma be_get_bound: "be_get bs < 256 ^ length bs"
proof (induction bs rule: rev_induct)
  case (snoc b bs)
  with unat8_less [of b] show ?case by simp
qed simp

definition PutUint16 :: "16 word \<Rightarrow> bytes" where "PutUint16 v = be_put 2 (unat v)"
definition PutUint32 :: "32 word \<Rightarrow> bytes" where "PutUint32 v = be_put 4 (unat v)"
definition PutUint64 :: "64 word \<Rightarrow> bytes" where "PutUint64 v = be_put 8 (unat v)"

text \<open>
  The getters read the first bytes of a slice.  In Go a slice that is too short
  panics; every call in the sources is guarded by a length check.
\<close>

definition Uint16 :: "bytes \<Rightarrow> 16 word" where "Uint16 bs = of_nat (be_get (take 2 bs))"
definition Uint32 :: "bytes \<Rightarrow> 32 word" where "Uint32 bs = of_nat (be_get (take 4 bs))"
definition Uint64 :: "bytes \<Rightarrow> 64 word" where "Uint64 bs = of_nat (be_get (take 8 bs))"

text \<open>Evaluation over \<open>int\<close>, whose numerals are binary.\<close>

primrec be_put_int :: "nat \<Rightarrow> int \<Rightarrow> bytes" where
  "be_put_int 0 k = []"
| "be_put_int (Suc n) k = be_put_int n (k div 256) @ [word_of_int k]"

definition be_get_int :: "bytes \<Rightarrow> int" where
  "be_get_int bs = foldl (\<lambda>acc b. acc * 256 + uint b) 0 bs"

lemma be_put_int: "be_put n k = be_put_int n (int k)"
  by (induction n arbitrary: k) (simp_all add: zdiv_int)

lemma be_get_int: "int (be_get bs) = be_get_int bs"
  by (induction bs rule: rev_induct) (simp_all add: be_get_int_def)

lemma PutUint_code [code]:
  "PutUint16 v = be_put_int 2 (uint v)" "PutUint32 w = be_put_int 4 (uint w)" "PutUint64 x = be_put_int 8 (uint x)"
  by (simp_all add: PutUint16_def PutUint32_def PutUint64_def be_put_int)

lemma Uint_code [code]:
  "Uint16 bs = word_of_int (be_get_int (take 2 bs))" "Uint32 bs = word_of_int (be_get_int (take 4 bs))"
  "Uint64 bs = word_of_int (be_get_int (take 8 bs))"
  by (simp_all add: Uint16_def Uint32_def Uint64_def flip: be_get_int)

lemma length_PutUint [simp]:
  "length (PutUint16 a) = 2" "length (PutUint32 b) = 4" "length (PutUint64 c) = 8"
  by (simp_all add: PutUint16_def PutUint32_def PutUint64_def)

lemma Uint_Put [simp]:
  "Uint16 (PutUint16 a @ xs) = a" "Uint32 (PutUint32 b @ xs) = b" "Uint64 (PutUint64 c @ xs) = c"
  "Uint16 (PutUint16 a) = a" "Uint32 (PutUint32 b) = b" "Uint64 (PutUint64 c) = c"
  by (simp_all add: Uint16_def Uint32_def Uint64_def PutUint16_def PutUint32_def PutUint64_def
      be_get_put unat16_less unat32_less unat64_less)

lemma Uint32_take [simp]: "4 \<le> n \<Longrightarrow> Uint32 (take n bs) = Uint32 bs"
  by (simp add: Uint32_def min_def)

lemma Uint64_take [simp]: "8 \<le> n \<Longrightarrow> Uint64 (take n bs) = Uint64 bs"
  by (simp add: Uint64_def min_def)

lemma Uint16_take [simp]: "2 \<le> n \<Longrightarrow> Uint16 (take n bs) = Uint16 bs"
  by (simp add: Uint16_def min_def)

lemma Uint32_append [simp]: "4 \<le> length xs \<Longrightarrow> Uint32 (xs @ ys) = Uint32 xs"
  by (simp add: Uint32_def)

lemma Uint64_append [simp]: "8 \<le> length xs \<Longrightarrow> Uint64 (xs @ ys) = Uint64 xs"
  by (simp add: Uint64_def)

subsection \<open>Variable-length integers (\<^verbatim>\<open>encoding/binary\<close>)\<close>

text \<open>
  \<^verbatim>\<open>PutUvarint\<close> writes seven bits per byte, the high bit set on all but the last.
  \<open>get_uvarint i bs\<close> is the loop of \<^verbatim>\<open>Uvarint\<close> from byte \<open>i\<close> on, over the bytes
  not read yet: the value of these bytes and the count of bytes read; \<open>None\<close> is a
  count of 0 or less (the buffer ends, or the value overflows 64 bits).
\<close>

fun put_uvarint :: "nat \<Rightarrow> bytes" where
  "put_uvarint x =
     (if x < 128 then [of_nat x] else of_nat (x mod 128 + 128) # put_uvarint (x div 128))"

declare put_uvarint.simps [simp del]

fun get_uvarint :: "nat \<Rightarrow> bytes \<Rightarrow> (nat \<times> nat) option" where
  "get_uvarint i [] = None"
| "get_uvarint i (b # bs) =
     (if i = 10 then None
      else if unat b < 128 then (if i = 9 \<and> unat b > 1 then None else Some (unat b, 1))
      else (case get_uvarint (Suc i) bs of
              None \<Rightarrow> None
            | Some (v, n) \<Rightarrow> Some (unat b mod 128 + 128 * v, Suc n)))"

definition PutUvarint :: "uint64 \<Rightarrow> bytes" where
  "PutUvarint x = put_uvarint (unat x)"

definition Uvarint :: "bytes \<Rightarrow> (uint64 \<times> nat) option" where
  "Uvarint bs = (case get_uvarint 0 bs of None \<Rightarrow> None | Some (v, n) \<Rightarrow> Some (of_nat v, n))"

text \<open>Zigzag: \<^verbatim>\<open>ux := uint64(x) << 1; if x < 0 { ux = ^ux }\<close> and its inverse.\<close>

definition zigzag :: "int \<Rightarrow> nat" where
  "zigzag v = (if 0 \<le> v then nat (2 * v) else nat (- 2 * v - 1))"

definition unzigzag :: "nat \<Rightarrow> int" where
  "unzigzag n = (if even n then int (n div 2) else - int (n div 2) - 1)"

definition PutVarint :: "int64 \<Rightarrow> bytes" where
  "PutVarint x = put_uvarint (zigzag (sint x))"

definition Varint :: "bytes \<Rightarrow> (int64 \<times> nat) option" where
  "Varint bs =
     (case get_uvarint 0 bs of None \<Rightarrow> None | Some (v, n) \<Rightarrow> Some (word_of_int (unzigzag v), n))"

lemma put_uvarint_small: "x < 128 \<Longrightarrow> put_uvarint x = [of_nat x]"
  by (simp add: put_uvarint.simps)

lemma put_uvarint_large:
  "128 \<le> x \<Longrightarrow> put_uvarint x = of_nat (x mod 128 + 128) # put_uvarint (x div 128)"
  by (subst put_uvarint.simps) simp

lemma get_put_uvarint:
  "i < 10 \<Longrightarrow> x < 2 ^ (64 - 7 * i) \<Longrightarrow>
   get_uvarint i (put_uvarint x @ rest) = Some (x, length (put_uvarint x))"
proof (induction x arbitrary: i rule: put_uvarint.induct)
  case (1 x)
  show ?case
  proof (cases "x < 128")
    case True
    then have "unat (of_nat x :: byte) = x" by (simp add: unat_of_nat)
    moreover have "i = 9 \<Longrightarrow> x < 2" using "1.prems" by simp
    ultimately show ?thesis using True "1.prems" by (auto simp: put_uvarint_small)
  next
    case False
    have i: "i < 9"
    proof (rule ccontr)
      assume "\<not> i < 9"
      with "1.prems"(1) have "i = 9" by simp
      with "1.prems"(2) have "x < 2" by simp
      with False show False by simp
    qed
    then have e: "(64 - 7 * i) = 7 + (64 - 7 * Suc i)" by simp
    have "x div 128 < 2 ^ (64 - 7 * Suc i)"
      using "1.prems"(2) unfolding e power_add by (simp add: less_mult_imp_div_less mult.commute)
    with "1.IH" False i have IH: "get_uvarint (Suc i) (put_uvarint (x div 128) @ rest)
        = Some (x div 128, length (put_uvarint (x div 128)))" by simp
    have "x mod 128 + 128 < 256" by simp
    then have "unat (of_nat (x mod 128 + 128) :: byte) = x mod 128 + 128"
      by (subst unat_of_nat) simp
    with False i IH show ?thesis by (simp add: put_uvarint_large)
  qed
qed

lemma put_uvarint_nonempty [simp]: "put_uvarint x \<noteq> []"
  by (subst put_uvarint.simps) simp

lemma zigzag_bound: "- (2 ^ 63) \<le> v \<Longrightarrow> v < 2 ^ 63 \<Longrightarrow> zigzag v < 2 ^ 64"
  by (auto simp: zigzag_def)

lemma unzigzag_zigzag: "unzigzag (zigzag v) = v"
proof (cases "0 \<le> v")
  case True
  then show ?thesis by (simp add: unzigzag_def zigzag_def nat_mult_distrib)
next
  case False
  define k where "k = nat (- v - 1)"
  with False have v: "v = - int k - 1" by simp
  then have "zigzag v = 2 * k + 1" by (simp add: zigzag_def nat_add_distrib)
  then show ?thesis by (simp add: unzigzag_def v)
qed

lemma Uvarint_Put [simp]: "Uvarint (PutUvarint x @ rest) = Some (x, length (PutUvarint x))"
proof -
  have "unat x < 2 ^ 64" using unat64_less [of x] by simp
  then show ?thesis by (simp add: Uvarint_def PutUvarint_def get_put_uvarint)
qed

lemma Varint_Put [simp]: "Varint (PutVarint x @ rest) = Some (x, length (PutVarint x))"
  using zigzag_bound [of "sint x"] sint64_bounds [of x]
  by (simp add: Varint_def PutVarint_def get_put_uvarint unzigzag_zigzag)

lemma get_uvarint_count: "get_uvarint i bs = Some (v, n) \<Longrightarrow> 0 < n \<and> n \<le> length bs"
  by (induction i bs arbitrary: v n rule: get_uvarint.induct)
    (force split: if_splits option.splits)+

lemma Uvarint_count: "Uvarint bs = Some (v, n) \<Longrightarrow> 0 < n \<and> n \<le> length bs"
  by (auto simp: Uvarint_def dest: get_uvarint_count split: option.splits)

lemma Varint_count: "Varint bs = Some (v, n) \<Longrightarrow> 0 < n \<and> n \<le> length bs"
  by (auto simp: Varint_def dest: get_uvarint_count split: option.splits)

end
