(* ===== verification/Wire.thy ===== *)
theory Wire
  imports Prelude
begin

text \<open>
  The byte reader and writer of the Kafka wire format
  (\<^verbatim>\<open>src/pkg/protocol/reader.go\<close>, \<^verbatim>\<open>writer.go\<close>).

  A \<^verbatim>\<open>Reader\<close> is the record \<open>Reader\<close>; a read either fails or returns a value and
  the reader after it.  A \<^verbatim>\<open>Writer\<close> is only ever appended to, so a write method is
  the function that gives the bytes it appends, and a sequence of writes is their
  concatenation.  \<open>reads m e x\<close> says that \<open>m\<close> consumes exactly the bytes \<open>e\<close>,
  wherever they stand in a buffer, and returns \<open>x\<close>; the locale \<open>codec\<close> is the
  contract of a writer and its reader, interpreted on every primitive below.
\<close>

subsection \<open>Reader state and the primitive reads\<close>

record Reader =
  buf :: bytes
  off :: int

type_synonym 'a rd = "Reader \<Rightarrow> ('a \<times> Reader) res"

definition NewReader :: "bytes \<Rightarrow> Reader" where
  "NewReader b = \<lparr>buf = b, off = 0\<rparr>"

definition Remaining :: "Reader \<Rightarrow> int" where
  "Remaining r = int (length (buf r)) - off r"

definition Err :: "Reader \<Rightarrow> go_error option" where
  "Err r = (if off r \<noteq> int (length (buf r)) then Some ErrUnexpectedEOF else None)"

definition rret :: "'a \<Rightarrow> 'a rd" where
  "rret x r = Inr (x, r)"

definition rbind :: "'a rd \<Rightarrow> ('a \<Rightarrow> 'b rd) \<Rightarrow> 'b rd" where
  "rbind m f r = (case m r of Inl e \<Rightarrow> Inl e | Inr (x, r') \<Rightarrow> f x r')"

definition rfail :: "go_error \<Rightarrow> 'a rd" where
  "rfail e r = Inl e"

text \<open>\<^verbatim>\<open>r.off+n > len(r.buf)\<close>, with Go's 64-bit addition.\<close>

definition need :: "int \<Rightarrow> unit rd" where
  "need n r = (if s64 (off r + n) > int (length (buf r)) then Inl ErrUnexpectedEOF else Inr ((), r))"

text \<open>\<^verbatim>\<open>r.buf[r.off:r.off+n]\<close> followed by \<^verbatim>\<open>r.off += n\<close>; a bad slice bound panics.\<close>

definition rslice :: "int \<Rightarrow> bytes rd" where
  "rslice n r =
     (if 0 \<le> off r \<and> 0 \<le> n \<and> off r + n \<le> int (length (buf r))
      then Inr (take (nat n) (drop (nat (off r)) (buf r)), r\<lparr>off := off r + n\<rparr>)
      else Inl Panic)"

text \<open>\<^verbatim>\<open>r.buf[r.off:]\<close>.\<close>

definition rtail :: "Reader \<Rightarrow> bytes res" where
  "rtail r =
     (if 0 \<le> off r \<and> off r \<le> int (length (buf r)) then Inr (drop (nat (off r)) (buf r))
      else Inl Panic)"

definition ReadInt8 :: "int8 rd" where
  "ReadInt8 = rbind (need 1) (\<lambda>_. rbind (rslice 1) (\<lambda>b. rret (hd b)))"

definition ReadBool :: "bool rd" where
  "ReadBool = rbind ReadInt8 (\<lambda>v. rret (v \<noteq> 0))"

definition ReadInt16 :: "int16 rd" where
  "ReadInt16 = rbind (need 2) (\<lambda>_. rbind (rslice 2) (\<lambda>b. rret (Uint16 b)))"

definition ReadInt32 :: "int32 rd" where
  "ReadInt32 = rbind (need 4) (\<lambda>_. rbind (rslice 4) (\<lambda>b. rret (Uint32 b)))"

definition ReadInt64 :: "int64 rd" where
  "ReadInt64 = rbind (need 8) (\<lambda>_. rbind (rslice 8) (\<lambda>b. rret (Uint64 b)))"

definition ReadUVarint :: "uint64 rd" where
  "ReadUVarint r =
     (case rtail r of Inl e \<Rightarrow> Inl e
      | Inr t \<Rightarrow> (case Uvarint t of None \<Rightarrow> Inl InvalidUvarint
                 | Some (v, n) \<Rightarrow> Inr (v, r\<lparr>off := off r + int n\<rparr>)))"

definition ReadVarint :: "int64 rd" where
  "ReadVarint r =
     (case rtail r of Inl e \<Rightarrow> Inl e
      | Inr t \<Rightarrow> (case Varint t of None \<Rightarrow> Inl InvalidVarint
                 | Some (v, n) \<Rightarrow> Inr (v, r\<lparr>off := off r + int n\<rparr>)))"

subsection \<open>Strings, byte slices and array lengths\<close>

text \<open>\<^verbatim>\<open>readString\<close> returns the string and whether it was null.\<close>

definition readString :: "(gostring \<times> bool) rd" where
  "readString = rbind ReadInt16 (\<lambda>l.
     if sint l < 0 then rret ([], True)
     else rbind (need (sint l)) (\<lambda>_. rbind (rslice (sint l)) (\<lambda>s. rret (s, False))))"

definition ReadString :: "gostring rd" where
  "ReadString = rbind readString (\<lambda>(s, _). rret s)"

definition ReadNullableString :: "gostring option rd" where
  "ReadNullableString = rbind readString (\<lambda>(s, null). rret (if null then None else Some s))"

definition ReadCompactString :: "gostring rd" where
  "ReadCompactString = rbind ReadUVarint (\<lambda>l.
     if l = 0 then rret []
     else rbind (need (sint (l - 1))) (\<lambda>_. rslice (sint (l - 1))))"

definition ReadBytes :: "bytes option rd" where
  "ReadBytes = rbind ReadInt32 (\<lambda>l.
     if sint l < 0 then rret None
     else rbind (need (sint l)) (\<lambda>_. rbind (rslice (sint l)) (\<lambda>b. rret (Some b))))"

definition ReadCompactBytes :: "bytes option rd" where
  "ReadCompactBytes = rbind ReadUVarint (\<lambda>l.
     if l = 0 then rret None
     else rbind (need (sint (l - 1))) (\<lambda>_. rbind (rslice (sint (l - 1))) (\<lambda>b. rret (Some b))))"

definition ReadArrayLen :: "int rd" where
  "ReadArrayLen = rbind ReadInt32 (\<lambda>l. rret (if sint l < 0 then -1 else sint l))"

definition ReadCompactArrayLen :: "int rd" where
  "ReadCompactArrayLen = rbind ReadUVarint (\<lambda>l. rret (if l = 0 then 0 else sint (l - 1)))"

text \<open>One pass of the loop skips a tag, its size and \<^verbatim>\<open>int(size)\<close> bytes.\<close>

definition skip_tag :: "unit rd" where
  "skip_tag = rbind ReadUVarint (\<lambda>_. rbind ReadUVarint (\<lambda>size.
     rbind (need (sint size)) (\<lambda>_ r. Inr ((), r\<lparr>off := s64 (off r + sint size)\<rparr>))))"

primrec read_times :: "nat \<Rightarrow> 'a rd \<Rightarrow> 'a list rd" where
  "read_times 0 m = rret []"
| "read_times (Suc n) m = rbind m (\<lambda>x. rbind (read_times n m) (\<lambda>xs. rret (x # xs)))"

definition ReadTaggedFields :: "unit rd" where
  "ReadTaggedFields = rbind ReadUVarint (\<lambda>n. rbind (read_times (unat n) skip_tag) (\<lambda>_. rret ()))"

text \<open>
  \<^verbatim>\<open>make([]T, 0, n)\<close> panics on a negative capacity.  The request decoders all read
  an array as a length, an allocation and a loop; \<open>ReadArrayOf\<close> is that shape.
  \<open>ReadNullableArrayOf\<close> is the shape of the decoders that test the length for
  null first.
\<close>

definition makeslice :: "int \<Rightarrow> unit rd" where
  "makeslice n = (if n < 0 then rfail Panic else rret ())"

definition ReadArrayOf :: "'a rd \<Rightarrow> 'a list rd" where
  "ReadArrayOf m = rbind ReadArrayLen (\<lambda>n. rbind (makeslice n) (\<lambda>_. read_times (nat n) m))"

definition ReadNullableArrayOf :: "'a rd \<Rightarrow> 'a list option rd" where
  "ReadNullableArrayOf m = rbind ReadArrayLen (\<lambda>n.
     if n < 0 then rret None else rbind (read_times (nat n) m) (\<lambda>xs. rret (Some xs)))"

text \<open>
  A field that only some versions of a message carry: \<open>rwhen c m d\<close> reads it with
  \<open>m\<close> when the version test \<open>c\<close> holds and leaves the value \<open>d\<close> in the struct
  otherwise.  \<open>run\<close> is a decoder called on a request body; it returns the value
  and leaves bytes after it unread.
\<close>

definition rwhen :: "bool \<Rightarrow> 'a rd \<Rightarrow> 'a \<Rightarrow> 'a rd" where
  "rwhen c m d = (if c then m else rret d)"

definition run :: "'a rd \<Rightarrow> bytes \<Rightarrow> 'a res" where
  "run m body = (case m (NewReader body) of Inl e \<Rightarrow> Inl e | Inr (x, _) \<Rightarrow> Inr x)"

definition olist :: "'a list option \<Rightarrow> 'a list" where
  "olist xs = (case xs of None \<Rightarrow> [] | Some ys \<Rightarrow> ys)"

lemma olist_simps [simp]: "olist None = []" "olist (Some ys) = ys"
  by (simp_all add: olist_def)

text \<open>\<^verbatim>\<open>len\<close> of a slice that may be nil.\<close>

definition olen :: "bytes option \<Rightarrow> nat" where
  "olen b = (case b of None \<Rightarrow> 0 | Some bs \<Rightarrow> length bs)"

definition obytes :: "bytes option \<Rightarrow> bytes" where
  "obytes b = (case b of None \<Rightarrow> [] | Some bs \<Rightarrow> bs)"

subsection \<open>Writer\<close>

definition WriteInt8 :: "int8 \<Rightarrow> bytes" where "WriteInt8 v = [v]"
definition WriteBool :: "bool \<Rightarrow> bytes" where "WriteBool v = (if v then [1] else [0])"
definition WriteInt16 :: "int16 \<Rightarrow> bytes" where "WriteInt16 v = PutUint16 v"
definition WriteInt32 :: "int32 \<Rightarrow> bytes" where "WriteInt32 v = PutUint32 v"
definition WriteInt64 :: "int64 \<Rightarrow> bytes" where "WriteInt64 v = PutUint64 v"
definition WriteUVarint :: "uint64 \<Rightarrow> bytes" where "WriteUVarint v = PutUvarint v"
definition WriteVarint :: "int64 \<Rightarrow> bytes" where "WriteVarint v = PutVarint v"

definition WriteString :: "gostring \<Rightarrow> bytes" where
  "WriteString s = WriteInt16 (of_nat (length s)) @ s"

definition WriteNullableString :: "gostring option \<Rightarrow> bytes" where
  "WriteNullableString s = (case s of None \<Rightarrow> WriteInt16 (-1) | Some t \<Rightarrow> WriteString t)"

definition WriteCompactString :: "gostring \<Rightarrow> bytes" where
  "WriteCompactString s = WriteUVarint (of_nat (length s + 1)) @ s"

definition WriteCompactNullableString :: "gostring option \<Rightarrow> bytes" where
  "WriteCompactNullableString s =
     (case s of None \<Rightarrow> WriteUVarint 0 | Some t \<Rightarrow> WriteCompactString t)"

definition WriteBytes :: "bytes option \<Rightarrow> bytes" where
  "WriteBytes b =
     (case b of None \<Rightarrow> WriteInt32 (-1) | Some bs \<Rightarrow> WriteInt32 (of_nat (length bs)) @ bs)"

definition WriteCompactBytes :: "bytes option \<Rightarrow> bytes" where
  "WriteCompactBytes b =
     (case b of None \<Rightarrow> WriteUVarint 0 | Some bs \<Rightarrow> WriteUVarint (of_nat (length bs + 1)) @ bs)"

definition WriteArrayLen :: "int \<Rightarrow> bytes" where
  "WriteArrayLen n = WriteInt32 (word_of_int n)"

definition WriteCompactArrayLen :: "int \<Rightarrow> bytes" where
  "WriteCompactArrayLen n = WriteUVarint (word_of_int ((if n < 0 then 0 else n) + 1))"

definition WriteTaggedFields :: bytes where
  "WriteTaggedFields = WriteUVarint 0"

text \<open>\<^verbatim>\<open>WriteNullableString\<close> of the address of a string, and a field some versions carry.\<close>

definition WriteStringPtr :: "gostring \<Rightarrow> bytes" where
  "WriteStringPtr s = WriteNullableString (Some s)"

definition wwhen :: "bool \<Rightarrow> bytes \<Rightarrow> bytes" where
  "wwhen c e = (if c then e else [])"

text \<open>The encoders' loop over a slice after its length, the counterpart of \<open>ReadArrayOf\<close>.\<close>

definition WriteArrayOf :: "('a \<Rightarrow> bytes) \<Rightarrow> 'a list \<Rightarrow> bytes" where
  "WriteArrayOf enc xs = WriteArrayLen (int (length xs)) @ concat (map enc xs)"

definition WriteNullableArrayOf :: "('a \<Rightarrow> bytes) \<Rightarrow> 'a list option \<Rightarrow> bytes" where
  "WriteNullableArrayOf enc xs =
     (case xs of None \<Rightarrow> WriteArrayLen (-1) | Some ys \<Rightarrow> WriteArrayOf enc ys)"

text \<open>
  A slice that may be nil, written the way the response encoders write records and
  metadata: nil and the empty slice both become a length of 0.
\<close>

definition WriteBytesOrEmpty :: "bytes option \<Rightarrow> bytes" where
  "WriteBytesOrEmpty b =
     (case b of None \<Rightarrow> WriteInt32 0 | Some bs \<Rightarrow> if bs = [] then WriteInt32 0 else WriteBytes b)"

subsection \<open>The contract of a writer and its reader\<close>

definition reads :: "'a rd \<Rightarrow> bytes \<Rightarrow> 'a \<Rightarrow> bool" where
  "reads m e x \<longleftrightarrow>
     (\<forall>pre rest. int (length (pre @ e @ rest)) < 2 ^ 63 \<longrightarrow>
        m \<lparr>buf = pre @ e @ rest, off = int (length pre)\<rparr>
          = Inr (x, \<lparr>buf = pre @ e @ rest, off = int (length pre + length e)\<rparr>))"

lemma rbind_rret [simp]: "rbind (rret x) f = f x"
  by (simp add: rbind_def rret_def fun_eq_iff)

lemma reads_rret [reads_intros]: "reads (rret x) [] x"
  by (simp add: reads_def rret_def)

lemma reads_rbind [reads_intros]:
  assumes "reads m e1 x" and "reads (f x) e2 y"
  shows "reads (rbind m f) (e1 @ e2) y"
  unfolding reads_def rbind_def
proof (intro allI impI)
  fix pre rest
  assume len: "int (length (pre @ (e1 @ e2) @ rest)) < 2 ^ 63"
  have 1: "m \<lparr>buf = pre @ e1 @ (e2 @ rest), off = int (length pre)\<rparr>
      = Inr (x, \<lparr>buf = pre @ e1 @ (e2 @ rest), off = int (length pre + length e1)\<rparr>)"
    using assms(1) len unfolding reads_def by (simp add: add.assoc)
  have 2: "f x \<lparr>buf = (pre @ e1) @ e2 @ rest, off = int (length (pre @ e1))\<rparr>
      = Inr (y, \<lparr>buf = (pre @ e1) @ e2 @ rest, off = int (length (pre @ e1) + length e2)\<rparr>)"
    using assms(2) [unfolded reads_def, rule_format, of "pre @ e1" rest] len by simp
  show "(case m \<lparr>buf = pre @ (e1 @ e2) @ rest, off = int (length pre)\<rparr> of
          Inl e \<Rightarrow> Inl e | Inr (x, r') \<Rightarrow> f x r')
      = Inr (y, \<lparr>buf = pre @ (e1 @ e2) @ rest, off = int (length pre + length (e1 @ e2))\<rparr>)"
    using 1 2 by (simp add: add.assoc)
qed

text \<open>The same rule for a final read that returns what was built, and with no bytes of its own.\<close>

lemma reads_rbind_ret [reads_intros]: "reads m e x \<Longrightarrow> reads (rbind m (\<lambda>x. rret (g x))) e (g x)"
  using reads_rbind [of m e x "\<lambda>x. rret (g x)" "[]" "g x"] by (simp add: reads_rret)

lemma reads_rbind_nil: "reads m [] x \<Longrightarrow> reads (f x) e y \<Longrightarrow> reads (rbind m f) e y"
  using reads_rbind [of m "[]" x f e y] by simp

lemma reads_rbind_last: "reads m e x \<Longrightarrow> reads (f x) [] y \<Longrightarrow> reads (rbind m f) e y"
  using reads_rbind [of m e x f "[]" y] by simp

lemma reads_run:
  assumes "reads m e x" and "int (length e) < 2 ^ 63"
  shows "m (NewReader e) = Inr (x, \<lparr>buf = e, off = int (length e)\<rparr>)"
  using assms(1) [unfolded reads_def, rule_format, of "[]" "[]"] assms(2)
  by (simp add: NewReader_def)

lemma reads_run_append:
  assumes "reads m e x" and "int (length (e @ rest)) < 2 ^ 63"
  shows "m (NewReader (e @ rest)) = Inr (x, \<lparr>buf = e @ rest, off = int (length e)\<rparr>)"
  using assms(1) [unfolded reads_def, rule_format, of "[]" rest] assms(2)
  by (simp add: NewReader_def)

lemma reads_need:
  assumes "n = int (length e)" and "reads m e x"
  shows "reads (rbind (need n) (\<lambda>_. m)) e x"
  unfolding reads_def
proof (intro allI impI)
  fix pre rest
  assume len: "int (length (pre @ e @ rest)) < 2 ^ 63"
  then have "s64 (int (length pre) + n) = int (length pre) + n"
    using assms(1) by (intro s64_id) simp_all
  with assms len show "rbind (need n) (\<lambda>_. m) \<lparr>buf = pre @ e @ rest, off = int (length pre)\<rparr>
     = Inr (x, \<lparr>buf = pre @ e @ rest, off = int (length pre + length e)\<rparr>)"
    by (simp add: rbind_def need_def reads_def)
qed

lemma reads_rslice: "n = int (length e) \<Longrightarrow> reads (rslice n) e e"
  by (simp add: reads_def rslice_def)

lemma reads_fixed:
  assumes "n = int (length e)" and "g e = x"
  shows "reads (rbind (need n) (\<lambda>_. rbind (rslice n) (\<lambda>b. rret (g b)))) e x"
  using reads_need [OF assms(1) reads_rbind_ret [OF reads_rslice [OF assms(1)]], of g] assms(2)
  by simp

lemma reads_read_times:
  assumes "\<And>x. x \<in> set xs \<Longrightarrow> reads m (enc x) x"
  shows "reads (read_times (length xs) m) (concat (map enc xs)) xs"
  using assms
proof (induction xs)
  case (Cons x xs)
  then have "reads (rbind (read_times (length xs) m) (\<lambda>xs. rret (x # xs))) (concat (map enc xs)) (x # xs)"
    by (intro reads_rbind_ret) simp
  with Cons.prems [of x] show ?case by (auto intro: reads_rbind)
qed (simp add: reads_rret)

locale codec =
  fixes enc :: "'a \<Rightarrow> bytes" and dec :: "'a rd" and dom :: "'a \<Rightarrow> bool"
  assumes dec_enc: "dom x \<Longrightarrow> reads dec (enc x) x"
begin

lemma list_dec_enc:
  "(\<forall>x \<in> set xs. dom x) \<Longrightarrow> reads (read_times (length xs) dec) (concat (map enc xs)) xs"
  by (rule reads_read_times) (auto intro: dec_enc)

lemma dec_run:
  "dom x \<Longrightarrow> int (length (enc x @ rest)) < 2 ^ 63 \<Longrightarrow>
   dec (NewReader (enc x @ rest)) = Inr (x, \<lparr>buf = enc x @ rest, off = int (length (enc x))\<rparr>)"
  by (rule reads_run_append [OF dec_enc])

end

subsection \<open>The primitives satisfy the contract\<close>

interpretation int8_codec: codec WriteInt8 ReadInt8 "\<lambda>_. True"
  by unfold_locales (simp add: WriteInt8_def ReadInt8_def reads_fixed)

interpretation int16_codec: codec WriteInt16 ReadInt16 "\<lambda>_. True"
  by unfold_locales (simp add: WriteInt16_def ReadInt16_def reads_fixed)

interpretation int32_codec: codec WriteInt32 ReadInt32 "\<lambda>_. True"
  by unfold_locales (simp add: WriteInt32_def ReadInt32_def reads_fixed)

interpretation int64_codec: codec WriteInt64 ReadInt64 "\<lambda>_. True"
  by unfold_locales (simp add: WriteInt64_def ReadInt64_def reads_fixed)

interpretation bool_codec: codec WriteBool ReadBool "\<lambda>_. True"
proof
  fix x :: bool
  have "reads ReadInt8 (WriteBool x) (if x then 1 else 0)"
    using int8_codec.dec_enc [of 1] int8_codec.dec_enc [of 0] by (simp add: WriteBool_def WriteInt8_def)
  from reads_rbind_ret [OF this, of "\<lambda>v. v \<noteq> 0"]
  show "reads ReadBool (WriteBool x) x" by (cases x) (simp_all add: ReadBool_def)
qed

interpretation uvarint_codec: codec WriteUVarint ReadUVarint "\<lambda>_. True"
  by unfold_locales (simp add: reads_def ReadUVarint_def WriteUVarint_def rtail_def)

interpretation varint_codec: codec WriteVarint ReadVarint "\<lambda>_. True"
  by unfold_locales (simp add: reads_def ReadVarint_def WriteVarint_def rtail_def)

lemma sint16_len: "length s < 2 ^ 15 \<Longrightarrow> sint (of_nat (length s) :: int16) = int (length s)"
  by (rule sint_of_nat_small) simp

lemma sint32_len: "length s < 2 ^ 31 \<Longrightarrow> sint (of_nat (length s) :: int32) = int (length s)"
  by (rule sint_of_nat_small) simp

lemma reads_readString:
  assumes "length s < 2 ^ 15"
  shows "reads readString (WriteString s) (s, False)"
  unfolding readString_def WriteString_def
  by (rule reads_rbind [OF int16_codec.dec_enc]) (simp_all add: sint16_len [OF assms] reads_fixed)

lemma reads_readString_null: "reads readString (WriteInt16 (-1)) ([], True)"
  unfolding readString_def
  by (rule reads_rbind_last [OF int16_codec.dec_enc]) (simp_all add: reads_rret)

definition short_string :: "gostring \<Rightarrow> bool" where
  "short_string s \<longleftrightarrow> length s < 2 ^ 15"

definition short_nstring :: "gostring option \<Rightarrow> bool" where
  "short_nstring s \<longleftrightarrow> (case s of None \<Rightarrow> True | Some t \<Rightarrow> short_string t)"

definition short_bytes :: "bytes option \<Rightarrow> bool" where
  "short_bytes b \<longleftrightarrow> (case b of None \<Rightarrow> True | Some bs \<Rightarrow> length bs < 2 ^ 31)"

definition short_list :: "'a list \<Rightarrow> bool" where
  "short_list xs \<longleftrightarrow> length xs < 2 ^ 31"

interpretation string_codec: codec WriteString ReadString short_string
proof
  fix s
  assume "short_string s"
  then show "reads ReadString (WriteString s) s"
    using reads_rbind_ret [OF reads_readString [of s], of fst]
    by (simp add: ReadString_def short_string_def case_prod_beta')
qed

interpretation nstring_codec: codec WriteNullableString ReadNullableString short_nstring
proof
  fix s
  assume s: "short_nstring s"
  show "reads ReadNullableString (WriteNullableString s) s"
  proof (cases s)
    case None
    then show ?thesis
      using reads_rbind_ret [OF reads_readString_null, of "\<lambda>(s, null). if null then None else Some s"]
      by (simp add: ReadNullableString_def WriteNullableString_def case_prod_beta')
  next
    case (Some t)
    then show ?thesis
      using reads_rbind_ret [OF reads_readString [of t], of "\<lambda>(s, null). if null then None else Some s"] s
      by (simp add: ReadNullableString_def WriteNullableString_def case_prod_beta' short_nstring_def
          short_string_def)
  qed
qed

interpretation bytes_codec: codec WriteBytes ReadBytes short_bytes
proof
  fix b
  assume b: "short_bytes b"
  show "reads ReadBytes (WriteBytes b) b"
  proof (cases b)
    case None
    then show ?thesis
      unfolding ReadBytes_def WriteBytes_def
      by (auto intro!: reads_rbind_last [OF int32_codec.dec_enc] simp: reads_rret)
  next
    case (Some bs)
    with b have "length bs < 2 ^ 31" by (simp add: short_bytes_def)
    with Some show ?thesis
      unfolding ReadBytes_def WriteBytes_def
      by (auto intro!: reads_rbind [OF int32_codec.dec_enc] simp: sint32_len reads_fixed)
  qed
qed

lemma reads_ReadBytes_OrEmpty:
  "short_bytes b \<Longrightarrow> reads ReadBytes (WriteBytesOrEmpty b) (Some (obytes b))"
  using bytes_codec.dec_enc [of "Some []"] bytes_codec.dec_enc [of b]
  by (auto simp: WriteBytesOrEmpty_def WriteBytes_def short_bytes_def obytes_def split: option.splits)

lemma reads_ReadArrayLen:
  assumes "n < 2 ^ 31"
  shows "reads ReadArrayLen (WriteArrayLen (int n)) (int n)"
proof -
  have "sint (of_nat n :: int32) = int n" using assms by (intro sint_of_nat_small) simp
  then show ?thesis
    using reads_rbind_ret [OF int32_codec.dec_enc [of "of_nat n"], of "\<lambda>l. if sint l < 0 then -1 else sint l"]
    by (simp add: ReadArrayLen_def WriteArrayLen_def)
qed

lemma reads_ReadArrayLen_null: "reads ReadArrayLen (WriteArrayLen (-1)) (-1)"
  using reads_rbind_ret [OF int32_codec.dec_enc [of "-1"], of "\<lambda>l. if sint l < 0 then -1 else sint l"]
  by (simp add: ReadArrayLen_def WriteArrayLen_def)

text \<open>Arrays of a codec's values: the laws every message decoder rests on.\<close>

context codec
begin

lemma array_dec_enc:
  assumes "short_list xs" and "\<forall>x \<in> set xs. dom x"
  shows "reads (ReadArrayOf dec) (WriteArrayOf enc xs) xs"
proof -
  have "reads (rbind (makeslice (int (length xs))) (\<lambda>_. read_times (length xs) dec)) (concat (map enc xs)) xs"
    by (rule reads_rbind_nil) (simp_all add: makeslice_def reads_rret list_dec_enc assms)
  with assms(1) show ?thesis
    unfolding ReadArrayOf_def WriteArrayOf_def
    by (intro reads_rbind [OF reads_ReadArrayLen]) (simp_all add: short_list_def)
qed

lemma narray_dec_enc:
  assumes "short_list (olist xs)" and "\<forall>y \<in> set (olist xs). dom y"
  shows "reads (ReadNullableArrayOf dec) (WriteNullableArrayOf enc xs) xs"
proof (cases xs)
  case None
  then show ?thesis
    unfolding ReadNullableArrayOf_def WriteNullableArrayOf_def
    by (auto intro!: reads_rbind_last [OF reads_ReadArrayLen_null] simp: reads_rret)
next
  case (Some ys)
  with assms show ?thesis
    unfolding ReadNullableArrayOf_def WriteNullableArrayOf_def WriteArrayOf_def Some option.case
    by (intro reads_rbind [OF reads_ReadArrayLen]) (simp_all add: short_list_def reads_rbind_ret list_dec_enc)
qed

end

text \<open>
  The contract of a struct of the protocol: reading what was written for a value \<open>x\<close>
  gives \<open>norm x\<close>, the part of \<open>x\<close> that its wire format carries.  A \<open>codec\<close> carries
  everything.
\<close>

locale ncodec =
  fixes enc :: "'a \<Rightarrow> bytes" and dec :: "'a rd" and norm :: "'a \<Rightarrow> 'a" and dom :: "'a \<Rightarrow> bool"
  assumes dec_norm: "dom x \<Longrightarrow> reads dec (enc x) (norm x)"
begin

lemma list_dec_norm:
  "(\<forall>x \<in> set xs. dom x) \<Longrightarrow> reads (read_times (length xs) dec) (concat (map enc xs)) (map norm xs)"
proof (induction xs)
  case (Cons x xs)
  then have "reads (rbind (read_times (length xs) dec) (\<lambda>xs. rret (norm x # xs))) (concat (map enc xs))
      (norm x # map norm xs)"
    by (intro reads_rbind_ret) simp
  with Cons.prems show ?case by (auto intro: reads_rbind dec_norm)
qed (simp add: reads_rret)

lemma array_dec_norm:
  assumes "short_list xs" and "\<forall>x \<in> set xs. dom x"
  shows "reads (ReadArrayOf dec) (WriteArrayOf enc xs) (map norm xs)"
proof -
  have "reads (rbind (makeslice (int (length xs))) (\<lambda>_. read_times (length xs) dec))
      (concat (map enc xs)) (map norm xs)"
    by (rule reads_rbind_nil) (simp_all add: makeslice_def reads_rret list_dec_norm assms)
  with assms(1) show ?thesis
    unfolding ReadArrayOf_def WriteArrayOf_def
    by (intro reads_rbind [OF reads_ReadArrayLen]) (simp_all add: short_list_def)
qed

lemma narray_dec_norm:
  assumes "short_list (olist xs)" and "\<forall>y \<in> set (olist xs). dom y"
  shows "reads (ReadNullableArrayOf dec) (WriteNullableArrayOf enc xs) (map_option (map norm) xs)"
proof (cases xs)
  case None
  then show ?thesis
    unfolding ReadNullableArrayOf_def WriteNullableArrayOf_def
    by (auto intro!: reads_rbind_last [OF reads_ReadArrayLen_null] simp: reads_rret)
next
  case (Some ys)
  with assms show ?thesis
    unfolding ReadNullableArrayOf_def WriteNullableArrayOf_def WriteArrayOf_def Some option.case
    by (intro reads_rbind [OF reads_ReadArrayLen]) (simp_all add: short_list_def reads_rbind_ret list_dec_norm)
qed

lemma decode_encode:
  assumes "dom x" and "length (enc x @ rest) < 2 ^ 63"
  shows "run dec (enc x @ rest) = Inr (norm x)"
proof -
  have "int (length (enc x @ rest)) < int (2 ^ 63)" using assms(2) by (simp only: of_nat_less_iff)
  then show ?thesis using reads_run_append [OF dec_norm [OF assms(1)], of rest] by (simp add: run_def)
qed

end

sublocale codec \<subseteq> n: ncodec enc dec "\<lambda>x. x" dom
  by unfold_locales (rule dec_enc)

text \<open>
  Slices of integers: the encoders that write the length of a nil slice as 0 and
  the decoders that read a nullable array.
\<close>

context codec
begin

lemma parray_dec_enc:
  assumes "short_list (olist xs)" and "\<forall>y \<in> set (olist xs). dom y"
  shows "reads (ReadNullableArrayOf dec) (WriteArrayOf enc (olist xs)) (Some (olist xs))"
  using narray_dec_enc [of "Some (olist xs)"] assms by (simp add: WriteNullableArrayOf_def)

end

lemma short_None [simp]: "short_nstring None" "short_bytes None"
  by (simp_all add: short_nstring_def short_bytes_def)

lemma wwhen_False: "\<not> c \<Longrightarrow> wwhen c e = []"
  by (simp add: wwhen_def)

lemma rwhen_False: "\<not> c \<Longrightarrow> rwhen c m d = rret d"
  by (simp add: rwhen_def)

lemma reads_rwhen [reads_intros]:
  "(c \<Longrightarrow> reads m e x) \<Longrightarrow> reads (rwhen c m d) (wwhen c e) (if c then x else d)"
  by (simp add: rwhen_def wwhen_def reads_rret)

lemma reads_WriteStringPtr [reads_intros]: "short_string s \<Longrightarrow> reads ReadString (WriteStringPtr s) s"
  using string_codec.dec_enc by (simp add: WriteStringPtr_def WriteNullableString_def)

lemmas reads_prims [reads_intros] =
  int8_codec.dec_enc [OF TrueI] int16_codec.dec_enc [OF TrueI] int32_codec.dec_enc [OF TrueI]
  int64_codec.dec_enc [OF TrueI] bool_codec.dec_enc [OF TrueI] uvarint_codec.dec_enc [OF TrueI]
  varint_codec.dec_enc [OF TrueI] string_codec.dec_enc nstring_codec.dec_enc bytes_codec.dec_enc
  reads_ReadBytes_OrEmpty reads_ReadArrayLen_null

lemmas reads_arrays [reads_intros] =
  int32_codec.array_dec_enc int32_codec.narray_dec_enc int32_codec.parray_dec_enc
  int64_codec.narray_dec_enc string_codec.array_dec_enc string_codec.narray_dec_enc

subsection \<open>Decoders that fail\<close>

definition fails :: "'a rd \<Rightarrow> bytes \<Rightarrow> go_error \<Rightarrow> bool" where
  "fails m e err \<longleftrightarrow>
     (\<forall>pre rest. int (length (pre @ e @ rest)) < 2 ^ 63 \<longrightarrow>
        m \<lparr>buf = pre @ e @ rest, off = int (length pre)\<rparr> = Inl err)"

lemma fails_rbind: "fails m e err \<Longrightarrow> fails (rbind m f) e err"
  by (simp add: fails_def rbind_def)

lemma fails_after:
  assumes "reads m e1 x" and "fails (f x) e2 err"
  shows "fails (rbind m f) (e1 @ e2) err"
  unfolding fails_def rbind_def
proof (intro allI impI)
  fix pre rest
  assume len: "int (length (pre @ (e1 @ e2) @ rest)) < 2 ^ 63"
  have 1: "m \<lparr>buf = pre @ e1 @ (e2 @ rest), off = int (length pre)\<rparr>
      = Inr (x, \<lparr>buf = pre @ e1 @ (e2 @ rest), off = int (length pre + length e1)\<rparr>)"
    using assms(1) len unfolding reads_def by (simp add: add.assoc)
  have 2: "f x \<lparr>buf = (pre @ e1) @ e2 @ rest, off = int (length (pre @ e1))\<rparr> = Inl err"
    using assms(2) [unfolded fails_def, rule_format, of "pre @ e1" rest] len by simp
  show "(case m \<lparr>buf = pre @ (e1 @ e2) @ rest, off = int (length pre)\<rparr> of
          Inl e \<Rightarrow> Inl e | Inr (x, r') \<Rightarrow> f x r') = Inl err"
    using 1 2 by simp
qed

lemma fails_run:
  assumes "fails m e err" and "length (e @ rest) < 2 ^ 63"
  shows "run m (e @ rest) = Inl err"
proof -
  have "int (length (e @ rest)) < int (2 ^ 63)" using assms(2) by (simp only: of_nat_less_iff)
  then show ?thesis
    using assms(1) [unfolded fails_def, rule_format, of "[]" rest] by (simp add: run_def NewReader_def)
qed

text \<open>A null array where the decoder allocates with the length it read.\<close>

lemma fails_null_array: "fails (ReadArrayOf m) (WriteArrayLen (-1)) Panic"
proof -
  have "fails (rbind (makeslice (-1)) (\<lambda>_. read_times 0 m)) [] Panic"
    by (simp add: fails_def rbind_def makeslice_def rfail_def)
  from fails_after [OF reads_ReadArrayLen_null, of "\<lambda>n. rbind (makeslice n) (\<lambda>_. read_times (nat n) m)" "[]"] this
  show ?thesis by (simp add: ReadArrayOf_def)
qed

lemmas fails_intros = fails_after fails_rbind [OF fails_null_array] fails_null_array

text \<open>The definitions that compute the length of an encoded message and the bounds on its parts.\<close>

lemmas wire_sizes = WriteArrayOf_def WriteArrayLen_def WriteInt8_def WriteInt16_def WriteInt32_def WriteInt64_def
  WriteString_def WriteBytes_def WriteNullableString_def WriteBool_def wwhen_def WriteNullableArrayOf_def
  WriteBytesOrEmpty_def WriteStringPtr_def

lemmas wire_shorts = short_list_def short_string_def short_nstring_def short_bytes_def

end
