(* ===== verification/Frame.thy ===== *)
theory Frame
  imports Wire
begin

text \<open>
  Request and response frames (\<^verbatim>\<open>src/pkg/protocol/frame.go\<close>), the version table
  (\<^verbatim>\<open>src/pkg/protocol/types.go\<close>) and the frame side of \<^verbatim>\<open>KafkaClient.roundTrip\<close>
  (\<^verbatim>\<open>src/pkg/client/client.go\<close>).  A connection is the bytes still to be read from it;
  \<^verbatim>\<open>io.ReadFull\<close> takes a prefix of them or fails when they run out.
\<close>

subsection \<open>Versions\<close>

definition maxVersions :: "(int16 \<times> int16) list" where
  "maxVersions =
     [(0, 3), (1, 5), (2, 5), (3, 8), (8, 7), (9, 5), (10, 2), (11, 5), (12, 3), (13, 3), (14, 3),
      (15, 3), (16, 2), (17, 1), (18, 2), (19, 4), (20, 3), (22, 2), (36, 1), (42, 1)]"

definition SupportsKey :: "int16 \<Rightarrow> bool" where
  "SupportsKey key = (map_of maxVersions key \<noteq> None)"

definition MaxVersion :: "int16 \<Rightarrow> int16" where
  "MaxVersion key = (case map_of maxVersions key of Some v \<Rightarrow> v | None \<Rightarrow> -1)"

subsection \<open>Frames\<close>

record RequestHeader =
  rqh_ApiKey :: int16
  rqh_ApiVersion :: int16
  rqh_CorrelationID :: int32
  rqh_ClientID :: gostring

definition DecodeRequestHeader :: "RequestHeader rd" where
  "DecodeRequestHeader =
     rbind ReadInt16 (\<lambda>apiKey. rbind ReadInt16 (\<lambda>apiVersion. rbind ReadInt32 (\<lambda>corrID.
     rbind ReadString (\<lambda>clientID.
     rret \<lparr>rqh_ApiKey = apiKey, rqh_ApiVersion = apiVersion, rqh_CorrelationID = corrID, rqh_ClientID = clientID\<rparr>))))"

definition ReadFull :: "bytes \<Rightarrow> nat \<Rightarrow> (bytes \<times> bytes) res" where
  "ReadFull conn n =
     (if n \<le> length conn then Inr (take n conn, drop n conn)
      else if conn = [] then Inl EOF else Inl ErrUnexpectedEOF)"

definition ReadRequestFrame :: "bytes \<Rightarrow> int \<Rightarrow> (RequestHeader \<times> bytes \<times> bytes) res" where
  "ReadRequestFrame conn maxSize =
     res_bind (ReadFull conn 4) (\<lambda>(lenBuf, conn1).
       let len = uint (Uint32 lenBuf)
       in if len \<le> 0 then Inl InvalidFrameLength
          else if 0 < maxSize \<and> maxSize < len then Inl FrameTooLarge
          else res_bind (ReadFull conn1 (nat len)) (\<lambda>(buffer, conn2).
            res_bind (DecodeRequestHeader (NewReader buffer)) (\<lambda>(hdr, r).
              Inr (hdr, drop (nat (off r)) buffer, conn2))))"

definition WriteResponseFrame :: "int32 \<Rightarrow> bytes \<Rightarrow> bytes" where
  "WriteResponseFrame corrID body =
     PutUint32 (of_nat (length body + 4)) @ PutUint32 corrID @ body"

text \<open>The request frame that \<^verbatim>\<open>roundTrip\<close> writes, and its treatment of the reply.\<close>

definition request_frame :: "int16 \<Rightarrow> int16 \<Rightarrow> int32 \<Rightarrow> gostring \<Rightarrow> bytes \<Rightarrow> bytes" where
  "request_frame apiKey version corrID clientID reqBody =
     PutUint32 (of_nat (length reqBody + 8 + 2 + length clientID)) @ PutUint16 apiKey @ PutUint16 version
     @ PutUint32 corrID @ PutUint16 (of_nat (length clientID)) @ clientID @ reqBody"

definition receive_response :: "int32 \<Rightarrow> bytes \<Rightarrow> (bytes \<times> bytes) res" where
  "receive_response corrID conn =
     res_bind (ReadFull conn 4) (\<lambda>(lenBuf, conn1).
       let len = sint (Uint32 lenBuf)
       in if len < 4 then Inl InvalidResponseLength
          else res_bind (ReadFull conn1 (nat len)) (\<lambda>(body, conn2).
            if Uint32 (take 4 body) \<noteq> corrID then Inl CorrelationMismatch
            else Inr (drop 4 body, conn2)))"

subsection \<open>Properties\<close>

lemma ReadFull_append [simp]: "n = length xs \<Longrightarrow> ReadFull (xs @ ys) n = Inr (xs, ys)"
  by (simp add: ReadFull_def)

lemma ReadFull_Inr: "ReadFull conn n = Inr (a, b) \<longleftrightarrow> conn = a @ b \<and> length a = n"
  by (auto simp: ReadFull_def split: if_splits)

lemma reads_DecodeRequestHeader:
  assumes "short_string c"
  shows "reads DecodeRequestHeader (WriteInt16 k @ WriteInt16 v @ WriteInt32 i @ WriteString c)
    \<lparr>rqh_ApiKey = k, rqh_ApiVersion = v, rqh_CorrelationID = i, rqh_ClientID = c\<rparr>"
  unfolding DecodeRequestHeader_def by (rule reads_intros assms)+

lemma uint32_of_nat: "n < 2 ^ 32 \<Longrightarrow> uint (of_nat n :: 32 word) = int n"
  by (simp add: unsigned_of_nat take_bit_nat_eq_self)

definition frame_len :: "gostring \<Rightarrow> bytes \<Rightarrow> nat" where
  "frame_len clientID body = length body + 8 + 2 + length clientID"

text \<open>
  The broker takes from the connection exactly the frame the client wrote: it sees
  the key, version, correlation id and client id of the client, the request body byte for
  byte, and leaves the connection at the start of the next frame.
\<close>

theorem request_frame_roundtrip:
  assumes "short_string clientID" and "frame_len clientID body < 2 ^ 32"
    and "maxSize \<le> 0 \<or> int (frame_len clientID body) \<le> maxSize"
  shows "ReadRequestFrame (request_frame apiKey version corrID clientID body @ rest) maxSize
    = Inr (\<lparr>rqh_ApiKey = apiKey, rqh_ApiVersion = version, rqh_CorrelationID = corrID, rqh_ClientID = clientID\<rparr>,
           body, rest)"
proof -
  define h where "h = WriteInt16 apiKey @ WriteInt16 version @ WriteInt32 corrID @ WriteString clientID"
  have fl: "length (h @ body) = frame_len clientID body" by (simp add: h_def frame_len_def wire_sizes)
  have frame: "request_frame apiKey version corrID clientID body @ rest
      = PutUint32 (of_nat (frame_len clientID body)) @ h @ body @ rest"
    by (simp add: request_frame_def frame_len_def h_def wire_sizes)
  have hdr: "DecodeRequestHeader (NewReader (h @ body))
      = Inr (\<lparr>rqh_ApiKey = apiKey, rqh_ApiVersion = version, rqh_CorrelationID = corrID, rqh_ClientID = clientID\<rparr>,
             \<lparr>buf = h @ body, off = int (length h)\<rparr>)"
    unfolding h_def using assms(2) fl [unfolded h_def]
    by (intro reads_run_append reads_DecodeRequestHeader assms) simp
  have whole: "ReadFull (h @ body @ rest) (frame_len clientID body) = Inr (h @ body, rest)"
    using ReadFull_append [of "frame_len clientID body" "h @ body" rest] fl by simp
  have "0 < frame_len clientID body" by (simp add: frame_len_def)
  moreover have "\<not> (0 < maxSize \<and> maxSize < int (frame_len clientID body))" using assms(3) by linarith
  ultimately show ?thesis
    using assms(2) hdr whole
    unfolding ReadRequestFrame_def frame by (simp add: uint32_of_nat Let_def)
qed

theorem request_frame_roundtrip_witness:
  "ReadRequestFrame (request_frame 3 1 42 [107, 99] [1, 2, 3] @ [9]) 100
    = Inr (\<lparr>rqh_ApiKey = 3, rqh_ApiVersion = 1, rqh_CorrelationID = 42, rqh_ClientID = [107, 99]\<rparr>, [1, 2, 3], [9])"
  by (rule request_frame_roundtrip) (simp_all add: short_string_def frame_len_def)

text \<open>
  With a positive size limit, a frame that is accepted fits the limit together with
  its header, and what was consumed of the connection is the frame and nothing else.
\<close>

theorem request_frame_bounded:
  assumes "ReadRequestFrame conn maxSize = Inr (hdr, body, rest)" and "0 < maxSize"
  shows "\<exists>frame. conn = frame @ rest \<and> int (length frame) \<le> maxSize + 4
    \<and> (\<exists>pre. frame = pre @ body \<and> 4 \<le> length pre)"
proof -
  from assms(1) obtain lenBuf conn1 where 1: "ReadFull conn 4 = Inr (lenBuf, conn1)"
    by (auto simp: ReadRequestFrame_def res_bind_eq_Inr)
  with assms(1) obtain buffer r where a: "\<not> maxSize < uint (Uint32 lenBuf)"
    and 2: "ReadFull conn1 (nat (uint (Uint32 lenBuf))) = Inr (buffer, rest)"
    and "DecodeRequestHeader (NewReader buffer) = Inr (hdr, r)"
    and c: "body = drop (nat (off r)) buffer"
    using assms(2) by (auto simp: ReadRequestFrame_def res_bind_eq_Inr Let_def split: if_splits)
  note p = 1 [unfolded ReadFull_Inr] 2 [unfolded ReadFull_Inr]
  have "conn = (lenBuf @ buffer) @ rest" using p by simp
  moreover have "int (length (lenBuf @ buffer)) \<le> maxSize + 4"
    using a p assms(2) by simp
  moreover have "lenBuf @ buffer = (lenBuf @ take (nat (off r)) buffer) @ body"
    using c by simp
  moreover have "4 \<le> length (lenBuf @ take (nat (off r)) buffer)" using p by simp
  ultimately show ?thesis by blast
qed

theorem request_frame_bounded_witness:
  "\<exists>frame. request_frame 3 1 42 [107, 99] [1, 2, 3] @ [9] = frame @ [9] \<and> int (length frame) \<le> 100 + 4
    \<and> (\<exists>pre. frame = pre @ [1, 2, 3] \<and> 4 \<le> length pre)"
proof -
  have "ReadRequestFrame (request_frame 3 1 42 [107, 99] [1, 2, 3] @ [9]) 100
    = Inr (\<lparr>rqh_ApiKey = 3, rqh_ApiVersion = 1, rqh_CorrelationID = 42, rqh_ClientID = [107, 99]\<rparr>, [1, 2, 3], [9])"
    by code_simp
  from request_frame_bounded [OF this] show ?thesis by simp
qed

lemma receive_WriteResponseFrame:
  assumes "length body + 4 < 2 ^ 31"
  shows "receive_response corrID (WriteResponseFrame corrID body @ rest) = Inr (body, rest)"
proof -
  have s: "sint (of_nat (length body + 4) :: 32 word) = int (length body + 4)"
    using assms by (intro sint_of_nat_small) simp
  have "ReadFull (PutUint32 corrID @ body @ rest) (length body + 4) = Inr (PutUint32 corrID @ body, rest)"
    using ReadFull_append [of "length body + 4" "PutUint32 corrID @ body" rest] by simp
  with s show ?thesis
    by (simp add: receive_response_def WriteResponseFrame_def Let_def del: of_nat_add)
qed

end
