(* ===== verification/Messages_Data.thy ===== *)
theory Messages_Data
  imports Wire
begin

text \<open>
  The data-path messages: Produce, Fetch, ListOffsets and Metadata
  (\<^verbatim>\<open>src/pkg/protocol/{produce,fetch,list_offsets,metadata}.go\<close> and the client side of each in
  \<^verbatim>\<open>client_{produce,fetch,listoffsets,metadata}.go\<close>).  For each struct \<open>X\<close> of a message,
  \<open>writeX\<close> and \<open>readX\<close> are the code that writes and reads it (the body of the loop for an
  element of an array), \<open>X_ok\<close> says that its strings, byte slices and arrays fit their length
  fields, and \<open>X_wire v x\<close> is what version \<open>v\<close> carries of it.  \<open>EncodeX\<close> and \<open>DecodeX\<close> are
  the functions of the package.
\<close>

subsection \<open>Produce\<close>

record ProduceRequestPartition =
  prp_Partition :: int32
  prp_Records :: "bytes option"

definition writeProduceRequestPartition :: "ProduceRequestPartition \<Rightarrow> bytes" where
  "writeProduceRequestPartition x =
     WriteInt32 (prp_Partition x)
     @ WriteBytes (prp_Records x)"

definition readProduceRequestPartition :: "ProduceRequestPartition rd" where
  "readProduceRequestPartition =
     rbind ReadInt32 (\<lambda>partition.
     rbind ReadBytes (\<lambda>records.
     rret \<lparr>prp_Partition = partition, prp_Records = records\<rparr>))"

definition ProduceRequestPartition_ok :: "ProduceRequestPartition \<Rightarrow> bool" where
  "ProduceRequestPartition_ok x \<longleftrightarrow> short_bytes (prp_Records x)"

interpretation ProduceRequestPartition_codec: codec writeProduceRequestPartition readProduceRequestPartition ProduceRequestPartition_ok
proof
  fix x :: ProduceRequestPartition
  assume ok: "ProduceRequestPartition_ok x"
  have "reads readProduceRequestPartition (writeProduceRequestPartition x) \<lparr>prp_Partition = prp_Partition x, prp_Records = prp_Records x\<rparr>"
    unfolding readProduceRequestPartition_def writeProduceRequestPartition_def
    by (rule reads_intros | use ok in \<open>simp add: ProduceRequestPartition_ok_def\<close>)+
  then show "reads readProduceRequestPartition (writeProduceRequestPartition x) x" by (cases x) simp
qed

lemmas ProduceRequestPartition_reads [reads_intros] = ProduceRequestPartition_codec.array_dec_enc ProduceRequestPartition_codec.narray_dec_enc

record ProduceRequestTopic =
  prt_Topic :: gostring
  prt_Partitions :: "ProduceRequestPartition list"

definition writeProduceRequestTopic :: "ProduceRequestTopic \<Rightarrow> bytes" where
  "writeProduceRequestTopic x =
     WriteString (prt_Topic x)
     @ WriteArrayOf writeProduceRequestPartition (prt_Partitions x)"

definition readProduceRequestTopic :: "ProduceRequestTopic rd" where
  "readProduceRequestTopic =
     rbind ReadString (\<lambda>topic.
     rbind (ReadArrayOf readProduceRequestPartition) (\<lambda>partitions.
     rret \<lparr>prt_Topic = topic, prt_Partitions = partitions\<rparr>))"

definition ProduceRequestTopic_ok :: "ProduceRequestTopic \<Rightarrow> bool" where
  "ProduceRequestTopic_ok x \<longleftrightarrow> short_string (prt_Topic x)
     \<and> short_list (prt_Partitions x) \<and> (\<forall>y \<in> set (prt_Partitions x). ProduceRequestPartition_ok y)"

interpretation ProduceRequestTopic_codec: codec writeProduceRequestTopic readProduceRequestTopic ProduceRequestTopic_ok
proof
  fix x :: ProduceRequestTopic
  assume ok: "ProduceRequestTopic_ok x"
  have "reads readProduceRequestTopic (writeProduceRequestTopic x) \<lparr>prt_Topic = prt_Topic x, prt_Partitions = prt_Partitions x\<rparr>"
    unfolding readProduceRequestTopic_def writeProduceRequestTopic_def
    by (rule reads_intros | use ok in \<open>simp add: ProduceRequestTopic_ok_def\<close>)+
  then show "reads readProduceRequestTopic (writeProduceRequestTopic x) x" by (cases x) simp
qed

lemmas ProduceRequestTopic_reads [reads_intros] = ProduceRequestTopic_codec.array_dec_enc ProduceRequestTopic_codec.narray_dec_enc

record ProduceRequest =
  prq_Version :: int16
  prq_Acks :: int16
  prq_Timeout :: int32
  prq_Topics :: "ProduceRequestTopic list"

definition writeProduceRequest :: "int16 \<Rightarrow> ProduceRequest \<Rightarrow> bytes" where
  "writeProduceRequest v x =
     wwhen (3 \<le> sint v) (WriteNullableString None)
     @ WriteInt16 (prq_Acks x)
     @ WriteInt32 (prq_Timeout x)
     @ WriteArrayOf writeProduceRequestTopic (prq_Topics x)"

definition readProduceRequest :: "int16 \<Rightarrow> ProduceRequest rd" where
  "readProduceRequest v =
     rbind (rwhen (3 \<le> sint v) ReadNullableString None) (\<lambda>_.
     rbind ReadInt16 (\<lambda>acks.
     rbind ReadInt32 (\<lambda>timeout.
     rbind (ReadArrayOf readProduceRequestTopic) (\<lambda>topics.
     rret \<lparr>prq_Version = v, prq_Acks = acks, prq_Timeout = timeout, prq_Topics = topics\<rparr>))))"

definition ProduceRequest_ok :: "int16 \<Rightarrow> ProduceRequest \<Rightarrow> bool" where
  "ProduceRequest_ok v x \<longleftrightarrow> short_list (prq_Topics x) \<and> (\<forall>y \<in> set (prq_Topics x). ProduceRequestTopic_ok y)"

definition ProduceRequest_wire :: "int16 \<Rightarrow> ProduceRequest \<Rightarrow> ProduceRequest" where
  "ProduceRequest_wire v x =
     \<lparr>prq_Version = v,
      prq_Acks = (prq_Acks x),
      prq_Timeout = (prq_Timeout x),
      prq_Topics = (prq_Topics x)\<rparr>"

interpretation ProduceRequest_codec: ncodec "writeProduceRequest v" "readProduceRequest v" "ProduceRequest_wire v" "ProduceRequest_ok v" for v
proof
  fix x :: ProduceRequest
  assume ok: "ProduceRequest_ok v x"
  show "reads (readProduceRequest v) (writeProduceRequest v x) (ProduceRequest_wire v x)"
    unfolding readProduceRequest_def writeProduceRequest_def ProduceRequest_wire_def
    by (rule reads_intros | use ok in \<open>simp add: ProduceRequest_ok_def\<close>)+
qed

definition EncodeProduceRequest :: "ProduceRequest \<Rightarrow> bytes" where
  "EncodeProduceRequest x = writeProduceRequest (prq_Version x) x"

definition DecodeProduceRequest :: "int16 \<Rightarrow> bytes \<Rightarrow> ProduceRequest res" where
  "DecodeProduceRequest version body = run (readProduceRequest version) body"

record ProduceResponsePartition =
  psp_Partition :: int32
  psp_ErrorCode :: int16
  psp_BaseOffset :: int64
  psp_LogAppendTime :: int64

definition writeProduceResponsePartition :: "int16 \<Rightarrow> ProduceResponsePartition \<Rightarrow> bytes" where
  "writeProduceResponsePartition v x =
     WriteInt32 (psp_Partition x)
     @ WriteInt16 (psp_ErrorCode x)
     @ WriteInt64 (psp_BaseOffset x)
     @ wwhen (2 \<le> sint v) (WriteInt64 (psp_LogAppendTime x))
     @ wwhen (5 \<le> sint v) (WriteInt64 (-1))"

definition readProduceResponsePartition :: "int16 \<Rightarrow> ProduceResponsePartition rd" where
  "readProduceResponsePartition v =
     rbind ReadInt32 (\<lambda>partition.
     rbind ReadInt16 (\<lambda>errorCode.
     rbind ReadInt64 (\<lambda>baseOffset.
     rbind (rwhen (2 \<le> sint v) ReadInt64 0) (\<lambda>logAppendTime.
     rbind (rwhen (5 \<le> sint v) ReadInt64 0) (\<lambda>_.
     rret \<lparr>psp_Partition = partition, psp_ErrorCode = errorCode, psp_BaseOffset = baseOffset, psp_LogAppendTime = logAppendTime\<rparr>)))))"

definition ProduceResponsePartition_ok :: "int16 \<Rightarrow> ProduceResponsePartition \<Rightarrow> bool" where
  "ProduceResponsePartition_ok v x \<longleftrightarrow> True"

definition ProduceResponsePartition_wire :: "int16 \<Rightarrow> ProduceResponsePartition \<Rightarrow> ProduceResponsePartition" where
  "ProduceResponsePartition_wire v x =
     \<lparr>psp_Partition = (psp_Partition x),
      psp_ErrorCode = (psp_ErrorCode x),
      psp_BaseOffset = (psp_BaseOffset x),
      psp_LogAppendTime = (if 2 \<le> sint v then (psp_LogAppendTime x) else 0)\<rparr>"

interpretation ProduceResponsePartition_codec: ncodec "writeProduceResponsePartition v" "readProduceResponsePartition v" "ProduceResponsePartition_wire v" "ProduceResponsePartition_ok v" for v
proof
  fix x :: ProduceResponsePartition
  assume ok: "ProduceResponsePartition_ok v x"
  show "reads (readProduceResponsePartition v) (writeProduceResponsePartition v x) (ProduceResponsePartition_wire v x)"
    unfolding readProduceResponsePartition_def writeProduceResponsePartition_def ProduceResponsePartition_wire_def
    by (rule reads_intros | use ok in \<open>simp add: ProduceResponsePartition_ok_def\<close>)+
qed

lemmas ProduceResponsePartition_reads [reads_intros] = ProduceResponsePartition_codec.array_dec_norm ProduceResponsePartition_codec.narray_dec_norm

record ProduceResponseTopic =
  pst_Topic :: gostring
  pst_Partitions :: "ProduceResponsePartition list"

definition writeProduceResponseTopic :: "int16 \<Rightarrow> ProduceResponseTopic \<Rightarrow> bytes" where
  "writeProduceResponseTopic v x =
     WriteString (pst_Topic x)
     @ WriteArrayOf (writeProduceResponsePartition v) (pst_Partitions x)"

definition readProduceResponseTopic :: "int16 \<Rightarrow> ProduceResponseTopic rd" where
  "readProduceResponseTopic v =
     rbind ReadString (\<lambda>topic.
     rbind (ReadArrayOf (readProduceResponsePartition v)) (\<lambda>partitions.
     rret \<lparr>pst_Topic = topic, pst_Partitions = partitions\<rparr>))"

definition ProduceResponseTopic_ok :: "int16 \<Rightarrow> ProduceResponseTopic \<Rightarrow> bool" where
  "ProduceResponseTopic_ok v x \<longleftrightarrow> short_string (pst_Topic x)
     \<and> short_list (pst_Partitions x) \<and> (\<forall>y \<in> set (pst_Partitions x). ProduceResponsePartition_ok v y)"

definition ProduceResponseTopic_wire :: "int16 \<Rightarrow> ProduceResponseTopic \<Rightarrow> ProduceResponseTopic" where
  "ProduceResponseTopic_wire v x =
     \<lparr>pst_Topic = (pst_Topic x),
      pst_Partitions = map (ProduceResponsePartition_wire v) (pst_Partitions x)\<rparr>"

interpretation ProduceResponseTopic_codec: ncodec "writeProduceResponseTopic v" "readProduceResponseTopic v" "ProduceResponseTopic_wire v" "ProduceResponseTopic_ok v" for v
proof
  fix x :: ProduceResponseTopic
  assume ok: "ProduceResponseTopic_ok v x"
  show "reads (readProduceResponseTopic v) (writeProduceResponseTopic v x) (ProduceResponseTopic_wire v x)"
    unfolding readProduceResponseTopic_def writeProduceResponseTopic_def ProduceResponseTopic_wire_def
    by (rule reads_intros | use ok in \<open>simp add: ProduceResponseTopic_ok_def\<close>)+
qed

lemmas ProduceResponseTopic_reads [reads_intros] = ProduceResponseTopic_codec.array_dec_norm ProduceResponseTopic_codec.narray_dec_norm

record ProduceResponse =
  prs_Version :: int16
  prs_Topics :: "ProduceResponseTopic list"
  prs_ThrottleTimeMs :: int32

definition writeProduceResponse :: "int16 \<Rightarrow> ProduceResponse \<Rightarrow> bytes" where
  "writeProduceResponse v x =
     WriteArrayOf (writeProduceResponseTopic v) (prs_Topics x)
     @ wwhen (1 \<le> sint v) (WriteInt32 (prs_ThrottleTimeMs x))"

definition readProduceResponse :: "int16 \<Rightarrow> ProduceResponse rd" where
  "readProduceResponse v =
     rbind (ReadArrayOf (readProduceResponseTopic v)) (\<lambda>topics.
     rbind (rwhen (1 \<le> sint v) ReadInt32 0) (\<lambda>throttleTimeMs.
     rret \<lparr>prs_Version = v, prs_Topics = topics, prs_ThrottleTimeMs = throttleTimeMs\<rparr>))"

definition ProduceResponse_ok :: "int16 \<Rightarrow> ProduceResponse \<Rightarrow> bool" where
  "ProduceResponse_ok v x \<longleftrightarrow> short_list (prs_Topics x) \<and> (\<forall>y \<in> set (prs_Topics x). ProduceResponseTopic_ok v y)"

definition ProduceResponse_wire :: "int16 \<Rightarrow> ProduceResponse \<Rightarrow> ProduceResponse" where
  "ProduceResponse_wire v x =
     \<lparr>prs_Version = v,
      prs_Topics = map (ProduceResponseTopic_wire v) (prs_Topics x),
      prs_ThrottleTimeMs = (if 1 \<le> sint v then (prs_ThrottleTimeMs x) else 0)\<rparr>"

interpretation ProduceResponse_codec: ncodec "writeProduceResponse v" "readProduceResponse v" "ProduceResponse_wire v" "ProduceResponse_ok v" for v
proof
  fix x :: ProduceResponse
  assume ok: "ProduceResponse_ok v x"
  show "reads (readProduceResponse v) (writeProduceResponse v x) (ProduceResponse_wire v x)"
    unfolding readProduceResponse_def writeProduceResponse_def ProduceResponse_wire_def
    by (rule reads_intros | use ok in \<open>simp add: ProduceResponse_ok_def\<close>)+
qed

definition EncodeProduceResponse :: "ProduceResponse \<Rightarrow> bytes" where
  "EncodeProduceResponse x = writeProduceResponse (prs_Version x) x"

definition DecodeProduceResponse :: "int16 \<Rightarrow> bytes \<Rightarrow> ProduceResponse res" where
  "DecodeProduceResponse version body = run (readProduceResponse version) body"

subsection \<open>Fetch\<close>

record FetchRequestPartition =
  frp_Partition :: int32
  frp_FetchOffset :: int64
  frp_LogStartOffset :: int64
  frp_PartitionMaxBytes :: int32

definition writeFetchRequestPartition :: "int16 \<Rightarrow> FetchRequestPartition \<Rightarrow> bytes" where
  "writeFetchRequestPartition v x =
     WriteInt32 (frp_Partition x)
     @ WriteInt64 (frp_FetchOffset x)
     @ wwhen (5 \<le> sint v) (WriteInt64 (frp_LogStartOffset x))
     @ WriteInt32 (frp_PartitionMaxBytes x)"

definition readFetchRequestPartition :: "int16 \<Rightarrow> FetchRequestPartition rd" where
  "readFetchRequestPartition v =
     rbind ReadInt32 (\<lambda>partition.
     rbind ReadInt64 (\<lambda>fetchOffset.
     rbind (rwhen (5 \<le> sint v) ReadInt64 0) (\<lambda>logStartOffset.
     rbind ReadInt32 (\<lambda>partitionMaxBytes.
     rret \<lparr>frp_Partition = partition, frp_FetchOffset = fetchOffset, frp_LogStartOffset = logStartOffset, frp_PartitionMaxBytes = partitionMaxBytes\<rparr>))))"

definition FetchRequestPartition_ok :: "int16 \<Rightarrow> FetchRequestPartition \<Rightarrow> bool" where
  "FetchRequestPartition_ok v x \<longleftrightarrow> True"

definition FetchRequestPartition_wire :: "int16 \<Rightarrow> FetchRequestPartition \<Rightarrow> FetchRequestPartition" where
  "FetchRequestPartition_wire v x =
     \<lparr>frp_Partition = (frp_Partition x),
      frp_FetchOffset = (frp_FetchOffset x),
      frp_LogStartOffset = (if 5 \<le> sint v then (frp_LogStartOffset x) else 0),
      frp_PartitionMaxBytes = (frp_PartitionMaxBytes x)\<rparr>"

interpretation FetchRequestPartition_codec: ncodec "writeFetchRequestPartition v" "readFetchRequestPartition v" "FetchRequestPartition_wire v" "FetchRequestPartition_ok v" for v
proof
  fix x :: FetchRequestPartition
  assume ok: "FetchRequestPartition_ok v x"
  show "reads (readFetchRequestPartition v) (writeFetchRequestPartition v x) (FetchRequestPartition_wire v x)"
    unfolding readFetchRequestPartition_def writeFetchRequestPartition_def FetchRequestPartition_wire_def
    by (rule reads_intros | use ok in \<open>simp add: FetchRequestPartition_ok_def\<close>)+
qed

lemmas FetchRequestPartition_reads [reads_intros] = FetchRequestPartition_codec.array_dec_norm FetchRequestPartition_codec.narray_dec_norm

record FetchRequestTopic =
  frt_Topic :: gostring
  frt_Partitions :: "FetchRequestPartition list"

definition writeFetchRequestTopic :: "int16 \<Rightarrow> FetchRequestTopic \<Rightarrow> bytes" where
  "writeFetchRequestTopic v x =
     WriteString (frt_Topic x)
     @ WriteArrayOf (writeFetchRequestPartition v) (frt_Partitions x)"

definition readFetchRequestTopic :: "int16 \<Rightarrow> FetchRequestTopic rd" where
  "readFetchRequestTopic v =
     rbind ReadString (\<lambda>topic.
     rbind (ReadArrayOf (readFetchRequestPartition v)) (\<lambda>partitions.
     rret \<lparr>frt_Topic = topic, frt_Partitions = partitions\<rparr>))"

definition FetchRequestTopic_ok :: "int16 \<Rightarrow> FetchRequestTopic \<Rightarrow> bool" where
  "FetchRequestTopic_ok v x \<longleftrightarrow> short_string (frt_Topic x)
     \<and> short_list (frt_Partitions x) \<and> (\<forall>y \<in> set (frt_Partitions x). FetchRequestPartition_ok v y)"

definition FetchRequestTopic_wire :: "int16 \<Rightarrow> FetchRequestTopic \<Rightarrow> FetchRequestTopic" where
  "FetchRequestTopic_wire v x =
     \<lparr>frt_Topic = (frt_Topic x),
      frt_Partitions = map (FetchRequestPartition_wire v) (frt_Partitions x)\<rparr>"

interpretation FetchRequestTopic_codec: ncodec "writeFetchRequestTopic v" "readFetchRequestTopic v" "FetchRequestTopic_wire v" "FetchRequestTopic_ok v" for v
proof
  fix x :: FetchRequestTopic
  assume ok: "FetchRequestTopic_ok v x"
  show "reads (readFetchRequestTopic v) (writeFetchRequestTopic v x) (FetchRequestTopic_wire v x)"
    unfolding readFetchRequestTopic_def writeFetchRequestTopic_def FetchRequestTopic_wire_def
    by (rule reads_intros | use ok in \<open>simp add: FetchRequestTopic_ok_def\<close>)+
qed

lemmas FetchRequestTopic_reads [reads_intros] = FetchRequestTopic_codec.array_dec_norm FetchRequestTopic_codec.narray_dec_norm

record FetchRequest =
  frq_Version :: int16
  frq_ReplicaID :: int32
  frq_MaxWaitMillis :: int32
  frq_MinBytes :: int32
  frq_MaxBytes :: int32
  frq_IsolationLevel :: int8
  frq_Topics :: "FetchRequestTopic list"

definition writeFetchRequest :: "int16 \<Rightarrow> FetchRequest \<Rightarrow> bytes" where
  "writeFetchRequest v x =
     WriteInt32 (frq_ReplicaID x)
     @ WriteInt32 (frq_MaxWaitMillis x)
     @ WriteInt32 (frq_MinBytes x)
     @ wwhen (3 \<le> sint v) (WriteInt32 (frq_MaxBytes x))
     @ wwhen (4 \<le> sint v) (WriteInt8 (frq_IsolationLevel x))
     @ WriteArrayOf (writeFetchRequestTopic v) (frq_Topics x)"

definition readFetchRequest :: "int16 \<Rightarrow> FetchRequest rd" where
  "readFetchRequest v =
     rbind ReadInt32 (\<lambda>replicaID.
     rbind ReadInt32 (\<lambda>maxWaitMillis.
     rbind ReadInt32 (\<lambda>minBytes.
     rbind (rwhen (3 \<le> sint v) ReadInt32 0x7fffffff) (\<lambda>maxBytes.
     rbind (rwhen (4 \<le> sint v) ReadInt8 0) (\<lambda>isolationLevel.
     rbind (ReadArrayOf (readFetchRequestTopic v)) (\<lambda>topics.
     rret \<lparr>frq_Version = v, frq_ReplicaID = replicaID, frq_MaxWaitMillis = maxWaitMillis, frq_MinBytes = minBytes, frq_MaxBytes = maxBytes, frq_IsolationLevel = isolationLevel, frq_Topics = topics\<rparr>))))))"

definition FetchRequest_ok :: "int16 \<Rightarrow> FetchRequest \<Rightarrow> bool" where
  "FetchRequest_ok v x \<longleftrightarrow> short_list (frq_Topics x) \<and> (\<forall>y \<in> set (frq_Topics x). FetchRequestTopic_ok v y)"

definition FetchRequest_wire :: "int16 \<Rightarrow> FetchRequest \<Rightarrow> FetchRequest" where
  "FetchRequest_wire v x =
     \<lparr>frq_Version = v,
      frq_ReplicaID = (frq_ReplicaID x),
      frq_MaxWaitMillis = (frq_MaxWaitMillis x),
      frq_MinBytes = (frq_MinBytes x),
      frq_MaxBytes = (if 3 \<le> sint v then (frq_MaxBytes x) else 0x7fffffff),
      frq_IsolationLevel = (if 4 \<le> sint v then (frq_IsolationLevel x) else 0),
      frq_Topics = map (FetchRequestTopic_wire v) (frq_Topics x)\<rparr>"

interpretation FetchRequest_codec: ncodec "writeFetchRequest v" "readFetchRequest v" "FetchRequest_wire v" "FetchRequest_ok v" for v
proof
  fix x :: FetchRequest
  assume ok: "FetchRequest_ok v x"
  show "reads (readFetchRequest v) (writeFetchRequest v x) (FetchRequest_wire v x)"
    unfolding readFetchRequest_def writeFetchRequest_def FetchRequest_wire_def
    by (rule reads_intros | use ok in \<open>simp add: FetchRequest_ok_def\<close>)+
qed

definition EncodeFetchRequest :: "FetchRequest \<Rightarrow> bytes" where
  "EncodeFetchRequest x = writeFetchRequest (frq_Version x) x"

definition DecodeFetchRequest :: "int16 \<Rightarrow> bytes \<Rightarrow> FetchRequest res" where
  "DecodeFetchRequest version body = run (readFetchRequest version) body"

record FetchResponsePartition =
  fsp_Partition :: int32
  fsp_ErrorCode :: int16
  fsp_HighWatermark :: int64
  fsp_LastStableOffset :: int64
  fsp_LogStartOffset :: int64
  fsp_Records :: "bytes option"

definition writeFetchResponsePartition :: "int16 \<Rightarrow> FetchResponsePartition \<Rightarrow> bytes" where
  "writeFetchResponsePartition v x =
     WriteInt32 (fsp_Partition x)
     @ WriteInt16 (fsp_ErrorCode x)
     @ WriteInt64 (fsp_HighWatermark x)
     @ wwhen (4 \<le> sint v) (WriteInt64 (fsp_LastStableOffset x))
     @ wwhen (5 \<le> sint v) (WriteInt64 (fsp_LogStartOffset x))
     @ wwhen (4 \<le> sint v) (WriteArrayLen (-1))
     @ wwhen (11 \<le> sint v) (WriteInt32 (-1))
     @ WriteBytesOrEmpty (fsp_Records x)"

definition readFetchResponsePartition :: "int16 \<Rightarrow> FetchResponsePartition rd" where
  "readFetchResponsePartition v =
     rbind ReadInt32 (\<lambda>partition.
     rbind ReadInt16 (\<lambda>errorCode.
     rbind ReadInt64 (\<lambda>highWatermark.
     rbind (rwhen (4 \<le> sint v) ReadInt64 0) (\<lambda>lastStableOffset.
     rbind (rwhen (5 \<le> sint v) ReadInt64 0) (\<lambda>logStartOffset.
     rbind (rwhen (4 \<le> sint v) ReadArrayLen 0) (\<lambda>_.
     rbind (rwhen (11 \<le> sint v) ReadInt32 0) (\<lambda>_.
     rbind ReadBytes (\<lambda>records.
     rret \<lparr>fsp_Partition = partition, fsp_ErrorCode = errorCode, fsp_HighWatermark = highWatermark, fsp_LastStableOffset = lastStableOffset, fsp_LogStartOffset = logStartOffset, fsp_Records = records\<rparr>))))))))"

definition FetchResponsePartition_ok :: "int16 \<Rightarrow> FetchResponsePartition \<Rightarrow> bool" where
  "FetchResponsePartition_ok v x \<longleftrightarrow> short_bytes (fsp_Records x)"

definition FetchResponsePartition_wire :: "int16 \<Rightarrow> FetchResponsePartition \<Rightarrow> FetchResponsePartition" where
  "FetchResponsePartition_wire v x =
     \<lparr>fsp_Partition = (fsp_Partition x),
      fsp_ErrorCode = (fsp_ErrorCode x),
      fsp_HighWatermark = (fsp_HighWatermark x),
      fsp_LastStableOffset = (if 4 \<le> sint v then (fsp_LastStableOffset x) else 0),
      fsp_LogStartOffset = (if 5 \<le> sint v then (fsp_LogStartOffset x) else 0),
      fsp_Records = Some (obytes (fsp_Records x))\<rparr>"

interpretation FetchResponsePartition_codec: ncodec "writeFetchResponsePartition v" "readFetchResponsePartition v" "FetchResponsePartition_wire v" "FetchResponsePartition_ok v" for v
proof
  fix x :: FetchResponsePartition
  assume ok: "FetchResponsePartition_ok v x"
  show "reads (readFetchResponsePartition v) (writeFetchResponsePartition v x) (FetchResponsePartition_wire v x)"
    unfolding readFetchResponsePartition_def writeFetchResponsePartition_def FetchResponsePartition_wire_def
    by (rule reads_intros | use ok in \<open>simp add: FetchResponsePartition_ok_def\<close>)+
qed

lemmas FetchResponsePartition_reads [reads_intros] = FetchResponsePartition_codec.array_dec_norm FetchResponsePartition_codec.narray_dec_norm

record FetchResponseTopic =
  fst_Topic :: gostring
  fst_Partitions :: "FetchResponsePartition list"

definition writeFetchResponseTopic :: "int16 \<Rightarrow> FetchResponseTopic \<Rightarrow> bytes" where
  "writeFetchResponseTopic v x =
     WriteString (fst_Topic x)
     @ WriteArrayOf (writeFetchResponsePartition v) (fst_Partitions x)"

definition readFetchResponseTopic :: "int16 \<Rightarrow> FetchResponseTopic rd" where
  "readFetchResponseTopic v =
     rbind ReadString (\<lambda>topic.
     rbind (ReadArrayOf (readFetchResponsePartition v)) (\<lambda>partitions.
     rret \<lparr>fst_Topic = topic, fst_Partitions = partitions\<rparr>))"

definition FetchResponseTopic_ok :: "int16 \<Rightarrow> FetchResponseTopic \<Rightarrow> bool" where
  "FetchResponseTopic_ok v x \<longleftrightarrow> short_string (fst_Topic x)
     \<and> short_list (fst_Partitions x) \<and> (\<forall>y \<in> set (fst_Partitions x). FetchResponsePartition_ok v y)"

definition FetchResponseTopic_wire :: "int16 \<Rightarrow> FetchResponseTopic \<Rightarrow> FetchResponseTopic" where
  "FetchResponseTopic_wire v x =
     \<lparr>fst_Topic = (fst_Topic x),
      fst_Partitions = map (FetchResponsePartition_wire v) (fst_Partitions x)\<rparr>"

interpretation FetchResponseTopic_codec: ncodec "writeFetchResponseTopic v" "readFetchResponseTopic v" "FetchResponseTopic_wire v" "FetchResponseTopic_ok v" for v
proof
  fix x :: FetchResponseTopic
  assume ok: "FetchResponseTopic_ok v x"
  show "reads (readFetchResponseTopic v) (writeFetchResponseTopic v x) (FetchResponseTopic_wire v x)"
    unfolding readFetchResponseTopic_def writeFetchResponseTopic_def FetchResponseTopic_wire_def
    by (rule reads_intros | use ok in \<open>simp add: FetchResponseTopic_ok_def\<close>)+
qed

lemmas FetchResponseTopic_reads [reads_intros] = FetchResponseTopic_codec.array_dec_norm FetchResponseTopic_codec.narray_dec_norm

record FetchResponse =
  frs_Version :: int16
  frs_ThrottleTimeMs :: int32
  frs_Topics :: "FetchResponseTopic list"

definition writeFetchResponse :: "int16 \<Rightarrow> FetchResponse \<Rightarrow> bytes" where
  "writeFetchResponse v x =
     wwhen (1 \<le> sint v) (WriteInt32 (frs_ThrottleTimeMs x))
     @ WriteArrayOf (writeFetchResponseTopic v) (frs_Topics x)"

definition readFetchResponse :: "int16 \<Rightarrow> FetchResponse rd" where
  "readFetchResponse v =
     rbind (rwhen (1 \<le> sint v) ReadInt32 0) (\<lambda>throttleTimeMs.
     rbind (ReadArrayOf (readFetchResponseTopic v)) (\<lambda>topics.
     rret \<lparr>frs_Version = v, frs_ThrottleTimeMs = throttleTimeMs, frs_Topics = topics\<rparr>))"

definition FetchResponse_ok :: "int16 \<Rightarrow> FetchResponse \<Rightarrow> bool" where
  "FetchResponse_ok v x \<longleftrightarrow> short_list (frs_Topics x) \<and> (\<forall>y \<in> set (frs_Topics x). FetchResponseTopic_ok v y)"

definition FetchResponse_wire :: "int16 \<Rightarrow> FetchResponse \<Rightarrow> FetchResponse" where
  "FetchResponse_wire v x =
     \<lparr>frs_Version = v,
      frs_ThrottleTimeMs = (if 1 \<le> sint v then (frs_ThrottleTimeMs x) else 0),
      frs_Topics = map (FetchResponseTopic_wire v) (frs_Topics x)\<rparr>"

interpretation FetchResponse_codec: ncodec "writeFetchResponse v" "readFetchResponse v" "FetchResponse_wire v" "FetchResponse_ok v" for v
proof
  fix x :: FetchResponse
  assume ok: "FetchResponse_ok v x"
  show "reads (readFetchResponse v) (writeFetchResponse v x) (FetchResponse_wire v x)"
    unfolding readFetchResponse_def writeFetchResponse_def FetchResponse_wire_def
    by (rule reads_intros | use ok in \<open>simp add: FetchResponse_ok_def\<close>)+
qed

definition EncodeFetchResponse :: "FetchResponse \<Rightarrow> bytes" where
  "EncodeFetchResponse x = writeFetchResponse (frs_Version x) x"

definition DecodeFetchResponse :: "int16 \<Rightarrow> bytes \<Rightarrow> FetchResponse res" where
  "DecodeFetchResponse version body = run (readFetchResponse version) body"

subsection \<open>ListOffsets\<close>

record ListOffsetsRequestPartition =
  lrp_Partition :: int32
  lrp_CurrentLeaderEpoch :: int32
  lrp_Timestamp :: int64
  lrp_MaxNumOffsets :: int32

definition writeListOffsetsRequestPartition :: "int16 \<Rightarrow> ListOffsetsRequestPartition \<Rightarrow> bytes" where
  "writeListOffsetsRequestPartition v x =
     WriteInt32 (lrp_Partition x)
     @ wwhen (4 \<le> sint v) (WriteInt32 (lrp_CurrentLeaderEpoch x))
     @ WriteInt64 (lrp_Timestamp x)
     @ wwhen (sint v = 0) (WriteInt32 (lrp_MaxNumOffsets x))"

definition readListOffsetsRequestPartition :: "int16 \<Rightarrow> ListOffsetsRequestPartition rd" where
  "readListOffsetsRequestPartition v =
     rbind ReadInt32 (\<lambda>partition.
     rbind (rwhen (4 \<le> sint v) ReadInt32 0) (\<lambda>currentLeaderEpoch.
     rbind ReadInt64 (\<lambda>timestamp.
     rbind (rwhen (sint v = 0) ReadInt32 0) (\<lambda>maxNumOffsets.
     rret \<lparr>lrp_Partition = partition, lrp_CurrentLeaderEpoch = currentLeaderEpoch, lrp_Timestamp = timestamp, lrp_MaxNumOffsets = maxNumOffsets\<rparr>))))"

definition ListOffsetsRequestPartition_ok :: "int16 \<Rightarrow> ListOffsetsRequestPartition \<Rightarrow> bool" where
  "ListOffsetsRequestPartition_ok v x \<longleftrightarrow> True"

definition ListOffsetsRequestPartition_wire :: "int16 \<Rightarrow> ListOffsetsRequestPartition \<Rightarrow> ListOffsetsRequestPartition" where
  "ListOffsetsRequestPartition_wire v x =
     \<lparr>lrp_Partition = (lrp_Partition x),
      lrp_CurrentLeaderEpoch = (if 4 \<le> sint v then (lrp_CurrentLeaderEpoch x) else 0),
      lrp_Timestamp = (lrp_Timestamp x),
      lrp_MaxNumOffsets = (if sint v = 0 then (lrp_MaxNumOffsets x) else 0)\<rparr>"

interpretation ListOffsetsRequestPartition_codec: ncodec "writeListOffsetsRequestPartition v" "readListOffsetsRequestPartition v" "ListOffsetsRequestPartition_wire v" "ListOffsetsRequestPartition_ok v" for v
proof
  fix x :: ListOffsetsRequestPartition
  assume ok: "ListOffsetsRequestPartition_ok v x"
  show "reads (readListOffsetsRequestPartition v) (writeListOffsetsRequestPartition v x) (ListOffsetsRequestPartition_wire v x)"
    unfolding readListOffsetsRequestPartition_def writeListOffsetsRequestPartition_def ListOffsetsRequestPartition_wire_def
    by (rule reads_intros | use ok in \<open>simp add: ListOffsetsRequestPartition_ok_def\<close>)+
qed

lemmas ListOffsetsRequestPartition_reads [reads_intros] = ListOffsetsRequestPartition_codec.array_dec_norm ListOffsetsRequestPartition_codec.narray_dec_norm

record ListOffsetsRequestTopic =
  lrt_Topic :: gostring
  lrt_Partitions :: "ListOffsetsRequestPartition list"

definition writeListOffsetsRequestTopic :: "int16 \<Rightarrow> ListOffsetsRequestTopic \<Rightarrow> bytes" where
  "writeListOffsetsRequestTopic v x =
     WriteString (lrt_Topic x)
     @ WriteArrayOf (writeListOffsetsRequestPartition v) (lrt_Partitions x)"

definition readListOffsetsRequestTopic :: "int16 \<Rightarrow> ListOffsetsRequestTopic rd" where
  "readListOffsetsRequestTopic v =
     rbind ReadString (\<lambda>topic.
     rbind (ReadArrayOf (readListOffsetsRequestPartition v)) (\<lambda>partitions.
     rret \<lparr>lrt_Topic = topic, lrt_Partitions = partitions\<rparr>))"

definition ListOffsetsRequestTopic_ok :: "int16 \<Rightarrow> ListOffsetsRequestTopic \<Rightarrow> bool" where
  "ListOffsetsRequestTopic_ok v x \<longleftrightarrow> short_string (lrt_Topic x)
     \<and> short_list (lrt_Partitions x) \<and> (\<forall>y \<in> set (lrt_Partitions x). ListOffsetsRequestPartition_ok v y)"

definition ListOffsetsRequestTopic_wire :: "int16 \<Rightarrow> ListOffsetsRequestTopic \<Rightarrow> ListOffsetsRequestTopic" where
  "ListOffsetsRequestTopic_wire v x =
     \<lparr>lrt_Topic = (lrt_Topic x),
      lrt_Partitions = map (ListOffsetsRequestPartition_wire v) (lrt_Partitions x)\<rparr>"

interpretation ListOffsetsRequestTopic_codec: ncodec "writeListOffsetsRequestTopic v" "readListOffsetsRequestTopic v" "ListOffsetsRequestTopic_wire v" "ListOffsetsRequestTopic_ok v" for v
proof
  fix x :: ListOffsetsRequestTopic
  assume ok: "ListOffsetsRequestTopic_ok v x"
  show "reads (readListOffsetsRequestTopic v) (writeListOffsetsRequestTopic v x) (ListOffsetsRequestTopic_wire v x)"
    unfolding readListOffsetsRequestTopic_def writeListOffsetsRequestTopic_def ListOffsetsRequestTopic_wire_def
    by (rule reads_intros | use ok in \<open>simp add: ListOffsetsRequestTopic_ok_def\<close>)+
qed

lemmas ListOffsetsRequestTopic_reads [reads_intros] = ListOffsetsRequestTopic_codec.array_dec_norm ListOffsetsRequestTopic_codec.narray_dec_norm

record ListOffsetsRequest =
  lrq_Version :: int16
  lrq_ReplicaID :: int32
  lrq_IsolationLevel :: int8
  lrq_Topics :: "ListOffsetsRequestTopic list"

definition writeListOffsetsRequest :: "int16 \<Rightarrow> ListOffsetsRequest \<Rightarrow> bytes" where
  "writeListOffsetsRequest v x =
     WriteInt32 (lrq_ReplicaID x)
     @ wwhen (2 \<le> sint v) (WriteInt8 (lrq_IsolationLevel x))
     @ WriteArrayOf (writeListOffsetsRequestTopic v) (lrq_Topics x)"

definition readListOffsetsRequest :: "int16 \<Rightarrow> ListOffsetsRequest rd" where
  "readListOffsetsRequest v =
     rbind ReadInt32 (\<lambda>replicaID.
     rbind (rwhen (2 \<le> sint v) ReadInt8 0) (\<lambda>isolationLevel.
     rbind (ReadArrayOf (readListOffsetsRequestTopic v)) (\<lambda>topics.
     rret \<lparr>lrq_Version = v, lrq_ReplicaID = replicaID, lrq_IsolationLevel = isolationLevel, lrq_Topics = topics\<rparr>)))"

definition ListOffsetsRequest_ok :: "int16 \<Rightarrow> ListOffsetsRequest \<Rightarrow> bool" where
  "ListOffsetsRequest_ok v x \<longleftrightarrow> short_list (lrq_Topics x) \<and> (\<forall>y \<in> set (lrq_Topics x). ListOffsetsRequestTopic_ok v y)"

definition ListOffsetsRequest_wire :: "int16 \<Rightarrow> ListOffsetsRequest \<Rightarrow> ListOffsetsRequest" where
  "ListOffsetsRequest_wire v x =
     \<lparr>lrq_Version = v,
      lrq_ReplicaID = (lrq_ReplicaID x),
      lrq_IsolationLevel = (if 2 \<le> sint v then (lrq_IsolationLevel x) else 0),
      lrq_Topics = map (ListOffsetsRequestTopic_wire v) (lrq_Topics x)\<rparr>"

interpretation ListOffsetsRequest_codec: ncodec "writeListOffsetsRequest v" "readListOffsetsRequest v" "ListOffsetsRequest_wire v" "ListOffsetsRequest_ok v" for v
proof
  fix x :: ListOffsetsRequest
  assume ok: "ListOffsetsRequest_ok v x"
  show "reads (readListOffsetsRequest v) (writeListOffsetsRequest v x) (ListOffsetsRequest_wire v x)"
    unfolding readListOffsetsRequest_def writeListOffsetsRequest_def ListOffsetsRequest_wire_def
    by (rule reads_intros | use ok in \<open>simp add: ListOffsetsRequest_ok_def\<close>)+
qed

definition EncodeListOffsetsRequest :: "ListOffsetsRequest \<Rightarrow> bytes" where
  "EncodeListOffsetsRequest x = writeListOffsetsRequest (lrq_Version x) x"

definition DecodeListOffsetsRequest :: "int16 \<Rightarrow> bytes \<Rightarrow> ListOffsetsRequest res" where
  "DecodeListOffsetsRequest version body = run (readListOffsetsRequest version) body"

text \<open>Version 0 writes only the old-style offsets and continues with the next partition.\<close>

record ListOffsetsResponsePartition =
  lsp_Partition :: int32
  lsp_ErrorCode :: int16
  lsp_OldStyleOffsets :: "int64 list option"
  lsp_Timestamp :: int64
  lsp_Offset :: int64
  lsp_LeaderEpoch :: int32

definition writeListOffsetsResponsePartition :: "int16 \<Rightarrow> ListOffsetsResponsePartition \<Rightarrow> bytes" where
  "writeListOffsetsResponsePartition v x =
     WriteInt32 (lsp_Partition x)
     @ WriteInt16 (lsp_ErrorCode x)
     @ wwhen (sint v = 0) (WriteNullableArrayOf WriteInt64 (lsp_OldStyleOffsets x))
     @ wwhen (1 \<le> sint v) (WriteInt64 (lsp_Timestamp x))
     @ wwhen (1 \<le> sint v) (WriteInt64 (lsp_Offset x))
     @ wwhen (4 \<le> sint v) (WriteInt32 (lsp_LeaderEpoch x))"

definition readListOffsetsResponsePartition :: "int16 \<Rightarrow> ListOffsetsResponsePartition rd" where
  "readListOffsetsResponsePartition v =
     rbind ReadInt32 (\<lambda>partition.
     rbind ReadInt16 (\<lambda>errorCode.
     rbind (rwhen (sint v = 0) (ReadNullableArrayOf ReadInt64) None) (\<lambda>oldStyleOffsets.
     rbind (rwhen (1 \<le> sint v) ReadInt64 0) (\<lambda>timestamp.
     rbind (rwhen (1 \<le> sint v) ReadInt64 0) (\<lambda>offset.
     rbind (rwhen (4 \<le> sint v) ReadInt32 0) (\<lambda>leaderEpoch.
     rret \<lparr>lsp_Partition = partition, lsp_ErrorCode = errorCode, lsp_OldStyleOffsets = oldStyleOffsets, lsp_Timestamp = timestamp, lsp_Offset = offset, lsp_LeaderEpoch = leaderEpoch\<rparr>))))))"

definition ListOffsetsResponsePartition_ok :: "int16 \<Rightarrow> ListOffsetsResponsePartition \<Rightarrow> bool" where
  "ListOffsetsResponsePartition_ok v x \<longleftrightarrow> (sint v = 0 \<longrightarrow> short_list (olist (lsp_OldStyleOffsets x)))"

definition ListOffsetsResponsePartition_wire :: "int16 \<Rightarrow> ListOffsetsResponsePartition \<Rightarrow> ListOffsetsResponsePartition" where
  "ListOffsetsResponsePartition_wire v x =
     \<lparr>lsp_Partition = (lsp_Partition x),
      lsp_ErrorCode = (lsp_ErrorCode x),
      lsp_OldStyleOffsets = (if sint v = 0 then (lsp_OldStyleOffsets x) else None),
      lsp_Timestamp = (if 1 \<le> sint v then (lsp_Timestamp x) else 0),
      lsp_Offset = (if 1 \<le> sint v then (lsp_Offset x) else 0),
      lsp_LeaderEpoch = (if 4 \<le> sint v then (lsp_LeaderEpoch x) else 0)\<rparr>"

interpretation ListOffsetsResponsePartition_codec: ncodec "writeListOffsetsResponsePartition v" "readListOffsetsResponsePartition v" "ListOffsetsResponsePartition_wire v" "ListOffsetsResponsePartition_ok v" for v
proof
  fix x :: ListOffsetsResponsePartition
  assume ok: "ListOffsetsResponsePartition_ok v x"
  show "reads (readListOffsetsResponsePartition v) (writeListOffsetsResponsePartition v x) (ListOffsetsResponsePartition_wire v x)"
    unfolding readListOffsetsResponsePartition_def writeListOffsetsResponsePartition_def ListOffsetsResponsePartition_wire_def
    by (rule reads_intros | use ok in \<open>simp add: ListOffsetsResponsePartition_ok_def\<close>)+
qed

lemmas ListOffsetsResponsePartition_reads [reads_intros] = ListOffsetsResponsePartition_codec.array_dec_norm ListOffsetsResponsePartition_codec.narray_dec_norm

record ListOffsetsResponseTopic =
  lst_Topic :: gostring
  lst_Partitions :: "ListOffsetsResponsePartition list"

definition writeListOffsetsResponseTopic :: "int16 \<Rightarrow> ListOffsetsResponseTopic \<Rightarrow> bytes" where
  "writeListOffsetsResponseTopic v x =
     WriteString (lst_Topic x)
     @ WriteArrayOf (writeListOffsetsResponsePartition v) (lst_Partitions x)"

definition readListOffsetsResponseTopic :: "int16 \<Rightarrow> ListOffsetsResponseTopic rd" where
  "readListOffsetsResponseTopic v =
     rbind ReadString (\<lambda>topic.
     rbind (ReadArrayOf (readListOffsetsResponsePartition v)) (\<lambda>partitions.
     rret \<lparr>lst_Topic = topic, lst_Partitions = partitions\<rparr>))"

definition ListOffsetsResponseTopic_ok :: "int16 \<Rightarrow> ListOffsetsResponseTopic \<Rightarrow> bool" where
  "ListOffsetsResponseTopic_ok v x \<longleftrightarrow> short_string (lst_Topic x)
     \<and> short_list (lst_Partitions x) \<and> (\<forall>y \<in> set (lst_Partitions x). ListOffsetsResponsePartition_ok v y)"

definition ListOffsetsResponseTopic_wire :: "int16 \<Rightarrow> ListOffsetsResponseTopic \<Rightarrow> ListOffsetsResponseTopic" where
  "ListOffsetsResponseTopic_wire v x =
     \<lparr>lst_Topic = (lst_Topic x),
      lst_Partitions = map (ListOffsetsResponsePartition_wire v) (lst_Partitions x)\<rparr>"

interpretation ListOffsetsResponseTopic_codec: ncodec "writeListOffsetsResponseTopic v" "readListOffsetsResponseTopic v" "ListOffsetsResponseTopic_wire v" "ListOffsetsResponseTopic_ok v" for v
proof
  fix x :: ListOffsetsResponseTopic
  assume ok: "ListOffsetsResponseTopic_ok v x"
  show "reads (readListOffsetsResponseTopic v) (writeListOffsetsResponseTopic v x) (ListOffsetsResponseTopic_wire v x)"
    unfolding readListOffsetsResponseTopic_def writeListOffsetsResponseTopic_def ListOffsetsResponseTopic_wire_def
    by (rule reads_intros | use ok in \<open>simp add: ListOffsetsResponseTopic_ok_def\<close>)+
qed

lemmas ListOffsetsResponseTopic_reads [reads_intros] = ListOffsetsResponseTopic_codec.array_dec_norm ListOffsetsResponseTopic_codec.narray_dec_norm

record ListOffsetsResponse =
  lrs_Version :: int16
  lrs_ThrottleTimeMs :: int32
  lrs_Topics :: "ListOffsetsResponseTopic list"

definition writeListOffsetsResponse :: "int16 \<Rightarrow> ListOffsetsResponse \<Rightarrow> bytes" where
  "writeListOffsetsResponse v x =
     wwhen (2 \<le> sint v) (WriteInt32 (lrs_ThrottleTimeMs x))
     @ WriteArrayOf (writeListOffsetsResponseTopic v) (lrs_Topics x)"

definition readListOffsetsResponse :: "int16 \<Rightarrow> ListOffsetsResponse rd" where
  "readListOffsetsResponse v =
     rbind (rwhen (2 \<le> sint v) ReadInt32 0) (\<lambda>throttleTimeMs.
     rbind (ReadArrayOf (readListOffsetsResponseTopic v)) (\<lambda>topics.
     rret \<lparr>lrs_Version = v, lrs_ThrottleTimeMs = throttleTimeMs, lrs_Topics = topics\<rparr>))"

definition ListOffsetsResponse_ok :: "int16 \<Rightarrow> ListOffsetsResponse \<Rightarrow> bool" where
  "ListOffsetsResponse_ok v x \<longleftrightarrow> short_list (lrs_Topics x) \<and> (\<forall>y \<in> set (lrs_Topics x). ListOffsetsResponseTopic_ok v y)"

definition ListOffsetsResponse_wire :: "int16 \<Rightarrow> ListOffsetsResponse \<Rightarrow> ListOffsetsResponse" where
  "ListOffsetsResponse_wire v x =
     \<lparr>lrs_Version = v,
      lrs_ThrottleTimeMs = (if 2 \<le> sint v then (lrs_ThrottleTimeMs x) else 0),
      lrs_Topics = map (ListOffsetsResponseTopic_wire v) (lrs_Topics x)\<rparr>"

interpretation ListOffsetsResponse_codec: ncodec "writeListOffsetsResponse v" "readListOffsetsResponse v" "ListOffsetsResponse_wire v" "ListOffsetsResponse_ok v" for v
proof
  fix x :: ListOffsetsResponse
  assume ok: "ListOffsetsResponse_ok v x"
  show "reads (readListOffsetsResponse v) (writeListOffsetsResponse v x) (ListOffsetsResponse_wire v x)"
    unfolding readListOffsetsResponse_def writeListOffsetsResponse_def ListOffsetsResponse_wire_def
    by (rule reads_intros | use ok in \<open>simp add: ListOffsetsResponse_ok_def\<close>)+
qed

definition EncodeListOffsetsResponse :: "ListOffsetsResponse \<Rightarrow> bytes" where
  "EncodeListOffsetsResponse x = writeListOffsetsResponse (lrs_Version x) x"

definition DecodeListOffsetsResponse :: "int16 \<Rightarrow> bytes \<Rightarrow> ListOffsetsResponse res" where
  "DecodeListOffsetsResponse version body = run (readListOffsetsResponse version) body"

subsection \<open>Metadata\<close>

record MetadataRequestTopic =
  mrt_Topic :: gostring

definition writeMetadataRequestTopic :: "MetadataRequestTopic \<Rightarrow> bytes" where
  "writeMetadataRequestTopic x =
     WriteString (mrt_Topic x)"

definition readMetadataRequestTopic :: "MetadataRequestTopic rd" where
  "readMetadataRequestTopic =
     rbind ReadString (\<lambda>topic.
     rret \<lparr>mrt_Topic = topic\<rparr>)"

definition MetadataRequestTopic_ok :: "MetadataRequestTopic \<Rightarrow> bool" where
  "MetadataRequestTopic_ok x \<longleftrightarrow> short_string (mrt_Topic x)"

interpretation MetadataRequestTopic_codec: codec writeMetadataRequestTopic readMetadataRequestTopic MetadataRequestTopic_ok
proof
  fix x :: MetadataRequestTopic
  assume ok: "MetadataRequestTopic_ok x"
  have "reads readMetadataRequestTopic (writeMetadataRequestTopic x) \<lparr>mrt_Topic = mrt_Topic x\<rparr>"
    unfolding readMetadataRequestTopic_def writeMetadataRequestTopic_def
    by (rule reads_intros | use ok in \<open>simp add: MetadataRequestTopic_ok_def\<close>)+
  then show "reads readMetadataRequestTopic (writeMetadataRequestTopic x) x" by (cases x) simp
qed

lemmas MetadataRequestTopic_reads [reads_intros] = MetadataRequestTopic_codec.array_dec_enc MetadataRequestTopic_codec.narray_dec_enc

record MetadataRequest =
  mrq_Version :: int16
  mrq_Topics :: "MetadataRequestTopic list option"
  mrq_AllowAutoTopicCreation :: bool
  mrq_IncludeClusterAuthorizedOperations :: bool
  mrq_IncludeTopicAuthorizedOperations :: bool

definition writeMetadataRequest :: "int16 \<Rightarrow> MetadataRequest \<Rightarrow> bytes" where
  "writeMetadataRequest v x =
     WriteNullableArrayOf writeMetadataRequestTopic (mrq_Topics x)
     @ wwhen (4 \<le> sint v) (WriteBool (mrq_AllowAutoTopicCreation x))
     @ wwhen (8 \<le> sint v) (WriteBool (mrq_IncludeClusterAuthorizedOperations x))
     @ wwhen (8 \<le> sint v) (WriteBool (mrq_IncludeTopicAuthorizedOperations x))"

definition readMetadataRequest :: "int16 \<Rightarrow> MetadataRequest rd" where
  "readMetadataRequest v =
     rbind (ReadNullableArrayOf readMetadataRequestTopic) (\<lambda>topics.
     rbind (rwhen (4 \<le> sint v) ReadBool False) (\<lambda>allowAutoTopicCreation.
     rbind (rwhen (8 \<le> sint v) ReadBool False) (\<lambda>includeClusterAuthorizedOperations.
     rbind (rwhen (8 \<le> sint v) ReadBool False) (\<lambda>includeTopicAuthorizedOperations.
     rret \<lparr>mrq_Version = v, mrq_Topics = topics, mrq_AllowAutoTopicCreation = allowAutoTopicCreation, mrq_IncludeClusterAuthorizedOperations = includeClusterAuthorizedOperations, mrq_IncludeTopicAuthorizedOperations = includeTopicAuthorizedOperations\<rparr>))))"

definition MetadataRequest_ok :: "int16 \<Rightarrow> MetadataRequest \<Rightarrow> bool" where
  "MetadataRequest_ok v x \<longleftrightarrow> short_list (olist (mrq_Topics x)) \<and> (\<forall>y \<in> set (olist (mrq_Topics x)). MetadataRequestTopic_ok y)"

definition MetadataRequest_wire :: "int16 \<Rightarrow> MetadataRequest \<Rightarrow> MetadataRequest" where
  "MetadataRequest_wire v x =
     \<lparr>mrq_Version = v,
      mrq_Topics = (mrq_Topics x),
      mrq_AllowAutoTopicCreation = (if 4 \<le> sint v then (mrq_AllowAutoTopicCreation x) else False),
      mrq_IncludeClusterAuthorizedOperations = (if 8 \<le> sint v then (mrq_IncludeClusterAuthorizedOperations x) else False),
      mrq_IncludeTopicAuthorizedOperations = (if 8 \<le> sint v then (mrq_IncludeTopicAuthorizedOperations x) else False)\<rparr>"

interpretation MetadataRequest_codec: ncodec "writeMetadataRequest v" "readMetadataRequest v" "MetadataRequest_wire v" "MetadataRequest_ok v" for v
proof
  fix x :: MetadataRequest
  assume ok: "MetadataRequest_ok v x"
  show "reads (readMetadataRequest v) (writeMetadataRequest v x) (MetadataRequest_wire v x)"
    unfolding readMetadataRequest_def writeMetadataRequest_def MetadataRequest_wire_def
    by (rule reads_intros | use ok in \<open>simp add: MetadataRequest_ok_def\<close>)+
qed

definition EncodeMetadataRequest :: "MetadataRequest \<Rightarrow> bytes" where
  "EncodeMetadataRequest x = writeMetadataRequest (mrq_Version x) x"

definition DecodeMetadataRequest :: "int16 \<Rightarrow> bytes \<Rightarrow> MetadataRequest res" where
  "DecodeMetadataRequest version body = run (readMetadataRequest version) body"

record MetadataBroker =
  mb_NodeID :: int32
  mb_Host :: gostring
  mb_Port :: int32
  mb_Rack :: "gostring option"

definition writeMetadataBroker :: "int16 \<Rightarrow> MetadataBroker \<Rightarrow> bytes" where
  "writeMetadataBroker v x =
     WriteInt32 (mb_NodeID x)
     @ WriteString (mb_Host x)
     @ WriteInt32 (mb_Port x)
     @ wwhen (1 \<le> sint v) (WriteNullableString (mb_Rack x))"

definition readMetadataBroker :: "int16 \<Rightarrow> MetadataBroker rd" where
  "readMetadataBroker v =
     rbind ReadInt32 (\<lambda>nodeID.
     rbind ReadString (\<lambda>host.
     rbind ReadInt32 (\<lambda>port.
     rbind (rwhen (1 \<le> sint v) ReadNullableString None) (\<lambda>rack.
     rret \<lparr>mb_NodeID = nodeID, mb_Host = host, mb_Port = port, mb_Rack = rack\<rparr>))))"

definition MetadataBroker_ok :: "int16 \<Rightarrow> MetadataBroker \<Rightarrow> bool" where
  "MetadataBroker_ok v x \<longleftrightarrow> short_string (mb_Host x)
     \<and> (1 \<le> sint v \<longrightarrow> short_nstring (mb_Rack x))"

definition MetadataBroker_wire :: "int16 \<Rightarrow> MetadataBroker \<Rightarrow> MetadataBroker" where
  "MetadataBroker_wire v x =
     \<lparr>mb_NodeID = (mb_NodeID x),
      mb_Host = (mb_Host x),
      mb_Port = (mb_Port x),
      mb_Rack = (if 1 \<le> sint v then (mb_Rack x) else None)\<rparr>"

interpretation MetadataBroker_codec: ncodec "writeMetadataBroker v" "readMetadataBroker v" "MetadataBroker_wire v" "MetadataBroker_ok v" for v
proof
  fix x :: MetadataBroker
  assume ok: "MetadataBroker_ok v x"
  show "reads (readMetadataBroker v) (writeMetadataBroker v x) (MetadataBroker_wire v x)"
    unfolding readMetadataBroker_def writeMetadataBroker_def MetadataBroker_wire_def
    by (rule reads_intros | use ok in \<open>simp add: MetadataBroker_ok_def\<close>)+
qed

lemmas MetadataBroker_reads [reads_intros] = MetadataBroker_codec.array_dec_norm MetadataBroker_codec.narray_dec_norm

record MetadataPartition =
  mp_ErrorCode :: int16
  mp_Partition :: int32
  mp_Leader :: int32
  mp_LeaderEpoch :: int32
  mp_Replicas :: "int32 list option"
  mp_ISR :: "int32 list option"
  mp_OfflineReplicas :: "int32 list option"

definition writeMetadataPartition :: "int16 \<Rightarrow> MetadataPartition \<Rightarrow> bytes" where
  "writeMetadataPartition v x =
     WriteInt16 (mp_ErrorCode x)
     @ WriteInt32 (mp_Partition x)
     @ WriteInt32 (mp_Leader x)
     @ wwhen (7 \<le> sint v) (WriteInt32 (mp_LeaderEpoch x))
     @ WriteNullableArrayOf WriteInt32 (mp_Replicas x)
     @ WriteNullableArrayOf WriteInt32 (mp_ISR x)
     @ wwhen (5 \<le> sint v) (WriteNullableArrayOf WriteInt32 (mp_OfflineReplicas x))"

definition readMetadataPartition :: "int16 \<Rightarrow> MetadataPartition rd" where
  "readMetadataPartition v =
     rbind ReadInt16 (\<lambda>errorCode.
     rbind ReadInt32 (\<lambda>partition.
     rbind ReadInt32 (\<lambda>leader.
     rbind (rwhen (7 \<le> sint v) ReadInt32 0) (\<lambda>leaderEpoch.
     rbind (ReadNullableArrayOf ReadInt32) (\<lambda>replicas.
     rbind (ReadNullableArrayOf ReadInt32) (\<lambda>isr.
     rbind (rwhen (5 \<le> sint v) (ReadNullableArrayOf ReadInt32) None) (\<lambda>offlineReplicas.
     rret \<lparr>mp_ErrorCode = errorCode, mp_Partition = partition, mp_Leader = leader, mp_LeaderEpoch = leaderEpoch, mp_Replicas = replicas, mp_ISR = isr, mp_OfflineReplicas = offlineReplicas\<rparr>)))))))"

definition MetadataPartition_ok :: "int16 \<Rightarrow> MetadataPartition \<Rightarrow> bool" where
  "MetadataPartition_ok v x \<longleftrightarrow> short_list (olist (mp_Replicas x))
     \<and> short_list (olist (mp_ISR x))
     \<and> (5 \<le> sint v \<longrightarrow> short_list (olist (mp_OfflineReplicas x)))"

definition MetadataPartition_wire :: "int16 \<Rightarrow> MetadataPartition \<Rightarrow> MetadataPartition" where
  "MetadataPartition_wire v x =
     \<lparr>mp_ErrorCode = (mp_ErrorCode x),
      mp_Partition = (mp_Partition x),
      mp_Leader = (mp_Leader x),
      mp_LeaderEpoch = (if 7 \<le> sint v then (mp_LeaderEpoch x) else 0),
      mp_Replicas = (mp_Replicas x),
      mp_ISR = (mp_ISR x),
      mp_OfflineReplicas = (if 5 \<le> sint v then (mp_OfflineReplicas x) else None)\<rparr>"

interpretation MetadataPartition_codec: ncodec "writeMetadataPartition v" "readMetadataPartition v" "MetadataPartition_wire v" "MetadataPartition_ok v" for v
proof
  fix x :: MetadataPartition
  assume ok: "MetadataPartition_ok v x"
  show "reads (readMetadataPartition v) (writeMetadataPartition v x) (MetadataPartition_wire v x)"
    unfolding readMetadataPartition_def writeMetadataPartition_def MetadataPartition_wire_def
    by (rule reads_intros | use ok in \<open>simp add: MetadataPartition_ok_def\<close>)+
qed

lemmas MetadataPartition_reads [reads_intros] = MetadataPartition_codec.array_dec_norm MetadataPartition_codec.narray_dec_norm

record MetadataTopic =
  mt_ErrorCode :: int16
  mt_Name :: gostring
  mt_IsInternal :: bool
  mt_Partitions :: "MetadataPartition list"
  mt_AuthorizedOperations :: int32

definition writeMetadataTopic :: "int16 \<Rightarrow> MetadataTopic \<Rightarrow> bytes" where
  "writeMetadataTopic v x =
     WriteInt16 (mt_ErrorCode x)
     @ WriteString (mt_Name x)
     @ wwhen (1 \<le> sint v) (WriteBool (mt_IsInternal x))
     @ WriteArrayOf (writeMetadataPartition v) (mt_Partitions x)
     @ wwhen (8 \<le> sint v) (WriteInt32 (mt_AuthorizedOperations x))"

definition readMetadataTopic :: "int16 \<Rightarrow> MetadataTopic rd" where
  "readMetadataTopic v =
     rbind ReadInt16 (\<lambda>errorCode.
     rbind ReadString (\<lambda>name.
     rbind (rwhen (1 \<le> sint v) ReadBool False) (\<lambda>isInternal.
     rbind (ReadArrayOf (readMetadataPartition v)) (\<lambda>partitions.
     rbind (rwhen (8 \<le> sint v) ReadInt32 0) (\<lambda>authorizedOperations.
     rret \<lparr>mt_ErrorCode = errorCode, mt_Name = name, mt_IsInternal = isInternal, mt_Partitions = partitions, mt_AuthorizedOperations = authorizedOperations\<rparr>)))))"

definition MetadataTopic_ok :: "int16 \<Rightarrow> MetadataTopic \<Rightarrow> bool" where
  "MetadataTopic_ok v x \<longleftrightarrow> short_string (mt_Name x)
     \<and> short_list (mt_Partitions x) \<and> (\<forall>y \<in> set (mt_Partitions x). MetadataPartition_ok v y)"

definition MetadataTopic_wire :: "int16 \<Rightarrow> MetadataTopic \<Rightarrow> MetadataTopic" where
  "MetadataTopic_wire v x =
     \<lparr>mt_ErrorCode = (mt_ErrorCode x),
      mt_Name = (mt_Name x),
      mt_IsInternal = (if 1 \<le> sint v then (mt_IsInternal x) else False),
      mt_Partitions = map (MetadataPartition_wire v) (mt_Partitions x),
      mt_AuthorizedOperations = (if 8 \<le> sint v then (mt_AuthorizedOperations x) else 0)\<rparr>"

interpretation MetadataTopic_codec: ncodec "writeMetadataTopic v" "readMetadataTopic v" "MetadataTopic_wire v" "MetadataTopic_ok v" for v
proof
  fix x :: MetadataTopic
  assume ok: "MetadataTopic_ok v x"
  show "reads (readMetadataTopic v) (writeMetadataTopic v x) (MetadataTopic_wire v x)"
    unfolding readMetadataTopic_def writeMetadataTopic_def MetadataTopic_wire_def
    by (rule reads_intros | use ok in \<open>simp add: MetadataTopic_ok_def\<close>)+
qed

lemmas MetadataTopic_reads [reads_intros] = MetadataTopic_codec.array_dec_norm MetadataTopic_codec.narray_dec_norm

record MetadataResponse =
  mrs_Version :: int16
  mrs_ThrottleTimeMs :: int32
  mrs_Brokers :: "MetadataBroker list"
  mrs_ClusterID :: "gostring option"
  mrs_ControllerID :: int32
  mrs_Topics :: "MetadataTopic list"
  mrs_ClusterAuthorizedOperations :: int32

definition writeMetadataResponse :: "int16 \<Rightarrow> MetadataResponse \<Rightarrow> bytes" where
  "writeMetadataResponse v x =
     wwhen (3 \<le> sint v) (WriteInt32 (mrs_ThrottleTimeMs x))
     @ WriteArrayOf (writeMetadataBroker v) (mrs_Brokers x)
     @ wwhen (2 \<le> sint v) (WriteNullableString (mrs_ClusterID x))
     @ wwhen (1 \<le> sint v) (WriteInt32 (mrs_ControllerID x))
     @ WriteArrayOf (writeMetadataTopic v) (mrs_Topics x)
     @ wwhen (8 \<le> sint v \<and> sint v \<le> 10) (WriteInt32 (mrs_ClusterAuthorizedOperations x))"

definition readMetadataResponse :: "int16 \<Rightarrow> MetadataResponse rd" where
  "readMetadataResponse v =
     rbind (rwhen (3 \<le> sint v) ReadInt32 0) (\<lambda>throttleTimeMs.
     rbind (ReadArrayOf (readMetadataBroker v)) (\<lambda>brokers.
     rbind (rwhen (2 \<le> sint v) ReadNullableString None) (\<lambda>clusterID.
     rbind (rwhen (1 \<le> sint v) ReadInt32 0) (\<lambda>controllerID.
     rbind (ReadArrayOf (readMetadataTopic v)) (\<lambda>topics.
     rbind (rwhen (8 \<le> sint v \<and> sint v \<le> 10) ReadInt32 0) (\<lambda>clusterAuthorizedOperations.
     rret \<lparr>mrs_Version = v, mrs_ThrottleTimeMs = throttleTimeMs, mrs_Brokers = brokers, mrs_ClusterID = clusterID, mrs_ControllerID = controllerID, mrs_Topics = topics, mrs_ClusterAuthorizedOperations = clusterAuthorizedOperations\<rparr>))))))"

definition MetadataResponse_ok :: "int16 \<Rightarrow> MetadataResponse \<Rightarrow> bool" where
  "MetadataResponse_ok v x \<longleftrightarrow> short_list (mrs_Brokers x) \<and> (\<forall>y \<in> set (mrs_Brokers x). MetadataBroker_ok v y)
     \<and> (2 \<le> sint v \<longrightarrow> short_nstring (mrs_ClusterID x))
     \<and> short_list (mrs_Topics x) \<and> (\<forall>y \<in> set (mrs_Topics x). MetadataTopic_ok v y)"

definition MetadataResponse_wire :: "int16 \<Rightarrow> MetadataResponse \<Rightarrow> MetadataResponse" where
  "MetadataResponse_wire v x =
     \<lparr>mrs_Version = v,
      mrs_ThrottleTimeMs = (if 3 \<le> sint v then (mrs_ThrottleTimeMs x) else 0),
      mrs_Brokers = map (MetadataBroker_wire v) (mrs_Brokers x),
      mrs_ClusterID = (if 2 \<le> sint v then (mrs_ClusterID x) else None),
      mrs_ControllerID = (if 1 \<le> sint v then (mrs_ControllerID x) else 0),
      mrs_Topics = map (MetadataTopic_wire v) (mrs_Topics x),
      mrs_ClusterAuthorizedOperations = (if 8 \<le> sint v \<and> sint v \<le> 10 then (mrs_ClusterAuthorizedOperations x) else 0)\<rparr>"

interpretation MetadataResponse_codec: ncodec "writeMetadataResponse v" "readMetadataResponse v" "MetadataResponse_wire v" "MetadataResponse_ok v" for v
proof
  fix x :: MetadataResponse
  assume ok: "MetadataResponse_ok v x"
  show "reads (readMetadataResponse v) (writeMetadataResponse v x) (MetadataResponse_wire v x)"
    unfolding readMetadataResponse_def writeMetadataResponse_def MetadataResponse_wire_def
    by (rule reads_intros | use ok in \<open>simp add: MetadataResponse_ok_def\<close>)+
qed

definition EncodeMetadataResponse :: "MetadataResponse \<Rightarrow> bytes" where
  "EncodeMetadataResponse x = writeMetadataResponse (mrs_Version x) x"

definition DecodeMetadataResponse :: "int16 \<Rightarrow> bytes \<Rightarrow> MetadataResponse res" where
  "DecodeMetadataResponse version body = run (readMetadataResponse version) body"

subsection \<open>What a client encodes is what the broker decodes\<close>

text \<open>
  C28.  The broker decodes a Produce request to exactly the request the client encoded,
  and the client decodes the response to what its version carries of it, at every version.
\<close>

theorem produce_roundtrip:
  assumes "ProduceRequest_ok (prq_Version req) req" and "length (EncodeProduceRequest req) < 2 ^ 63"
    and "ProduceResponse_ok (prs_Version resp) resp" and "length (EncodeProduceResponse resp) < 2 ^ 63"
  shows "DecodeProduceRequest (prq_Version req) (EncodeProduceRequest req) = Inr req
    \<and> DecodeProduceResponse (prs_Version resp) (EncodeProduceResponse resp)
        = Inr (ProduceResponse_wire (prs_Version resp) resp)"
proof -
  have "ProduceRequest_wire (prq_Version req) req = req"
    by (cases req) (simp add: ProduceRequest_wire_def)
  with assms show ?thesis
    using ProduceRequest_codec.decode_encode [of "prq_Version req" req "[]"]
      ProduceResponse_codec.decode_encode [of "prs_Version resp" resp "[]"]
    by (simp add: EncodeProduceRequest_def DecodeProduceRequest_def EncodeProduceResponse_def
        DecodeProduceResponse_def)
qed

definition sample_produce :: ProduceRequest where
  "sample_produce = \<lparr>prq_Version = 3, prq_Acks = -1, prq_Timeout = 1000,
     prq_Topics = [\<lparr>prt_Topic = [116], prt_Partitions = [\<lparr>prp_Partition = 0, prp_Records = Some [1, 2]\<rparr>]\<rparr>]\<rparr>"

definition sample_produced :: ProduceResponse where
  "sample_produced = \<lparr>prs_Version = 1,
     prs_Topics = [\<lparr>pst_Topic = [116],
        pst_Partitions = [\<lparr>psp_Partition = 0, psp_ErrorCode = 0, psp_BaseOffset = 7, psp_LogAppendTime = 5\<rparr>]\<rparr>],
     prs_ThrottleTimeMs = 3\<rparr>"

theorem produce_roundtrip_witness:
  "DecodeProduceRequest 3 (EncodeProduceRequest sample_produce) = Inr sample_produce
    \<and> (\<exists>r. DecodeProduceResponse 1 (EncodeProduceResponse sample_produced) = Inr r
         \<and> map psp_LogAppendTime (pst_Partitions (prs_Topics r ! 0)) = [0])"
proof -
  have "ProduceRequest_ok (prq_Version sample_produce) sample_produce"
    and "length (EncodeProduceRequest sample_produce) < 2 ^ 63"
    and "ProduceResponse_ok (prs_Version sample_produced) sample_produced"
    and "length (EncodeProduceResponse sample_produced) < 2 ^ 63"
    by (simp_all add: sample_produce_def sample_produced_def ProduceRequest_ok_def ProduceRequestTopic_ok_def
        ProduceRequestPartition_ok_def ProduceResponse_ok_def ProduceResponseTopic_ok_def
        ProduceResponsePartition_ok_def wire_shorts EncodeProduceRequest_def EncodeProduceResponse_def
        writeProduceRequest_def writeProduceRequestTopic_def writeProduceRequestPartition_def
        writeProduceResponse_def writeProduceResponseTopic_def writeProduceResponsePartition_def wire_sizes)
  from produce_roundtrip [OF this] show ?thesis
    by (simp add: sample_produce_def sample_produced_def ProduceResponse_wire_def ProduceResponseTopic_wire_def
        ProduceResponsePartition_wire_def)
qed

text \<open>
  C29.  A Fetch request reaches the broker as the client built it except for the fields its
  version does not have (the byte limit is then unbounded), and the records of a Fetch
  response reach the client byte for byte, no records and empty records both as empty.
\<close>

theorem fetch_roundtrip:
  assumes "FetchRequest_ok (frq_Version req) req" and "length (EncodeFetchRequest req) < 2 ^ 63"
    and "FetchResponse_ok (frs_Version resp) resp" and "length (EncodeFetchResponse resp) < 2 ^ 63"
  shows "DecodeFetchRequest (frq_Version req) (EncodeFetchRequest req)
        = Inr (FetchRequest_wire (frq_Version req) req)
    \<and> DecodeFetchResponse (frs_Version resp) (EncodeFetchResponse resp)
        = Inr (FetchResponse_wire (frs_Version resp) resp)"
  using assms FetchRequest_codec.decode_encode [of "frq_Version req" req "[]"]
    FetchResponse_codec.decode_encode [of "frs_Version resp" resp "[]"]
  by (simp add: EncodeFetchRequest_def DecodeFetchRequest_def EncodeFetchResponse_def DecodeFetchResponse_def)

definition sample_fetch :: FetchRequest where
  "sample_fetch = \<lparr>frq_Version = 5, frq_ReplicaID = -1, frq_MaxWaitMillis = 500, frq_MinBytes = 1,
     frq_MaxBytes = 1000000, frq_IsolationLevel = 0,
     frq_Topics = [\<lparr>frt_Topic = [116], frt_Partitions = [\<lparr>frp_Partition = 2, frp_FetchOffset = 40,
        frp_LogStartOffset = 0, frp_PartitionMaxBytes = 1024\<rparr>]\<rparr>]\<rparr>"

definition sample_fetched :: FetchResponse where
  "sample_fetched = \<lparr>frs_Version = 4, frs_ThrottleTimeMs = 0,
     frs_Topics = [\<lparr>fst_Topic = [116], fst_Partitions = [\<lparr>fsp_Partition = 2, fsp_ErrorCode = 0,
        fsp_HighWatermark = 42, fsp_LastStableOffset = 42, fsp_LogStartOffset = 9, fsp_Records = Some [1, 2, 3]\<rparr>]\<rparr>]\<rparr>"

theorem fetch_roundtrip_witness:
  "DecodeFetchRequest 5 (EncodeFetchRequest sample_fetch) = Inr sample_fetch
    \<and> (\<exists>r. DecodeFetchResponse 4 (EncodeFetchResponse sample_fetched) = Inr r
         \<and> map fsp_Records (fst_Partitions (frs_Topics r ! 0)) = [Some [1, 2, 3]])"
proof -
  have "FetchRequest_ok (frq_Version sample_fetch) sample_fetch"
    and "length (EncodeFetchRequest sample_fetch) < 2 ^ 63"
    and "FetchResponse_ok (frs_Version sample_fetched) sample_fetched"
    and "length (EncodeFetchResponse sample_fetched) < 2 ^ 63"
    by (simp_all add: sample_fetch_def sample_fetched_def FetchRequest_ok_def FetchRequestTopic_ok_def
        FetchRequestPartition_ok_def FetchResponse_ok_def FetchResponseTopic_ok_def
        FetchResponsePartition_ok_def wire_shorts EncodeFetchRequest_def EncodeFetchResponse_def
        writeFetchRequest_def writeFetchRequestTopic_def writeFetchRequestPartition_def
        writeFetchResponse_def writeFetchResponseTopic_def writeFetchResponsePartition_def wire_sizes)
  from fetch_roundtrip [OF this] show ?thesis
    by (simp add: sample_fetch_def sample_fetched_def FetchResponse_wire_def FetchResponseTopic_wire_def
        FetchResponsePartition_wire_def FetchRequest_wire_def FetchRequestTopic_wire_def
        FetchRequestPartition_wire_def obytes_def)
qed

text \<open>
  ListOffsets and Metadata requests and responses survive encoding and decoding at
  every version, up to the fields that version does not carry.
\<close>

theorem lookup_roundtrip:
  assumes "ListOffsetsRequest_ok (lrq_Version lreq) lreq" and "length (EncodeListOffsetsRequest lreq) < 2 ^ 63"
    and "ListOffsetsResponse_ok (lrs_Version lres) lres" and "length (EncodeListOffsetsResponse lres) < 2 ^ 63"
    and "MetadataRequest_ok (mrq_Version mreq) mreq" and "length (EncodeMetadataRequest mreq) < 2 ^ 63"
    and "MetadataResponse_ok (mrs_Version mres) mres" and "length (EncodeMetadataResponse mres) < 2 ^ 63"
  shows "DecodeListOffsetsRequest (lrq_Version lreq) (EncodeListOffsetsRequest lreq)
        = Inr (ListOffsetsRequest_wire (lrq_Version lreq) lreq)
    \<and> DecodeListOffsetsResponse (lrs_Version lres) (EncodeListOffsetsResponse lres)
        = Inr (ListOffsetsResponse_wire (lrs_Version lres) lres)
    \<and> DecodeMetadataRequest (mrq_Version mreq) (EncodeMetadataRequest mreq)
        = Inr (MetadataRequest_wire (mrq_Version mreq) mreq)
    \<and> DecodeMetadataResponse (mrs_Version mres) (EncodeMetadataResponse mres)
        = Inr (MetadataResponse_wire (mrs_Version mres) mres)"
  using assms ListOffsetsRequest_codec.decode_encode [of "lrq_Version lreq" lreq "[]"]
    ListOffsetsResponse_codec.decode_encode [of "lrs_Version lres" lres "[]"]
    MetadataRequest_codec.decode_encode [of "mrq_Version mreq" mreq "[]"]
    MetadataResponse_codec.decode_encode [of "mrs_Version mres" mres "[]"]
  by (simp add: EncodeListOffsetsRequest_def DecodeListOffsetsRequest_def EncodeListOffsetsResponse_def
      DecodeListOffsetsResponse_def EncodeMetadataRequest_def DecodeMetadataRequest_def
      EncodeMetadataResponse_def DecodeMetadataResponse_def)

definition sample_list :: ListOffsetsRequest where
  "sample_list = \<lparr>lrq_Version = 0, lrq_ReplicaID = -1, lrq_IsolationLevel = 0,
     lrq_Topics = [\<lparr>lrt_Topic = [116], lrt_Partitions = [\<lparr>lrp_Partition = 0, lrp_CurrentLeaderEpoch = 0,
        lrp_Timestamp = -1, lrp_MaxNumOffsets = 1\<rparr>]\<rparr>]\<rparr>"

definition sample_listed :: ListOffsetsResponse where
  "sample_listed = \<lparr>lrs_Version = 0, lrs_ThrottleTimeMs = 0,
     lrs_Topics = [\<lparr>lst_Topic = [116], lst_Partitions = [\<lparr>lsp_Partition = 0, lsp_ErrorCode = 0,
        lsp_OldStyleOffsets = Some [12], lsp_Timestamp = 0, lsp_Offset = 0, lsp_LeaderEpoch = 0\<rparr>]\<rparr>]\<rparr>"

definition sample_meta :: MetadataRequest where
  "sample_meta = \<lparr>mrq_Version = 1, mrq_Topics = None, mrq_AllowAutoTopicCreation = False,
     mrq_IncludeClusterAuthorizedOperations = False, mrq_IncludeTopicAuthorizedOperations = False\<rparr>"

definition sample_metadata :: MetadataResponse where
  "sample_metadata = \<lparr>mrs_Version = 8, mrs_ThrottleTimeMs = 0,
     mrs_Brokers = [\<lparr>mb_NodeID = 1, mb_Host = [104], mb_Port = 9092, mb_Rack = None\<rparr>],
     mrs_ClusterID = Some [99], mrs_ControllerID = 1,
     mrs_Topics = [\<lparr>mt_ErrorCode = 0, mt_Name = [116], mt_IsInternal = False,
        mt_Partitions = [\<lparr>mp_ErrorCode = 0, mp_Partition = 0, mp_Leader = 1, mp_LeaderEpoch = 0,
           mp_Replicas = Some [1], mp_ISR = Some [1], mp_OfflineReplicas = Some []\<rparr>],
        mt_AuthorizedOperations = 0\<rparr>],
     mrs_ClusterAuthorizedOperations = 0\<rparr>"

theorem lookup_roundtrip_witness:
  "DecodeListOffsetsRequest 0 (EncodeListOffsetsRequest sample_list) = Inr sample_list
    \<and> DecodeListOffsetsResponse 0 (EncodeListOffsetsResponse sample_listed) = Inr sample_listed
    \<and> DecodeMetadataRequest 1 (EncodeMetadataRequest sample_meta) = Inr sample_meta
    \<and> DecodeMetadataResponse 8 (EncodeMetadataResponse sample_metadata) = Inr sample_metadata"
proof -
  have "ListOffsetsRequest_ok (lrq_Version sample_list) sample_list"
    and "length (EncodeListOffsetsRequest sample_list) < 2 ^ 63"
    and "ListOffsetsResponse_ok (lrs_Version sample_listed) sample_listed"
    and "length (EncodeListOffsetsResponse sample_listed) < 2 ^ 63"
    by (simp_all add: sample_list_def sample_listed_def ListOffsetsRequest_ok_def ListOffsetsRequestTopic_ok_def
        ListOffsetsRequestPartition_ok_def ListOffsetsResponse_ok_def ListOffsetsResponseTopic_ok_def
        ListOffsetsResponsePartition_ok_def wire_shorts EncodeListOffsetsRequest_def
        EncodeListOffsetsResponse_def writeListOffsetsRequest_def writeListOffsetsRequestTopic_def
        writeListOffsetsRequestPartition_def writeListOffsetsResponse_def writeListOffsetsResponseTopic_def
        writeListOffsetsResponsePartition_def wire_sizes)
  moreover have "MetadataRequest_ok (mrq_Version sample_meta) sample_meta"
    and "length (EncodeMetadataRequest sample_meta) < 2 ^ 63"
    and "MetadataResponse_ok (mrs_Version sample_metadata) sample_metadata"
    and "length (EncodeMetadataResponse sample_metadata) < 2 ^ 63"
    by (simp_all add: sample_meta_def sample_metadata_def MetadataRequest_ok_def MetadataRequestTopic_ok_def
        MetadataResponse_ok_def MetadataBroker_ok_def MetadataTopic_ok_def MetadataPartition_ok_def wire_shorts
        EncodeMetadataRequest_def EncodeMetadataResponse_def writeMetadataRequest_def
        writeMetadataRequestTopic_def writeMetadataResponse_def writeMetadataBroker_def
        writeMetadataTopic_def writeMetadataPartition_def wire_sizes)
  ultimately show ?thesis
    using lookup_roundtrip [of sample_list sample_listed sample_meta sample_metadata]
    by (simp add: sample_list_def sample_listed_def sample_meta_def sample_metadata_def
        ListOffsetsRequest_wire_def ListOffsetsRequestTopic_wire_def ListOffsetsRequestPartition_wire_def
        ListOffsetsResponse_wire_def ListOffsetsResponseTopic_wire_def ListOffsetsResponsePartition_wire_def
        MetadataRequest_wire_def MetadataResponse_wire_def MetadataBroker_wire_def MetadataTopic_wire_def
        MetadataPartition_wire_def)
qed

subsection \<open>Null arrays\<close>

text \<open>
  A Produce, Fetch or ListOffsets request whose topic array is null (length -1)
  makes its decoder panic, whatever the rest of the request holds: the decoders allocate
  \<^verbatim>\<open>make([]T, 0, n)\<close> before testing the length.
\<close>

theorem null_topics_panic:
  assumes "length rest < 2 ^ 62"
  shows "DecodeProduceRequest 2 (WriteInt16 acks @ WriteInt32 timeout @ WriteArrayLen (-1) @ rest) = Inl Panic
    \<and> DecodeFetchRequest 2 (WriteInt32 replica @ WriteInt32 wait @ WriteInt32 minb @ WriteArrayLen (-1) @ rest)
        = Inl Panic
    \<and> DecodeListOffsetsRequest 1 (WriteInt32 replica @ WriteArrayLen (-1) @ rest) = Inl Panic"
proof (intro conjI)
  have "fails (readProduceRequest 2) (WriteInt16 acks @ WriteInt32 timeout @ WriteArrayLen (-1)) Panic"
    unfolding readProduceRequest_def
    by (simp add: rwhen_def) (rule fails_intros reads_intros)+
  from fails_run [OF this, of rest] assms
  show "DecodeProduceRequest 2 (WriteInt16 acks @ WriteInt32 timeout @ WriteArrayLen (-1) @ rest) = Inl Panic"
    by (simp add: DecodeProduceRequest_def wire_sizes)
  have "fails (readFetchRequest 2) (WriteInt32 replica @ WriteInt32 wait @ WriteInt32 minb @ WriteArrayLen (-1)) Panic"
    unfolding readFetchRequest_def rwhen_def
    by simp (rule fails_intros reads_intros)+
  from fails_run [OF this, of rest] assms
  show "DecodeFetchRequest 2 (WriteInt32 replica @ WriteInt32 wait @ WriteInt32 minb @ WriteArrayLen (-1) @ rest)
        = Inl Panic"
    by (simp add: DecodeFetchRequest_def wire_sizes)
  have "fails (readListOffsetsRequest 1) (WriteInt32 replica @ WriteArrayLen (-1)) Panic"
    unfolding readListOffsetsRequest_def rwhen_def
    by simp (rule fails_intros reads_intros)+
  from fails_run [OF this, of rest] assms
  show "DecodeListOffsetsRequest 1 (WriteInt32 replica @ WriteArrayLen (-1) @ rest) = Inl Panic"
    by (simp add: DecodeListOffsetsRequest_def wire_sizes)
qed

theorem null_topics_panic_witness:
  "DecodeProduceRequest 2 (WriteInt16 1 @ WriteInt32 1000 @ WriteArrayLen (-1) @ []) = Inl Panic
    \<and> DecodeFetchRequest 2 (WriteInt32 (-1) @ WriteInt32 100 @ WriteInt32 1 @ WriteArrayLen (-1) @ []) = Inl Panic
    \<and> DecodeListOffsetsRequest 1 (WriteInt32 (-1) @ WriteArrayLen (-1) @ []) = Inl Panic"
  by (rule null_topics_panic [of "[]"]) simp

end
