(* ===== verification/Messages_Admin.thy ===== *)
theory Messages_Admin
  imports Wire
begin

text \<open>
  The administrative messages: CreateTopics and DeleteTopics (\<^verbatim>\<open>topic.go\<close>), ApiVersions
  (\<^verbatim>\<open>api_versions.go\<close>), InitProducerId (\<^verbatim>\<open>idempotent.go\<close>), the SASL handshake (\<^verbatim>\<open>sasl.go\<close>) and
  the transaction messages (\<^verbatim>\<open>txn.go\<close>) of \<^verbatim>\<open>src/pkg/protocol\<close>, with the client side in
  \<^verbatim>\<open>client_topics.go\<close> and \<^verbatim>\<open>client_apiversions.go\<close>.  The scheme is that of the data-path messages.
\<close>

subsection \<open>CreateTopics and DeleteTopics\<close>

record CreateTopicsReplicaAssignment =
  cra_Partition :: int32
  cra_Replicas :: "int32 list option"

definition writeCreateTopicsReplicaAssignment :: "CreateTopicsReplicaAssignment \<Rightarrow> bytes" where
  "writeCreateTopicsReplicaAssignment x =
     WriteInt32 (cra_Partition x)
     @ WriteArrayOf WriteInt32 (olist (cra_Replicas x))"

definition readCreateTopicsReplicaAssignment :: "CreateTopicsReplicaAssignment rd" where
  "readCreateTopicsReplicaAssignment =
     rbind ReadInt32 (\<lambda>partition.
     rbind (ReadNullableArrayOf ReadInt32) (\<lambda>replicas.
     rret \<lparr>cra_Partition = partition, cra_Replicas = replicas\<rparr>))"

definition CreateTopicsReplicaAssignment_ok :: "CreateTopicsReplicaAssignment \<Rightarrow> bool" where
  "CreateTopicsReplicaAssignment_ok x \<longleftrightarrow> short_list (olist (cra_Replicas x))"

definition CreateTopicsReplicaAssignment_wire :: "CreateTopicsReplicaAssignment \<Rightarrow> CreateTopicsReplicaAssignment" where
  "CreateTopicsReplicaAssignment_wire x =
     \<lparr>cra_Partition = (cra_Partition x),
      cra_Replicas = Some (olist (cra_Replicas x))\<rparr>"

interpretation CreateTopicsReplicaAssignment_codec: ncodec writeCreateTopicsReplicaAssignment readCreateTopicsReplicaAssignment CreateTopicsReplicaAssignment_wire CreateTopicsReplicaAssignment_ok
proof
  fix x :: CreateTopicsReplicaAssignment
  assume ok: "CreateTopicsReplicaAssignment_ok x"
  show "reads readCreateTopicsReplicaAssignment (writeCreateTopicsReplicaAssignment x) (CreateTopicsReplicaAssignment_wire x)"
    unfolding readCreateTopicsReplicaAssignment_def writeCreateTopicsReplicaAssignment_def CreateTopicsReplicaAssignment_wire_def
    by (rule reads_intros | use ok in \<open>simp add: CreateTopicsReplicaAssignment_ok_def\<close>)+
qed

lemmas CreateTopicsReplicaAssignment_reads [reads_intros] = CreateTopicsReplicaAssignment_codec.array_dec_norm CreateTopicsReplicaAssignment_codec.narray_dec_norm

record CreateTopicsConfig =
  ctc_Name :: gostring
  ctc_Value :: "gostring option"

definition writeCreateTopicsConfig :: "CreateTopicsConfig \<Rightarrow> bytes" where
  "writeCreateTopicsConfig x =
     WriteString (ctc_Name x)
     @ WriteNullableString (ctc_Value x)"

definition readCreateTopicsConfig :: "CreateTopicsConfig rd" where
  "readCreateTopicsConfig =
     rbind ReadString (\<lambda>name.
     rbind ReadNullableString (\<lambda>value.
     rret \<lparr>ctc_Name = name, ctc_Value = value\<rparr>))"

definition CreateTopicsConfig_ok :: "CreateTopicsConfig \<Rightarrow> bool" where
  "CreateTopicsConfig_ok x \<longleftrightarrow> short_string (ctc_Name x)
     \<and> short_nstring (ctc_Value x)"

interpretation CreateTopicsConfig_codec: codec writeCreateTopicsConfig readCreateTopicsConfig CreateTopicsConfig_ok
proof
  fix x :: CreateTopicsConfig
  assume ok: "CreateTopicsConfig_ok x"
  have "reads readCreateTopicsConfig (writeCreateTopicsConfig x) \<lparr>ctc_Name = ctc_Name x, ctc_Value = ctc_Value x\<rparr>"
    unfolding readCreateTopicsConfig_def writeCreateTopicsConfig_def
    by (rule reads_intros | use ok in \<open>simp add: CreateTopicsConfig_ok_def\<close>)+
  then show "reads readCreateTopicsConfig (writeCreateTopicsConfig x) x" by (cases x) simp
qed

lemmas CreateTopicsConfig_reads [reads_intros] = CreateTopicsConfig_codec.array_dec_enc CreateTopicsConfig_codec.narray_dec_enc

record CreateTopicsRequestTopic =
  crt_Topic :: gostring
  crt_NumPartitions :: int32
  crt_ReplicationFactor :: int16
  crt_ReplicaAssignment :: "CreateTopicsReplicaAssignment list"
  crt_Configs :: "CreateTopicsConfig list"

definition writeCreateTopicsRequestTopic :: "CreateTopicsRequestTopic \<Rightarrow> bytes" where
  "writeCreateTopicsRequestTopic x =
     WriteString (crt_Topic x)
     @ WriteInt32 (crt_NumPartitions x)
     @ WriteInt16 (crt_ReplicationFactor x)
     @ WriteArrayOf writeCreateTopicsReplicaAssignment (crt_ReplicaAssignment x)
     @ WriteArrayOf writeCreateTopicsConfig (crt_Configs x)"

definition readCreateTopicsRequestTopic :: "CreateTopicsRequestTopic rd" where
  "readCreateTopicsRequestTopic =
     rbind ReadString (\<lambda>topic.
     rbind ReadInt32 (\<lambda>numPartitions.
     rbind ReadInt16 (\<lambda>replicationFactor.
     rbind (ReadArrayOf readCreateTopicsReplicaAssignment) (\<lambda>replicaAssignment.
     rbind (ReadArrayOf readCreateTopicsConfig) (\<lambda>configs.
     rret \<lparr>crt_Topic = topic, crt_NumPartitions = numPartitions, crt_ReplicationFactor = replicationFactor, crt_ReplicaAssignment = replicaAssignment, crt_Configs = configs\<rparr>)))))"

definition CreateTopicsRequestTopic_ok :: "CreateTopicsRequestTopic \<Rightarrow> bool" where
  "CreateTopicsRequestTopic_ok x \<longleftrightarrow> short_string (crt_Topic x)
     \<and> short_list (crt_ReplicaAssignment x) \<and> (\<forall>y \<in> set (crt_ReplicaAssignment x). CreateTopicsReplicaAssignment_ok y)
     \<and> short_list (crt_Configs x) \<and> (\<forall>y \<in> set (crt_Configs x). CreateTopicsConfig_ok y)"

definition CreateTopicsRequestTopic_wire :: "CreateTopicsRequestTopic \<Rightarrow> CreateTopicsRequestTopic" where
  "CreateTopicsRequestTopic_wire x =
     \<lparr>crt_Topic = (crt_Topic x),
      crt_NumPartitions = (crt_NumPartitions x),
      crt_ReplicationFactor = (crt_ReplicationFactor x),
      crt_ReplicaAssignment = map CreateTopicsReplicaAssignment_wire (crt_ReplicaAssignment x),
      crt_Configs = (crt_Configs x)\<rparr>"

interpretation CreateTopicsRequestTopic_codec: ncodec writeCreateTopicsRequestTopic readCreateTopicsRequestTopic CreateTopicsRequestTopic_wire CreateTopicsRequestTopic_ok
proof
  fix x :: CreateTopicsRequestTopic
  assume ok: "CreateTopicsRequestTopic_ok x"
  show "reads readCreateTopicsRequestTopic (writeCreateTopicsRequestTopic x) (CreateTopicsRequestTopic_wire x)"
    unfolding readCreateTopicsRequestTopic_def writeCreateTopicsRequestTopic_def CreateTopicsRequestTopic_wire_def
    by (rule reads_intros | use ok in \<open>simp add: CreateTopicsRequestTopic_ok_def\<close>)+
qed

lemmas CreateTopicsRequestTopic_reads [reads_intros] = CreateTopicsRequestTopic_codec.array_dec_norm CreateTopicsRequestTopic_codec.narray_dec_norm

record CreateTopicsRequest =
  crq_Version :: int16
  crq_Topics :: "CreateTopicsRequestTopic list"
  crq_TimeoutMs :: int32
  crq_ValidateOnly :: bool

definition writeCreateTopicsRequest :: "int16 \<Rightarrow> CreateTopicsRequest \<Rightarrow> bytes" where
  "writeCreateTopicsRequest v x =
     WriteArrayOf writeCreateTopicsRequestTopic (crq_Topics x)
     @ WriteInt32 (crq_TimeoutMs x)
     @ wwhen (1 \<le> sint v) (WriteBool (crq_ValidateOnly x))"

definition readCreateTopicsRequest :: "int16 \<Rightarrow> CreateTopicsRequest rd" where
  "readCreateTopicsRequest v =
     rbind (ReadArrayOf readCreateTopicsRequestTopic) (\<lambda>topics.
     rbind ReadInt32 (\<lambda>timeoutMs.
     rbind (rwhen (1 \<le> sint v) ReadBool False) (\<lambda>validateOnly.
     rret \<lparr>crq_Version = v, crq_Topics = topics, crq_TimeoutMs = timeoutMs, crq_ValidateOnly = validateOnly\<rparr>)))"

definition CreateTopicsRequest_ok :: "int16 \<Rightarrow> CreateTopicsRequest \<Rightarrow> bool" where
  "CreateTopicsRequest_ok v x \<longleftrightarrow> short_list (crq_Topics x) \<and> (\<forall>y \<in> set (crq_Topics x). CreateTopicsRequestTopic_ok y)"

definition CreateTopicsRequest_wire :: "int16 \<Rightarrow> CreateTopicsRequest \<Rightarrow> CreateTopicsRequest" where
  "CreateTopicsRequest_wire v x =
     \<lparr>crq_Version = v,
      crq_Topics = map CreateTopicsRequestTopic_wire (crq_Topics x),
      crq_TimeoutMs = (crq_TimeoutMs x),
      crq_ValidateOnly = (if 1 \<le> sint v then (crq_ValidateOnly x) else False)\<rparr>"

interpretation CreateTopicsRequest_codec: ncodec "writeCreateTopicsRequest v" "readCreateTopicsRequest v" "CreateTopicsRequest_wire v" "CreateTopicsRequest_ok v" for v
proof
  fix x :: CreateTopicsRequest
  assume ok: "CreateTopicsRequest_ok v x"
  show "reads (readCreateTopicsRequest v) (writeCreateTopicsRequest v x) (CreateTopicsRequest_wire v x)"
    unfolding readCreateTopicsRequest_def writeCreateTopicsRequest_def CreateTopicsRequest_wire_def
    by (rule reads_intros | use ok in \<open>simp add: CreateTopicsRequest_ok_def\<close>)+
qed

definition EncodeCreateTopicsRequest :: "CreateTopicsRequest \<Rightarrow> bytes" where
  "EncodeCreateTopicsRequest x = writeCreateTopicsRequest (crq_Version x) x"

definition DecodeCreateTopicsRequest :: "int16 \<Rightarrow> bytes \<Rightarrow> CreateTopicsRequest res" where
  "DecodeCreateTopicsRequest version body = run (readCreateTopicsRequest version) body"

text \<open>From version 5 on the encoder writes three more fields, which the decoder does not read; the broker speaks at most version 4.\<close>

record CreateTopicsResponseTopic =
  cst_Topic :: gostring
  cst_ErrorCode :: int16
  cst_ErrorMessage :: "gostring option"

definition writeCreateTopicsResponseTopic :: "int16 \<Rightarrow> CreateTopicsResponseTopic \<Rightarrow> bytes" where
  "writeCreateTopicsResponseTopic v x =
     WriteString (cst_Topic x)
     @ WriteInt16 (cst_ErrorCode x)
     @ wwhen (1 \<le> sint v) (WriteNullableString (cst_ErrorMessage x))
     @ wwhen (5 \<le> sint v) (WriteInt32 (-1))
     @ wwhen (5 \<le> sint v) (WriteInt16 (-1))
     @ wwhen (5 \<le> sint v) (WriteArrayLen (-1))"

definition readCreateTopicsResponseTopic :: "int16 \<Rightarrow> CreateTopicsResponseTopic rd" where
  "readCreateTopicsResponseTopic v =
     rbind ReadString (\<lambda>topic.
     rbind ReadInt16 (\<lambda>errorCode.
     rbind (rwhen (1 \<le> sint v) ReadNullableString None) (\<lambda>errorMessage.
     rret \<lparr>cst_Topic = topic, cst_ErrorCode = errorCode, cst_ErrorMessage = errorMessage\<rparr>)))"

definition CreateTopicsResponseTopic_ok :: "int16 \<Rightarrow> CreateTopicsResponseTopic \<Rightarrow> bool" where
  "CreateTopicsResponseTopic_ok v x \<longleftrightarrow> short_string (cst_Topic x)
     \<and> (1 \<le> sint v \<longrightarrow> short_nstring (cst_ErrorMessage x))
     \<and> sint v < 5"

definition CreateTopicsResponseTopic_wire :: "int16 \<Rightarrow> CreateTopicsResponseTopic \<Rightarrow> CreateTopicsResponseTopic" where
  "CreateTopicsResponseTopic_wire v x =
     \<lparr>cst_Topic = (cst_Topic x),
      cst_ErrorCode = (cst_ErrorCode x),
      cst_ErrorMessage = (if 1 \<le> sint v then (cst_ErrorMessage x) else None)\<rparr>"

interpretation CreateTopicsResponseTopic_codec: ncodec "writeCreateTopicsResponseTopic v" "readCreateTopicsResponseTopic v" "CreateTopicsResponseTopic_wire v" "CreateTopicsResponseTopic_ok v" for v
proof
  fix x :: CreateTopicsResponseTopic
  assume ok: "CreateTopicsResponseTopic_ok v x"
  then have old: "\<not> 5 \<le> sint v" by (simp add: CreateTopicsResponseTopic_ok_def)
  show "reads (readCreateTopicsResponseTopic v) (writeCreateTopicsResponseTopic v x) (CreateTopicsResponseTopic_wire v x)"
    unfolding readCreateTopicsResponseTopic_def writeCreateTopicsResponseTopic_def CreateTopicsResponseTopic_wire_def wwhen_False [OF old] rwhen_False [OF old] rbind_rret append_Nil append_Nil2
    by (rule reads_intros | use ok in \<open>simp add: CreateTopicsResponseTopic_ok_def\<close>)+
qed

lemmas CreateTopicsResponseTopic_reads [reads_intros] = CreateTopicsResponseTopic_codec.array_dec_norm CreateTopicsResponseTopic_codec.narray_dec_norm

record CreateTopicsResponse =
  crs_Version :: int16
  crs_ThrottleTimeMs :: int32
  crs_Topics :: "CreateTopicsResponseTopic list"

definition writeCreateTopicsResponse :: "int16 \<Rightarrow> CreateTopicsResponse \<Rightarrow> bytes" where
  "writeCreateTopicsResponse v x =
     wwhen (2 \<le> sint v) (WriteInt32 (crs_ThrottleTimeMs x))
     @ WriteArrayOf (writeCreateTopicsResponseTopic v) (crs_Topics x)"

definition readCreateTopicsResponse :: "int16 \<Rightarrow> CreateTopicsResponse rd" where
  "readCreateTopicsResponse v =
     rbind (rwhen (2 \<le> sint v) ReadInt32 0) (\<lambda>throttleTimeMs.
     rbind (ReadArrayOf (readCreateTopicsResponseTopic v)) (\<lambda>topics.
     rret \<lparr>crs_Version = v, crs_ThrottleTimeMs = throttleTimeMs, crs_Topics = topics\<rparr>))"

definition CreateTopicsResponse_ok :: "int16 \<Rightarrow> CreateTopicsResponse \<Rightarrow> bool" where
  "CreateTopicsResponse_ok v x \<longleftrightarrow> short_list (crs_Topics x) \<and> (\<forall>y \<in> set (crs_Topics x). CreateTopicsResponseTopic_ok v y)"

definition CreateTopicsResponse_wire :: "int16 \<Rightarrow> CreateTopicsResponse \<Rightarrow> CreateTopicsResponse" where
  "CreateTopicsResponse_wire v x =
     \<lparr>crs_Version = v,
      crs_ThrottleTimeMs = (if 2 \<le> sint v then (crs_ThrottleTimeMs x) else 0),
      crs_Topics = map (CreateTopicsResponseTopic_wire v) (crs_Topics x)\<rparr>"

interpretation CreateTopicsResponse_codec: ncodec "writeCreateTopicsResponse v" "readCreateTopicsResponse v" "CreateTopicsResponse_wire v" "CreateTopicsResponse_ok v" for v
proof
  fix x :: CreateTopicsResponse
  assume ok: "CreateTopicsResponse_ok v x"
  show "reads (readCreateTopicsResponse v) (writeCreateTopicsResponse v x) (CreateTopicsResponse_wire v x)"
    unfolding readCreateTopicsResponse_def writeCreateTopicsResponse_def CreateTopicsResponse_wire_def
    by (rule reads_intros | use ok in \<open>simp add: CreateTopicsResponse_ok_def\<close>)+
qed

definition EncodeCreateTopicsResponse :: "CreateTopicsResponse \<Rightarrow> bytes" where
  "EncodeCreateTopicsResponse x = writeCreateTopicsResponse (crs_Version x) x"

definition DecodeCreateTopicsResponse :: "int16 \<Rightarrow> bytes \<Rightarrow> CreateTopicsResponse res" where
  "DecodeCreateTopicsResponse version body = run (readCreateTopicsResponse version) body"

record DeleteTopicsRequest =
  drq_Version :: int16
  drq_TopicNames :: "gostring list"
  drq_TimeoutMs :: int32

definition writeDeleteTopicsRequest :: "int16 \<Rightarrow> DeleteTopicsRequest \<Rightarrow> bytes" where
  "writeDeleteTopicsRequest v x =
     WriteArrayOf WriteString (drq_TopicNames x)
     @ WriteInt32 (drq_TimeoutMs x)"

definition readDeleteTopicsRequest :: "int16 \<Rightarrow> DeleteTopicsRequest rd" where
  "readDeleteTopicsRequest v =
     rbind (ReadArrayOf ReadString) (\<lambda>topicNames.
     rbind ReadInt32 (\<lambda>timeoutMs.
     rret \<lparr>drq_Version = v, drq_TopicNames = topicNames, drq_TimeoutMs = timeoutMs\<rparr>))"

definition DeleteTopicsRequest_ok :: "int16 \<Rightarrow> DeleteTopicsRequest \<Rightarrow> bool" where
  "DeleteTopicsRequest_ok v x \<longleftrightarrow> short_list (drq_TopicNames x) \<and> (\<forall>y \<in> set (drq_TopicNames x). short_string y)"

definition DeleteTopicsRequest_wire :: "int16 \<Rightarrow> DeleteTopicsRequest \<Rightarrow> DeleteTopicsRequest" where
  "DeleteTopicsRequest_wire v x =
     \<lparr>drq_Version = v,
      drq_TopicNames = (drq_TopicNames x),
      drq_TimeoutMs = (drq_TimeoutMs x)\<rparr>"

interpretation DeleteTopicsRequest_codec: ncodec "writeDeleteTopicsRequest v" "readDeleteTopicsRequest v" "DeleteTopicsRequest_wire v" "DeleteTopicsRequest_ok v" for v
proof
  fix x :: DeleteTopicsRequest
  assume ok: "DeleteTopicsRequest_ok v x"
  show "reads (readDeleteTopicsRequest v) (writeDeleteTopicsRequest v x) (DeleteTopicsRequest_wire v x)"
    unfolding readDeleteTopicsRequest_def writeDeleteTopicsRequest_def DeleteTopicsRequest_wire_def
    by (rule reads_intros | use ok in \<open>simp add: DeleteTopicsRequest_ok_def\<close>)+
qed

definition EncodeDeleteTopicsRequest :: "DeleteTopicsRequest \<Rightarrow> bytes" where
  "EncodeDeleteTopicsRequest x = writeDeleteTopicsRequest (drq_Version x) x"

definition DecodeDeleteTopicsRequest :: "int16 \<Rightarrow> bytes \<Rightarrow> DeleteTopicsRequest res" where
  "DecodeDeleteTopicsRequest version body = run (readDeleteTopicsRequest version) body"

record DeleteTopicsResponseTopic =
  dst_Name :: gostring
  dst_ErrorCode :: int16
  dst_ErrorMessage :: "gostring option"

definition writeDeleteTopicsResponseTopic :: "int16 \<Rightarrow> DeleteTopicsResponseTopic \<Rightarrow> bytes" where
  "writeDeleteTopicsResponseTopic v x =
     WriteStringPtr (dst_Name x)
     @ WriteInt16 (dst_ErrorCode x)
     @ wwhen (5 \<le> sint v) (WriteNullableString (dst_ErrorMessage x))"

definition readDeleteTopicsResponseTopic :: "int16 \<Rightarrow> DeleteTopicsResponseTopic rd" where
  "readDeleteTopicsResponseTopic v =
     rbind ReadString (\<lambda>name.
     rbind ReadInt16 (\<lambda>errorCode.
     rbind (rwhen (5 \<le> sint v) ReadNullableString None) (\<lambda>errorMessage.
     rret \<lparr>dst_Name = name, dst_ErrorCode = errorCode, dst_ErrorMessage = errorMessage\<rparr>)))"

definition DeleteTopicsResponseTopic_ok :: "int16 \<Rightarrow> DeleteTopicsResponseTopic \<Rightarrow> bool" where
  "DeleteTopicsResponseTopic_ok v x \<longleftrightarrow> short_string (dst_Name x)
     \<and> (5 \<le> sint v \<longrightarrow> short_nstring (dst_ErrorMessage x))"

definition DeleteTopicsResponseTopic_wire :: "int16 \<Rightarrow> DeleteTopicsResponseTopic \<Rightarrow> DeleteTopicsResponseTopic" where
  "DeleteTopicsResponseTopic_wire v x =
     \<lparr>dst_Name = (dst_Name x),
      dst_ErrorCode = (dst_ErrorCode x),
      dst_ErrorMessage = (if 5 \<le> sint v then (dst_ErrorMessage x) else None)\<rparr>"

interpretation DeleteTopicsResponseTopic_codec: ncodec "writeDeleteTopicsResponseTopic v" "readDeleteTopicsResponseTopic v" "DeleteTopicsResponseTopic_wire v" "DeleteTopicsResponseTopic_ok v" for v
proof
  fix x :: DeleteTopicsResponseTopic
  assume ok: "DeleteTopicsResponseTopic_ok v x"
  show "reads (readDeleteTopicsResponseTopic v) (writeDeleteTopicsResponseTopic v x) (DeleteTopicsResponseTopic_wire v x)"
    unfolding readDeleteTopicsResponseTopic_def writeDeleteTopicsResponseTopic_def DeleteTopicsResponseTopic_wire_def
    by (rule reads_intros | use ok in \<open>simp add: DeleteTopicsResponseTopic_ok_def\<close>)+
qed

lemmas DeleteTopicsResponseTopic_reads [reads_intros] = DeleteTopicsResponseTopic_codec.array_dec_norm DeleteTopicsResponseTopic_codec.narray_dec_norm

record DeleteTopicsResponse =
  drs_Version :: int16
  drs_ThrottleTimeMs :: int32
  drs_Topics :: "DeleteTopicsResponseTopic list"

definition writeDeleteTopicsResponse :: "int16 \<Rightarrow> DeleteTopicsResponse \<Rightarrow> bytes" where
  "writeDeleteTopicsResponse v x =
     wwhen (1 \<le> sint v) (WriteInt32 (drs_ThrottleTimeMs x))
     @ WriteArrayOf (writeDeleteTopicsResponseTopic v) (drs_Topics x)"

definition readDeleteTopicsResponse :: "int16 \<Rightarrow> DeleteTopicsResponse rd" where
  "readDeleteTopicsResponse v =
     rbind (rwhen (1 \<le> sint v) ReadInt32 0) (\<lambda>throttleTimeMs.
     rbind (ReadArrayOf (readDeleteTopicsResponseTopic v)) (\<lambda>topics.
     rret \<lparr>drs_Version = v, drs_ThrottleTimeMs = throttleTimeMs, drs_Topics = topics\<rparr>))"

definition DeleteTopicsResponse_ok :: "int16 \<Rightarrow> DeleteTopicsResponse \<Rightarrow> bool" where
  "DeleteTopicsResponse_ok v x \<longleftrightarrow> short_list (drs_Topics x) \<and> (\<forall>y \<in> set (drs_Topics x). DeleteTopicsResponseTopic_ok v y)"

definition DeleteTopicsResponse_wire :: "int16 \<Rightarrow> DeleteTopicsResponse \<Rightarrow> DeleteTopicsResponse" where
  "DeleteTopicsResponse_wire v x =
     \<lparr>drs_Version = v,
      drs_ThrottleTimeMs = (if 1 \<le> sint v then (drs_ThrottleTimeMs x) else 0),
      drs_Topics = map (DeleteTopicsResponseTopic_wire v) (drs_Topics x)\<rparr>"

interpretation DeleteTopicsResponse_codec: ncodec "writeDeleteTopicsResponse v" "readDeleteTopicsResponse v" "DeleteTopicsResponse_wire v" "DeleteTopicsResponse_ok v" for v
proof
  fix x :: DeleteTopicsResponse
  assume ok: "DeleteTopicsResponse_ok v x"
  show "reads (readDeleteTopicsResponse v) (writeDeleteTopicsResponse v x) (DeleteTopicsResponse_wire v x)"
    unfolding readDeleteTopicsResponse_def writeDeleteTopicsResponse_def DeleteTopicsResponse_wire_def
    by (rule reads_intros | use ok in \<open>simp add: DeleteTopicsResponse_ok_def\<close>)+
qed

definition EncodeDeleteTopicsResponse :: "DeleteTopicsResponse \<Rightarrow> bytes" where
  "EncodeDeleteTopicsResponse x = writeDeleteTopicsResponse (drs_Version x) x"

definition DecodeDeleteTopicsResponse :: "int16 \<Rightarrow> bytes \<Rightarrow> DeleteTopicsResponse res" where
  "DecodeDeleteTopicsResponse version body = run (readDeleteTopicsResponse version) body"

subsection \<open>ApiVersions\<close>

record ApiKeySupport =
  aks_ApiKey :: int16
  aks_MinVersion :: int16
  aks_MaxVersion :: int16

definition writeApiKeySupport :: "ApiKeySupport \<Rightarrow> bytes" where
  "writeApiKeySupport x =
     WriteInt16 (aks_ApiKey x)
     @ WriteInt16 (aks_MinVersion x)
     @ WriteInt16 (aks_MaxVersion x)"

definition readApiKeySupport :: "ApiKeySupport rd" where
  "readApiKeySupport =
     rbind ReadInt16 (\<lambda>apiKey.
     rbind ReadInt16 (\<lambda>minVersion.
     rbind ReadInt16 (\<lambda>maxVersion.
     rret \<lparr>aks_ApiKey = apiKey, aks_MinVersion = minVersion, aks_MaxVersion = maxVersion\<rparr>)))"

definition ApiKeySupport_ok :: "ApiKeySupport \<Rightarrow> bool" where
  "ApiKeySupport_ok x \<longleftrightarrow> True"

interpretation ApiKeySupport_codec: codec writeApiKeySupport readApiKeySupport ApiKeySupport_ok
proof
  fix x :: ApiKeySupport
  assume ok: "ApiKeySupport_ok x"
  have "reads readApiKeySupport (writeApiKeySupport x) \<lparr>aks_ApiKey = aks_ApiKey x, aks_MinVersion = aks_MinVersion x, aks_MaxVersion = aks_MaxVersion x\<rparr>"
    unfolding readApiKeySupport_def writeApiKeySupport_def
    by (rule reads_intros | use ok in \<open>simp add: ApiKeySupport_ok_def\<close>)+
  then show "reads readApiKeySupport (writeApiKeySupport x) x" by (cases x) simp
qed

lemmas ApiKeySupport_reads [reads_intros] = ApiKeySupport_codec.array_dec_enc ApiKeySupport_codec.narray_dec_enc

record ApiVersionsRequest =
  avq_Version :: int16

definition DecodeApiVersionsRequest :: "int16 \<Rightarrow> bytes \<Rightarrow> ApiVersionsRequest res" where
  "DecodeApiVersionsRequest version body = Inr \<lparr>avq_Version = version\<rparr>"

definition EncodeApiVersionsRequest :: "int16 \<Rightarrow> ApiVersionsRequest \<Rightarrow> bytes" where
  "EncodeApiVersionsRequest version req = []"

record ApiVersionsResponse =
  avs_Version :: int16
  avs_ErrorCode :: int16
  avs_ApiKeys :: "ApiKeySupport list"
  avs_ThrottleTimeMs :: int32

definition EncodeApiVersionsResponse :: "ApiVersionsResponse \<Rightarrow> bytes" where
  "EncodeApiVersionsResponse x =
     (if 3 \<le> sint (avs_Version x) then
        WriteInt16 (avs_ErrorCode x)
        @ WriteCompactArrayLen (int (length (avs_ApiKeys x)))
        @ concat (map (\<lambda>k. writeApiKeySupport k @ WriteTaggedFields) (avs_ApiKeys x))
        @ WriteInt32 (avs_ThrottleTimeMs x)
        @ WriteTaggedFields
      else
        WriteInt16 (avs_ErrorCode x)
        @ WriteArrayOf writeApiKeySupport (avs_ApiKeys x)
        @ wwhen (1 \<le> sint (avs_Version x)) (WriteInt32 (avs_ThrottleTimeMs x)))"

definition readApiVersionsResponse :: "int16 \<Rightarrow> ApiVersionsResponse rd" where
  "readApiVersionsResponse v =
     rbind ReadInt16 (\<lambda>errorCode.
     rbind (ReadArrayOf readApiKeySupport) (\<lambda>apiKeys.
     rbind (rwhen (1 \<le> sint v) ReadInt32 0) (\<lambda>throttleTimeMs.
     rret \<lparr>avs_Version = v, avs_ErrorCode = errorCode, avs_ApiKeys = apiKeys, avs_ThrottleTimeMs = throttleTimeMs\<rparr>)))"

definition DecodeApiVersionsResponse :: "int16 \<Rightarrow> bytes \<Rightarrow> ApiVersionsResponse res" where
  "DecodeApiVersionsResponse version body = run (readApiVersionsResponse version) body"

definition ApiVersionsResponse_ok :: "ApiVersionsResponse \<Rightarrow> bool" where
  "ApiVersionsResponse_ok x \<longleftrightarrow> sint (avs_Version x) < 3 \<and> short_list (avs_ApiKeys x)"

definition ApiVersionsResponse_wire :: "ApiVersionsResponse \<Rightarrow> ApiVersionsResponse" where
  "ApiVersionsResponse_wire x = \<lparr>avs_Version = avs_Version x, avs_ErrorCode = avs_ErrorCode x,
     avs_ApiKeys = avs_ApiKeys x,
     avs_ThrottleTimeMs = (if 1 \<le> sint (avs_Version x) then avs_ThrottleTimeMs x else 0)\<rparr>"

lemma reads_ApiVersionsResponse:
  assumes ok: "ApiVersionsResponse_ok x"
  shows "reads (readApiVersionsResponse (avs_Version x)) (EncodeApiVersionsResponse x) (ApiVersionsResponse_wire x)"
proof -
  from ok have old: "\<not> 3 \<le> sint (avs_Version x)" by (simp add: ApiVersionsResponse_ok_def)
  show ?thesis
    unfolding readApiVersionsResponse_def EncodeApiVersionsResponse_def ApiVersionsResponse_wire_def if_not_P [OF old]
    by (rule reads_intros | use ok in \<open>simp add: ApiVersionsResponse_ok_def ApiKeySupport_ok_def\<close>)+
qed

subsection \<open>InitProducerId\<close>

record InitProducerIdRequest =
  iprq_Version :: int16
  iprq_TransactionalID :: "gostring option"
  iprq_TransactionTimeoutMs :: int32
  iprq_ProducerID :: int64
  iprq_ProducerEpoch :: int16

definition writeInitProducerIdRequest :: "int16 \<Rightarrow> InitProducerIdRequest \<Rightarrow> bytes" where
  "writeInitProducerIdRequest v x =
     WriteNullableString (iprq_TransactionalID x)
     @ WriteInt32 (iprq_TransactionTimeoutMs x)
     @ wwhen (2 \<le> sint v) (WriteInt64 (iprq_ProducerID x))
     @ wwhen (2 \<le> sint v) (WriteInt16 (iprq_ProducerEpoch x))"

definition readInitProducerIdRequest :: "int16 \<Rightarrow> InitProducerIdRequest rd" where
  "readInitProducerIdRequest v =
     rbind ReadNullableString (\<lambda>transactionalID.
     rbind ReadInt32 (\<lambda>transactionTimeoutMs.
     rbind (rwhen (2 \<le> sint v) ReadInt64 0) (\<lambda>producerID.
     rbind (rwhen (2 \<le> sint v) ReadInt16 0) (\<lambda>producerEpoch.
     rret \<lparr>iprq_Version = v, iprq_TransactionalID = transactionalID, iprq_TransactionTimeoutMs = transactionTimeoutMs, iprq_ProducerID = producerID, iprq_ProducerEpoch = producerEpoch\<rparr>))))"

definition InitProducerIdRequest_ok :: "int16 \<Rightarrow> InitProducerIdRequest \<Rightarrow> bool" where
  "InitProducerIdRequest_ok v x \<longleftrightarrow> short_nstring (iprq_TransactionalID x)"

definition InitProducerIdRequest_wire :: "int16 \<Rightarrow> InitProducerIdRequest \<Rightarrow> InitProducerIdRequest" where
  "InitProducerIdRequest_wire v x =
     \<lparr>iprq_Version = v,
      iprq_TransactionalID = (iprq_TransactionalID x),
      iprq_TransactionTimeoutMs = (iprq_TransactionTimeoutMs x),
      iprq_ProducerID = (if 2 \<le> sint v then (iprq_ProducerID x) else 0),
      iprq_ProducerEpoch = (if 2 \<le> sint v then (iprq_ProducerEpoch x) else 0)\<rparr>"

interpretation InitProducerIdRequest_codec: ncodec "writeInitProducerIdRequest v" "readInitProducerIdRequest v" "InitProducerIdRequest_wire v" "InitProducerIdRequest_ok v" for v
proof
  fix x :: InitProducerIdRequest
  assume ok: "InitProducerIdRequest_ok v x"
  show "reads (readInitProducerIdRequest v) (writeInitProducerIdRequest v x) (InitProducerIdRequest_wire v x)"
    unfolding readInitProducerIdRequest_def writeInitProducerIdRequest_def InitProducerIdRequest_wire_def
    by (rule reads_intros | use ok in \<open>simp add: InitProducerIdRequest_ok_def\<close>)+
qed

definition EncodeInitProducerIdRequest :: "InitProducerIdRequest \<Rightarrow> bytes" where
  "EncodeInitProducerIdRequest x = writeInitProducerIdRequest (iprq_Version x) x"

definition DecodeInitProducerIdRequest :: "int16 \<Rightarrow> bytes \<Rightarrow> InitProducerIdRequest res" where
  "DecodeInitProducerIdRequest version body = run (readInitProducerIdRequest version) body"

record InitProducerIdResponse =
  iprs_Version :: int16
  iprs_ThrottleTimeMs :: int32
  iprs_ErrorCode :: int16
  iprs_ProducerID :: int64
  iprs_ProducerEpoch :: int16

definition writeInitProducerIdResponse :: "int16 \<Rightarrow> InitProducerIdResponse \<Rightarrow> bytes" where
  "writeInitProducerIdResponse v x =
     wwhen (1 \<le> sint v) (WriteInt32 (iprs_ThrottleTimeMs x))
     @ WriteInt16 (iprs_ErrorCode x)
     @ WriteInt64 (iprs_ProducerID x)
     @ WriteInt16 (iprs_ProducerEpoch x)"

definition readInitProducerIdResponse :: "int16 \<Rightarrow> InitProducerIdResponse rd" where
  "readInitProducerIdResponse v =
     rbind (rwhen (1 \<le> sint v) ReadInt32 0) (\<lambda>throttleTimeMs.
     rbind ReadInt16 (\<lambda>errorCode.
     rbind ReadInt64 (\<lambda>producerID.
     rbind ReadInt16 (\<lambda>producerEpoch.
     rret \<lparr>iprs_Version = v, iprs_ThrottleTimeMs = throttleTimeMs, iprs_ErrorCode = errorCode, iprs_ProducerID = producerID, iprs_ProducerEpoch = producerEpoch\<rparr>))))"

definition InitProducerIdResponse_ok :: "int16 \<Rightarrow> InitProducerIdResponse \<Rightarrow> bool" where
  "InitProducerIdResponse_ok v x \<longleftrightarrow> True"

definition InitProducerIdResponse_wire :: "int16 \<Rightarrow> InitProducerIdResponse \<Rightarrow> InitProducerIdResponse" where
  "InitProducerIdResponse_wire v x =
     \<lparr>iprs_Version = v,
      iprs_ThrottleTimeMs = (if 1 \<le> sint v then (iprs_ThrottleTimeMs x) else 0),
      iprs_ErrorCode = (iprs_ErrorCode x),
      iprs_ProducerID = (iprs_ProducerID x),
      iprs_ProducerEpoch = (iprs_ProducerEpoch x)\<rparr>"

interpretation InitProducerIdResponse_codec: ncodec "writeInitProducerIdResponse v" "readInitProducerIdResponse v" "InitProducerIdResponse_wire v" "InitProducerIdResponse_ok v" for v
proof
  fix x :: InitProducerIdResponse
  assume ok: "InitProducerIdResponse_ok v x"
  show "reads (readInitProducerIdResponse v) (writeInitProducerIdResponse v x) (InitProducerIdResponse_wire v x)"
    unfolding readInitProducerIdResponse_def writeInitProducerIdResponse_def InitProducerIdResponse_wire_def
    by (rule reads_intros | use ok in \<open>simp add: InitProducerIdResponse_ok_def\<close>)+
qed

definition EncodeInitProducerIdResponse :: "InitProducerIdResponse \<Rightarrow> bytes" where
  "EncodeInitProducerIdResponse x = writeInitProducerIdResponse (iprs_Version x) x"

definition DecodeInitProducerIdResponse :: "int16 \<Rightarrow> bytes \<Rightarrow> InitProducerIdResponse res" where
  "DecodeInitProducerIdResponse version body = run (readInitProducerIdResponse version) body"

subsection \<open>SASL\<close>

record SASLHandshakeRequest =
  shq_Version :: int16
  shq_Mechanism :: gostring

definition writeSASLHandshakeRequest :: "int16 \<Rightarrow> SASLHandshakeRequest \<Rightarrow> bytes" where
  "writeSASLHandshakeRequest v x =
     WriteString (shq_Mechanism x)"

definition readSASLHandshakeRequest :: "int16 \<Rightarrow> SASLHandshakeRequest rd" where
  "readSASLHandshakeRequest v =
     rbind ReadString (\<lambda>mechanism.
     rret \<lparr>shq_Version = v, shq_Mechanism = mechanism\<rparr>)"

definition SASLHandshakeRequest_ok :: "int16 \<Rightarrow> SASLHandshakeRequest \<Rightarrow> bool" where
  "SASLHandshakeRequest_ok v x \<longleftrightarrow> short_string (shq_Mechanism x)"

definition SASLHandshakeRequest_wire :: "int16 \<Rightarrow> SASLHandshakeRequest \<Rightarrow> SASLHandshakeRequest" where
  "SASLHandshakeRequest_wire v x =
     \<lparr>shq_Version = v,
      shq_Mechanism = (shq_Mechanism x)\<rparr>"

interpretation SASLHandshakeRequest_codec: ncodec "writeSASLHandshakeRequest v" "readSASLHandshakeRequest v" "SASLHandshakeRequest_wire v" "SASLHandshakeRequest_ok v" for v
proof
  fix x :: SASLHandshakeRequest
  assume ok: "SASLHandshakeRequest_ok v x"
  show "reads (readSASLHandshakeRequest v) (writeSASLHandshakeRequest v x) (SASLHandshakeRequest_wire v x)"
    unfolding readSASLHandshakeRequest_def writeSASLHandshakeRequest_def SASLHandshakeRequest_wire_def
    by (rule reads_intros | use ok in \<open>simp add: SASLHandshakeRequest_ok_def\<close>)+
qed

definition EncodeSASLHandshakeRequest :: "SASLHandshakeRequest \<Rightarrow> bytes" where
  "EncodeSASLHandshakeRequest x = writeSASLHandshakeRequest (shq_Version x) x"

definition DecodeSASLHandshakeRequest :: "int16 \<Rightarrow> bytes \<Rightarrow> SASLHandshakeRequest res" where
  "DecodeSASLHandshakeRequest version body = run (readSASLHandshakeRequest version) body"

text \<open>
  The handshake response writes a nil mechanism list as a null array, on which the
  decoder of the client panics; the broker always sends a list.
\<close>

record SASLHandshakeResponse =
  shs_Version :: int16
  shs_ErrorCode :: int16
  shs_Mechanisms :: "gostring list option"

definition EncodeSASLHandshakeResponse :: "SASLHandshakeResponse \<Rightarrow> bytes" where
  "EncodeSASLHandshakeResponse x =
     WriteInt16 (shs_ErrorCode x)
     @ WriteNullableArrayOf WriteString (shs_Mechanisms x)"

definition readSASLHandshakeResponse :: "int16 \<Rightarrow> SASLHandshakeResponse rd" where
  "readSASLHandshakeResponse v =
     rbind ReadInt16 (\<lambda>errorCode.
     rbind (ReadArrayOf ReadString) (\<lambda>mechanisms.
     rret \<lparr>shs_Version = v, shs_ErrorCode = errorCode, shs_Mechanisms = Some mechanisms\<rparr>))"

definition DecodeSASLHandshakeResponse :: "int16 \<Rightarrow> bytes \<Rightarrow> SASLHandshakeResponse res" where
  "DecodeSASLHandshakeResponse version body = run (readSASLHandshakeResponse version) body"

lemma reads_SASLHandshakeResponse:
  assumes "shs_Mechanisms x = Some ms" and "short_list ms" and "\<forall>m \<in> set ms. short_string m"
  shows "reads (readSASLHandshakeResponse (shs_Version x)) (EncodeSASLHandshakeResponse x) x"
proof -
  have "reads (readSASLHandshakeResponse (shs_Version x)) (EncodeSASLHandshakeResponse x)
      \<lparr>shs_Version = shs_Version x, shs_ErrorCode = shs_ErrorCode x, shs_Mechanisms = Some ms\<rparr>"
    unfolding readSASLHandshakeResponse_def EncodeSASLHandshakeResponse_def WriteNullableArrayOf_def assms(1) option.case
    by (rule reads_intros assms)+
  with assms(1) show ?thesis by (cases x) simp
qed

lemma SASLHandshakeResponse_nil_panics:
  assumes "shs_Mechanisms x = None"
  shows "DecodeSASLHandshakeResponse v (EncodeSASLHandshakeResponse x) = Inl Panic"
proof -
  have "fails (readSASLHandshakeResponse v) (EncodeSASLHandshakeResponse x) Panic"
    unfolding readSASLHandshakeResponse_def EncodeSASLHandshakeResponse_def WriteNullableArrayOf_def assms option.case
    by (rule fails_intros reads_intros)+
  from fails_run [OF this, of "[]"] assms show ?thesis
    by (simp add: DecodeSASLHandshakeResponse_def EncodeSASLHandshakeResponse_def wire_sizes)
qed

record SaslAuthenticateRequest =
  saq_Version :: int16
  saq_AuthBytes :: "bytes option"

definition writeSaslAuthenticateRequest :: "int16 \<Rightarrow> SaslAuthenticateRequest \<Rightarrow> bytes" where
  "writeSaslAuthenticateRequest v x =
     WriteBytes (saq_AuthBytes x)"

definition readSaslAuthenticateRequest :: "int16 \<Rightarrow> SaslAuthenticateRequest rd" where
  "readSaslAuthenticateRequest v =
     rbind ReadBytes (\<lambda>authBytes.
     rret \<lparr>saq_Version = v, saq_AuthBytes = authBytes\<rparr>)"

definition SaslAuthenticateRequest_ok :: "int16 \<Rightarrow> SaslAuthenticateRequest \<Rightarrow> bool" where
  "SaslAuthenticateRequest_ok v x \<longleftrightarrow> short_bytes (saq_AuthBytes x)"

definition SaslAuthenticateRequest_wire :: "int16 \<Rightarrow> SaslAuthenticateRequest \<Rightarrow> SaslAuthenticateRequest" where
  "SaslAuthenticateRequest_wire v x =
     \<lparr>saq_Version = v,
      saq_AuthBytes = (saq_AuthBytes x)\<rparr>"

interpretation SaslAuthenticateRequest_codec: ncodec "writeSaslAuthenticateRequest v" "readSaslAuthenticateRequest v" "SaslAuthenticateRequest_wire v" "SaslAuthenticateRequest_ok v" for v
proof
  fix x :: SaslAuthenticateRequest
  assume ok: "SaslAuthenticateRequest_ok v x"
  show "reads (readSaslAuthenticateRequest v) (writeSaslAuthenticateRequest v x) (SaslAuthenticateRequest_wire v x)"
    unfolding readSaslAuthenticateRequest_def writeSaslAuthenticateRequest_def SaslAuthenticateRequest_wire_def
    by (rule reads_intros | use ok in \<open>simp add: SaslAuthenticateRequest_ok_def\<close>)+
qed

definition EncodeSaslAuthenticateRequest :: "SaslAuthenticateRequest \<Rightarrow> bytes" where
  "EncodeSaslAuthenticateRequest x = writeSaslAuthenticateRequest (saq_Version x) x"

definition DecodeSaslAuthenticateRequest :: "int16 \<Rightarrow> bytes \<Rightarrow> SaslAuthenticateRequest res" where
  "DecodeSaslAuthenticateRequest version body = run (readSaslAuthenticateRequest version) body"

record SaslAuthenticateResponse =
  sas_Version :: int16
  sas_ErrorCode :: int16
  sas_ErrorMessage :: "gostring option"
  sas_AuthBytes :: "bytes option"
  sas_SessionLifetimeMs :: int64

definition writeSaslAuthenticateResponse :: "int16 \<Rightarrow> SaslAuthenticateResponse \<Rightarrow> bytes" where
  "writeSaslAuthenticateResponse v x =
     WriteInt16 (sas_ErrorCode x)
     @ WriteNullableString (sas_ErrorMessage x)
     @ WriteBytesOrEmpty (sas_AuthBytes x)
     @ wwhen (1 \<le> sint v) (WriteInt64 (sas_SessionLifetimeMs x))"

definition readSaslAuthenticateResponse :: "int16 \<Rightarrow> SaslAuthenticateResponse rd" where
  "readSaslAuthenticateResponse v =
     rbind ReadInt16 (\<lambda>errorCode.
     rbind ReadNullableString (\<lambda>errorMessage.
     rbind ReadBytes (\<lambda>authBytes.
     rbind (rwhen (1 \<le> sint v) ReadInt64 0) (\<lambda>sessionLifetimeMs.
     rret \<lparr>sas_Version = v, sas_ErrorCode = errorCode, sas_ErrorMessage = errorMessage, sas_AuthBytes = authBytes, sas_SessionLifetimeMs = sessionLifetimeMs\<rparr>))))"

definition SaslAuthenticateResponse_ok :: "int16 \<Rightarrow> SaslAuthenticateResponse \<Rightarrow> bool" where
  "SaslAuthenticateResponse_ok v x \<longleftrightarrow> short_nstring (sas_ErrorMessage x)
     \<and> short_bytes (sas_AuthBytes x)"

definition SaslAuthenticateResponse_wire :: "int16 \<Rightarrow> SaslAuthenticateResponse \<Rightarrow> SaslAuthenticateResponse" where
  "SaslAuthenticateResponse_wire v x =
     \<lparr>sas_Version = v,
      sas_ErrorCode = (sas_ErrorCode x),
      sas_ErrorMessage = (sas_ErrorMessage x),
      sas_AuthBytes = Some (obytes (sas_AuthBytes x)),
      sas_SessionLifetimeMs = (if 1 \<le> sint v then (sas_SessionLifetimeMs x) else 0)\<rparr>"

interpretation SaslAuthenticateResponse_codec: ncodec "writeSaslAuthenticateResponse v" "readSaslAuthenticateResponse v" "SaslAuthenticateResponse_wire v" "SaslAuthenticateResponse_ok v" for v
proof
  fix x :: SaslAuthenticateResponse
  assume ok: "SaslAuthenticateResponse_ok v x"
  show "reads (readSaslAuthenticateResponse v) (writeSaslAuthenticateResponse v x) (SaslAuthenticateResponse_wire v x)"
    unfolding readSaslAuthenticateResponse_def writeSaslAuthenticateResponse_def SaslAuthenticateResponse_wire_def
    by (rule reads_intros | use ok in \<open>simp add: SaslAuthenticateResponse_ok_def\<close>)+
qed

definition EncodeSaslAuthenticateResponse :: "SaslAuthenticateResponse \<Rightarrow> bytes" where
  "EncodeSaslAuthenticateResponse x = writeSaslAuthenticateResponse (sas_Version x) x"

definition DecodeSaslAuthenticateResponse :: "int16 \<Rightarrow> bytes \<Rightarrow> SaslAuthenticateResponse res" where
  "DecodeSaslAuthenticateResponse version body = run (readSaslAuthenticateResponse version) body"

subsection \<open>Transactions\<close>

record AddPartitionsToTxnRequestTopic =
  aprt_Topic :: gostring
  aprt_Partitions :: "int32 list option"

definition writeAddPartitionsToTxnRequestTopic :: "AddPartitionsToTxnRequestTopic \<Rightarrow> bytes" where
  "writeAddPartitionsToTxnRequestTopic x =
     WriteString (aprt_Topic x)
     @ WriteArrayOf WriteInt32 (olist (aprt_Partitions x))"

definition readAddPartitionsToTxnRequestTopic :: "AddPartitionsToTxnRequestTopic rd" where
  "readAddPartitionsToTxnRequestTopic =
     rbind ReadString (\<lambda>topic.
     rbind (ReadNullableArrayOf ReadInt32) (\<lambda>partitions.
     rret \<lparr>aprt_Topic = topic, aprt_Partitions = partitions\<rparr>))"

definition AddPartitionsToTxnRequestTopic_ok :: "AddPartitionsToTxnRequestTopic \<Rightarrow> bool" where
  "AddPartitionsToTxnRequestTopic_ok x \<longleftrightarrow> short_string (aprt_Topic x)
     \<and> short_list (olist (aprt_Partitions x))"

definition AddPartitionsToTxnRequestTopic_wire :: "AddPartitionsToTxnRequestTopic \<Rightarrow> AddPartitionsToTxnRequestTopic" where
  "AddPartitionsToTxnRequestTopic_wire x =
     \<lparr>aprt_Topic = (aprt_Topic x),
      aprt_Partitions = Some (olist (aprt_Partitions x))\<rparr>"

interpretation AddPartitionsToTxnRequestTopic_codec: ncodec writeAddPartitionsToTxnRequestTopic readAddPartitionsToTxnRequestTopic AddPartitionsToTxnRequestTopic_wire AddPartitionsToTxnRequestTopic_ok
proof
  fix x :: AddPartitionsToTxnRequestTopic
  assume ok: "AddPartitionsToTxnRequestTopic_ok x"
  show "reads readAddPartitionsToTxnRequestTopic (writeAddPartitionsToTxnRequestTopic x) (AddPartitionsToTxnRequestTopic_wire x)"
    unfolding readAddPartitionsToTxnRequestTopic_def writeAddPartitionsToTxnRequestTopic_def AddPartitionsToTxnRequestTopic_wire_def
    by (rule reads_intros | use ok in \<open>simp add: AddPartitionsToTxnRequestTopic_ok_def\<close>)+
qed

lemmas AddPartitionsToTxnRequestTopic_reads [reads_intros] = AddPartitionsToTxnRequestTopic_codec.array_dec_norm AddPartitionsToTxnRequestTopic_codec.narray_dec_norm

record AddPartitionsToTxnRequest =
  aprq_Version :: int16
  aprq_TransactionalID :: gostring
  aprq_ProducerID :: int64
  aprq_ProducerEpoch :: int16
  aprq_Topics :: "AddPartitionsToTxnRequestTopic list"

definition writeAddPartitionsToTxnRequest :: "int16 \<Rightarrow> AddPartitionsToTxnRequest \<Rightarrow> bytes" where
  "writeAddPartitionsToTxnRequest v x =
     WriteString (aprq_TransactionalID x)
     @ WriteInt64 (aprq_ProducerID x)
     @ WriteInt16 (aprq_ProducerEpoch x)
     @ WriteArrayOf writeAddPartitionsToTxnRequestTopic (aprq_Topics x)"

definition readAddPartitionsToTxnRequest :: "int16 \<Rightarrow> AddPartitionsToTxnRequest rd" where
  "readAddPartitionsToTxnRequest v =
     rbind ReadString (\<lambda>transactionalID.
     rbind ReadInt64 (\<lambda>producerID.
     rbind ReadInt16 (\<lambda>producerEpoch.
     rbind (ReadArrayOf readAddPartitionsToTxnRequestTopic) (\<lambda>topics.
     rret \<lparr>aprq_Version = v, aprq_TransactionalID = transactionalID, aprq_ProducerID = producerID, aprq_ProducerEpoch = producerEpoch, aprq_Topics = topics\<rparr>))))"

definition AddPartitionsToTxnRequest_ok :: "int16 \<Rightarrow> AddPartitionsToTxnRequest \<Rightarrow> bool" where
  "AddPartitionsToTxnRequest_ok v x \<longleftrightarrow> short_string (aprq_TransactionalID x)
     \<and> short_list (aprq_Topics x) \<and> (\<forall>y \<in> set (aprq_Topics x). AddPartitionsToTxnRequestTopic_ok y)"

definition AddPartitionsToTxnRequest_wire :: "int16 \<Rightarrow> AddPartitionsToTxnRequest \<Rightarrow> AddPartitionsToTxnRequest" where
  "AddPartitionsToTxnRequest_wire v x =
     \<lparr>aprq_Version = v,
      aprq_TransactionalID = (aprq_TransactionalID x),
      aprq_ProducerID = (aprq_ProducerID x),
      aprq_ProducerEpoch = (aprq_ProducerEpoch x),
      aprq_Topics = map AddPartitionsToTxnRequestTopic_wire (aprq_Topics x)\<rparr>"

interpretation AddPartitionsToTxnRequest_codec: ncodec "writeAddPartitionsToTxnRequest v" "readAddPartitionsToTxnRequest v" "AddPartitionsToTxnRequest_wire v" "AddPartitionsToTxnRequest_ok v" for v
proof
  fix x :: AddPartitionsToTxnRequest
  assume ok: "AddPartitionsToTxnRequest_ok v x"
  show "reads (readAddPartitionsToTxnRequest v) (writeAddPartitionsToTxnRequest v x) (AddPartitionsToTxnRequest_wire v x)"
    unfolding readAddPartitionsToTxnRequest_def writeAddPartitionsToTxnRequest_def AddPartitionsToTxnRequest_wire_def
    by (rule reads_intros | use ok in \<open>simp add: AddPartitionsToTxnRequest_ok_def\<close>)+
qed

definition EncodeAddPartitionsToTxnRequest :: "AddPartitionsToTxnRequest \<Rightarrow> bytes" where
  "EncodeAddPartitionsToTxnRequest x = writeAddPartitionsToTxnRequest (aprq_Version x) x"

definition DecodeAddPartitionsToTxnRequest :: "int16 \<Rightarrow> bytes \<Rightarrow> AddPartitionsToTxnRequest res" where
  "DecodeAddPartitionsToTxnRequest version body = run (readAddPartitionsToTxnRequest version) body"

record AddPartitionsToTxnResponsePartition =
  apsp_Partition :: int32
  apsp_ErrorCode :: int16

definition writeAddPartitionsToTxnResponsePartition :: "AddPartitionsToTxnResponsePartition \<Rightarrow> bytes" where
  "writeAddPartitionsToTxnResponsePartition x =
     WriteInt32 (apsp_Partition x)
     @ WriteInt16 (apsp_ErrorCode x)"

definition readAddPartitionsToTxnResponsePartition :: "AddPartitionsToTxnResponsePartition rd" where
  "readAddPartitionsToTxnResponsePartition =
     rbind ReadInt32 (\<lambda>partition.
     rbind ReadInt16 (\<lambda>errorCode.
     rret \<lparr>apsp_Partition = partition, apsp_ErrorCode = errorCode\<rparr>))"

definition AddPartitionsToTxnResponsePartition_ok :: "AddPartitionsToTxnResponsePartition \<Rightarrow> bool" where
  "AddPartitionsToTxnResponsePartition_ok x \<longleftrightarrow> True"

interpretation AddPartitionsToTxnResponsePartition_codec: codec writeAddPartitionsToTxnResponsePartition readAddPartitionsToTxnResponsePartition AddPartitionsToTxnResponsePartition_ok
proof
  fix x :: AddPartitionsToTxnResponsePartition
  assume ok: "AddPartitionsToTxnResponsePartition_ok x"
  have "reads readAddPartitionsToTxnResponsePartition (writeAddPartitionsToTxnResponsePartition x) \<lparr>apsp_Partition = apsp_Partition x, apsp_ErrorCode = apsp_ErrorCode x\<rparr>"
    unfolding readAddPartitionsToTxnResponsePartition_def writeAddPartitionsToTxnResponsePartition_def
    by (rule reads_intros | use ok in \<open>simp add: AddPartitionsToTxnResponsePartition_ok_def\<close>)+
  then show "reads readAddPartitionsToTxnResponsePartition (writeAddPartitionsToTxnResponsePartition x) x" by (cases x) simp
qed

lemmas AddPartitionsToTxnResponsePartition_reads [reads_intros] = AddPartitionsToTxnResponsePartition_codec.array_dec_enc AddPartitionsToTxnResponsePartition_codec.narray_dec_enc

record AddPartitionsToTxnResponseTopic =
  apst_Topic :: gostring
  apst_Partitions :: "AddPartitionsToTxnResponsePartition list"

definition writeAddPartitionsToTxnResponseTopic :: "AddPartitionsToTxnResponseTopic \<Rightarrow> bytes" where
  "writeAddPartitionsToTxnResponseTopic x =
     WriteString (apst_Topic x)
     @ WriteArrayOf writeAddPartitionsToTxnResponsePartition (apst_Partitions x)"

definition readAddPartitionsToTxnResponseTopic :: "AddPartitionsToTxnResponseTopic rd" where
  "readAddPartitionsToTxnResponseTopic =
     rbind ReadString (\<lambda>topic.
     rbind (ReadArrayOf readAddPartitionsToTxnResponsePartition) (\<lambda>partitions.
     rret \<lparr>apst_Topic = topic, apst_Partitions = partitions\<rparr>))"

definition AddPartitionsToTxnResponseTopic_ok :: "AddPartitionsToTxnResponseTopic \<Rightarrow> bool" where
  "AddPartitionsToTxnResponseTopic_ok x \<longleftrightarrow> short_string (apst_Topic x)
     \<and> short_list (apst_Partitions x) \<and> (\<forall>y \<in> set (apst_Partitions x). AddPartitionsToTxnResponsePartition_ok y)"

interpretation AddPartitionsToTxnResponseTopic_codec: codec writeAddPartitionsToTxnResponseTopic readAddPartitionsToTxnResponseTopic AddPartitionsToTxnResponseTopic_ok
proof
  fix x :: AddPartitionsToTxnResponseTopic
  assume ok: "AddPartitionsToTxnResponseTopic_ok x"
  have "reads readAddPartitionsToTxnResponseTopic (writeAddPartitionsToTxnResponseTopic x) \<lparr>apst_Topic = apst_Topic x, apst_Partitions = apst_Partitions x\<rparr>"
    unfolding readAddPartitionsToTxnResponseTopic_def writeAddPartitionsToTxnResponseTopic_def
    by (rule reads_intros | use ok in \<open>simp add: AddPartitionsToTxnResponseTopic_ok_def\<close>)+
  then show "reads readAddPartitionsToTxnResponseTopic (writeAddPartitionsToTxnResponseTopic x) x" by (cases x) simp
qed

lemmas AddPartitionsToTxnResponseTopic_reads [reads_intros] = AddPartitionsToTxnResponseTopic_codec.array_dec_enc AddPartitionsToTxnResponseTopic_codec.narray_dec_enc

record AddPartitionsToTxnResponse =
  aprs_Version :: int16
  aprs_ThrottleTimeMs :: int32
  aprs_ErrorCode :: int16
  aprs_Topics :: "AddPartitionsToTxnResponseTopic list"

definition writeAddPartitionsToTxnResponse :: "int16 \<Rightarrow> AddPartitionsToTxnResponse \<Rightarrow> bytes" where
  "writeAddPartitionsToTxnResponse v x =
     wwhen (1 \<le> sint v) (WriteInt32 (aprs_ThrottleTimeMs x))
     @ WriteInt16 (aprs_ErrorCode x)
     @ WriteArrayOf writeAddPartitionsToTxnResponseTopic (aprs_Topics x)"

definition readAddPartitionsToTxnResponse :: "int16 \<Rightarrow> AddPartitionsToTxnResponse rd" where
  "readAddPartitionsToTxnResponse v =
     rbind (rwhen (1 \<le> sint v) ReadInt32 0) (\<lambda>throttleTimeMs.
     rbind ReadInt16 (\<lambda>errorCode.
     rbind (ReadArrayOf readAddPartitionsToTxnResponseTopic) (\<lambda>topics.
     rret \<lparr>aprs_Version = v, aprs_ThrottleTimeMs = throttleTimeMs, aprs_ErrorCode = errorCode, aprs_Topics = topics\<rparr>)))"

definition AddPartitionsToTxnResponse_ok :: "int16 \<Rightarrow> AddPartitionsToTxnResponse \<Rightarrow> bool" where
  "AddPartitionsToTxnResponse_ok v x \<longleftrightarrow> short_list (aprs_Topics x) \<and> (\<forall>y \<in> set (aprs_Topics x). AddPartitionsToTxnResponseTopic_ok y)"

definition AddPartitionsToTxnResponse_wire :: "int16 \<Rightarrow> AddPartitionsToTxnResponse \<Rightarrow> AddPartitionsToTxnResponse" where
  "AddPartitionsToTxnResponse_wire v x =
     \<lparr>aprs_Version = v,
      aprs_ThrottleTimeMs = (if 1 \<le> sint v then (aprs_ThrottleTimeMs x) else 0),
      aprs_ErrorCode = (aprs_ErrorCode x),
      aprs_Topics = (aprs_Topics x)\<rparr>"

interpretation AddPartitionsToTxnResponse_codec: ncodec "writeAddPartitionsToTxnResponse v" "readAddPartitionsToTxnResponse v" "AddPartitionsToTxnResponse_wire v" "AddPartitionsToTxnResponse_ok v" for v
proof
  fix x :: AddPartitionsToTxnResponse
  assume ok: "AddPartitionsToTxnResponse_ok v x"
  show "reads (readAddPartitionsToTxnResponse v) (writeAddPartitionsToTxnResponse v x) (AddPartitionsToTxnResponse_wire v x)"
    unfolding readAddPartitionsToTxnResponse_def writeAddPartitionsToTxnResponse_def AddPartitionsToTxnResponse_wire_def
    by (rule reads_intros | use ok in \<open>simp add: AddPartitionsToTxnResponse_ok_def\<close>)+
qed

definition EncodeAddPartitionsToTxnResponse :: "AddPartitionsToTxnResponse \<Rightarrow> bytes" where
  "EncodeAddPartitionsToTxnResponse x = writeAddPartitionsToTxnResponse (aprs_Version x) x"

definition DecodeAddPartitionsToTxnResponse :: "int16 \<Rightarrow> bytes \<Rightarrow> AddPartitionsToTxnResponse res" where
  "DecodeAddPartitionsToTxnResponse version body = run (readAddPartitionsToTxnResponse version) body"

record AddOffsetsToTxnRequest =
  aorq_Version :: int16
  aorq_TransactionalID :: gostring
  aorq_ProducerID :: int64
  aorq_ProducerEpoch :: int16
  aorq_GroupID :: gostring

definition writeAddOffsetsToTxnRequest :: "int16 \<Rightarrow> AddOffsetsToTxnRequest \<Rightarrow> bytes" where
  "writeAddOffsetsToTxnRequest v x =
     WriteString (aorq_TransactionalID x)
     @ WriteInt64 (aorq_ProducerID x)
     @ WriteInt16 (aorq_ProducerEpoch x)
     @ WriteString (aorq_GroupID x)"

definition readAddOffsetsToTxnRequest :: "int16 \<Rightarrow> AddOffsetsToTxnRequest rd" where
  "readAddOffsetsToTxnRequest v =
     rbind ReadString (\<lambda>transactionalID.
     rbind ReadInt64 (\<lambda>producerID.
     rbind ReadInt16 (\<lambda>producerEpoch.
     rbind ReadString (\<lambda>groupID.
     rret \<lparr>aorq_Version = v, aorq_TransactionalID = transactionalID, aorq_ProducerID = producerID, aorq_ProducerEpoch = producerEpoch, aorq_GroupID = groupID\<rparr>))))"

definition AddOffsetsToTxnRequest_ok :: "int16 \<Rightarrow> AddOffsetsToTxnRequest \<Rightarrow> bool" where
  "AddOffsetsToTxnRequest_ok v x \<longleftrightarrow> short_string (aorq_TransactionalID x)
     \<and> short_string (aorq_GroupID x)"

definition AddOffsetsToTxnRequest_wire :: "int16 \<Rightarrow> AddOffsetsToTxnRequest \<Rightarrow> AddOffsetsToTxnRequest" where
  "AddOffsetsToTxnRequest_wire v x =
     \<lparr>aorq_Version = v,
      aorq_TransactionalID = (aorq_TransactionalID x),
      aorq_ProducerID = (aorq_ProducerID x),
      aorq_ProducerEpoch = (aorq_ProducerEpoch x),
      aorq_GroupID = (aorq_GroupID x)\<rparr>"

interpretation AddOffsetsToTxnRequest_codec: ncodec "writeAddOffsetsToTxnRequest v" "readAddOffsetsToTxnRequest v" "AddOffsetsToTxnRequest_wire v" "AddOffsetsToTxnRequest_ok v" for v
proof
  fix x :: AddOffsetsToTxnRequest
  assume ok: "AddOffsetsToTxnRequest_ok v x"
  show "reads (readAddOffsetsToTxnRequest v) (writeAddOffsetsToTxnRequest v x) (AddOffsetsToTxnRequest_wire v x)"
    unfolding readAddOffsetsToTxnRequest_def writeAddOffsetsToTxnRequest_def AddOffsetsToTxnRequest_wire_def
    by (rule reads_intros | use ok in \<open>simp add: AddOffsetsToTxnRequest_ok_def\<close>)+
qed

definition EncodeAddOffsetsToTxnRequest :: "AddOffsetsToTxnRequest \<Rightarrow> bytes" where
  "EncodeAddOffsetsToTxnRequest x = writeAddOffsetsToTxnRequest (aorq_Version x) x"

definition DecodeAddOffsetsToTxnRequest :: "int16 \<Rightarrow> bytes \<Rightarrow> AddOffsetsToTxnRequest res" where
  "DecodeAddOffsetsToTxnRequest version body = run (readAddOffsetsToTxnRequest version) body"

record AddOffsetsToTxnResponse =
  aors_Version :: int16
  aors_ThrottleTimeMs :: int32
  aors_ErrorCode :: int16

definition writeAddOffsetsToTxnResponse :: "int16 \<Rightarrow> AddOffsetsToTxnResponse \<Rightarrow> bytes" where
  "writeAddOffsetsToTxnResponse v x =
     wwhen (1 \<le> sint v) (WriteInt32 (aors_ThrottleTimeMs x))
     @ WriteInt16 (aors_ErrorCode x)"

definition readAddOffsetsToTxnResponse :: "int16 \<Rightarrow> AddOffsetsToTxnResponse rd" where
  "readAddOffsetsToTxnResponse v =
     rbind (rwhen (1 \<le> sint v) ReadInt32 0) (\<lambda>throttleTimeMs.
     rbind ReadInt16 (\<lambda>errorCode.
     rret \<lparr>aors_Version = v, aors_ThrottleTimeMs = throttleTimeMs, aors_ErrorCode = errorCode\<rparr>))"

definition AddOffsetsToTxnResponse_ok :: "int16 \<Rightarrow> AddOffsetsToTxnResponse \<Rightarrow> bool" where
  "AddOffsetsToTxnResponse_ok v x \<longleftrightarrow> True"

definition AddOffsetsToTxnResponse_wire :: "int16 \<Rightarrow> AddOffsetsToTxnResponse \<Rightarrow> AddOffsetsToTxnResponse" where
  "AddOffsetsToTxnResponse_wire v x =
     \<lparr>aors_Version = v,
      aors_ThrottleTimeMs = (if 1 \<le> sint v then (aors_ThrottleTimeMs x) else 0),
      aors_ErrorCode = (aors_ErrorCode x)\<rparr>"

interpretation AddOffsetsToTxnResponse_codec: ncodec "writeAddOffsetsToTxnResponse v" "readAddOffsetsToTxnResponse v" "AddOffsetsToTxnResponse_wire v" "AddOffsetsToTxnResponse_ok v" for v
proof
  fix x :: AddOffsetsToTxnResponse
  assume ok: "AddOffsetsToTxnResponse_ok v x"
  show "reads (readAddOffsetsToTxnResponse v) (writeAddOffsetsToTxnResponse v x) (AddOffsetsToTxnResponse_wire v x)"
    unfolding readAddOffsetsToTxnResponse_def writeAddOffsetsToTxnResponse_def AddOffsetsToTxnResponse_wire_def
    by (rule reads_intros | use ok in \<open>simp add: AddOffsetsToTxnResponse_ok_def\<close>)+
qed

definition EncodeAddOffsetsToTxnResponse :: "AddOffsetsToTxnResponse \<Rightarrow> bytes" where
  "EncodeAddOffsetsToTxnResponse x = writeAddOffsetsToTxnResponse (aors_Version x) x"

definition DecodeAddOffsetsToTxnResponse :: "int16 \<Rightarrow> bytes \<Rightarrow> AddOffsetsToTxnResponse res" where
  "DecodeAddOffsetsToTxnResponse version body = run (readAddOffsetsToTxnResponse version) body"

record EndTxnRequest =
  etq_Version :: int16
  etq_TransactionalID :: gostring
  etq_ProducerID :: int64
  etq_ProducerEpoch :: int16
  etq_Committed :: bool

definition writeEndTxnRequest :: "int16 \<Rightarrow> EndTxnRequest \<Rightarrow> bytes" where
  "writeEndTxnRequest v x =
     WriteString (etq_TransactionalID x)
     @ WriteInt64 (etq_ProducerID x)
     @ WriteInt16 (etq_ProducerEpoch x)
     @ WriteBool (etq_Committed x)"

definition readEndTxnRequest :: "int16 \<Rightarrow> EndTxnRequest rd" where
  "readEndTxnRequest v =
     rbind ReadString (\<lambda>transactionalID.
     rbind ReadInt64 (\<lambda>producerID.
     rbind ReadInt16 (\<lambda>producerEpoch.
     rbind ReadBool (\<lambda>committed.
     rret \<lparr>etq_Version = v, etq_TransactionalID = transactionalID, etq_ProducerID = producerID, etq_ProducerEpoch = producerEpoch, etq_Committed = committed\<rparr>))))"

definition EndTxnRequest_ok :: "int16 \<Rightarrow> EndTxnRequest \<Rightarrow> bool" where
  "EndTxnRequest_ok v x \<longleftrightarrow> short_string (etq_TransactionalID x)"

definition EndTxnRequest_wire :: "int16 \<Rightarrow> EndTxnRequest \<Rightarrow> EndTxnRequest" where
  "EndTxnRequest_wire v x =
     \<lparr>etq_Version = v,
      etq_TransactionalID = (etq_TransactionalID x),
      etq_ProducerID = (etq_ProducerID x),
      etq_ProducerEpoch = (etq_ProducerEpoch x),
      etq_Committed = (etq_Committed x)\<rparr>"

interpretation EndTxnRequest_codec: ncodec "writeEndTxnRequest v" "readEndTxnRequest v" "EndTxnRequest_wire v" "EndTxnRequest_ok v" for v
proof
  fix x :: EndTxnRequest
  assume ok: "EndTxnRequest_ok v x"
  show "reads (readEndTxnRequest v) (writeEndTxnRequest v x) (EndTxnRequest_wire v x)"
    unfolding readEndTxnRequest_def writeEndTxnRequest_def EndTxnRequest_wire_def
    by (rule reads_intros | use ok in \<open>simp add: EndTxnRequest_ok_def\<close>)+
qed

definition EncodeEndTxnRequest :: "EndTxnRequest \<Rightarrow> bytes" where
  "EncodeEndTxnRequest x = writeEndTxnRequest (etq_Version x) x"

definition DecodeEndTxnRequest :: "int16 \<Rightarrow> bytes \<Rightarrow> EndTxnRequest res" where
  "DecodeEndTxnRequest version body = run (readEndTxnRequest version) body"

record EndTxnResponse =
  ets_Version :: int16
  ets_ThrottleTimeMs :: int32
  ets_ErrorCode :: int16

definition writeEndTxnResponse :: "int16 \<Rightarrow> EndTxnResponse \<Rightarrow> bytes" where
  "writeEndTxnResponse v x =
     wwhen (1 \<le> sint v) (WriteInt32 (ets_ThrottleTimeMs x))
     @ WriteInt16 (ets_ErrorCode x)"

definition readEndTxnResponse :: "int16 \<Rightarrow> EndTxnResponse rd" where
  "readEndTxnResponse v =
     rbind (rwhen (1 \<le> sint v) ReadInt32 0) (\<lambda>throttleTimeMs.
     rbind ReadInt16 (\<lambda>errorCode.
     rret \<lparr>ets_Version = v, ets_ThrottleTimeMs = throttleTimeMs, ets_ErrorCode = errorCode\<rparr>))"

definition EndTxnResponse_ok :: "int16 \<Rightarrow> EndTxnResponse \<Rightarrow> bool" where
  "EndTxnResponse_ok v x \<longleftrightarrow> True"

definition EndTxnResponse_wire :: "int16 \<Rightarrow> EndTxnResponse \<Rightarrow> EndTxnResponse" where
  "EndTxnResponse_wire v x =
     \<lparr>ets_Version = v,
      ets_ThrottleTimeMs = (if 1 \<le> sint v then (ets_ThrottleTimeMs x) else 0),
      ets_ErrorCode = (ets_ErrorCode x)\<rparr>"

interpretation EndTxnResponse_codec: ncodec "writeEndTxnResponse v" "readEndTxnResponse v" "EndTxnResponse_wire v" "EndTxnResponse_ok v" for v
proof
  fix x :: EndTxnResponse
  assume ok: "EndTxnResponse_ok v x"
  show "reads (readEndTxnResponse v) (writeEndTxnResponse v x) (EndTxnResponse_wire v x)"
    unfolding readEndTxnResponse_def writeEndTxnResponse_def EndTxnResponse_wire_def
    by (rule reads_intros | use ok in \<open>simp add: EndTxnResponse_ok_def\<close>)+
qed

definition EncodeEndTxnResponse :: "EndTxnResponse \<Rightarrow> bytes" where
  "EncodeEndTxnResponse x = writeEndTxnResponse (ets_Version x) x"

definition DecodeEndTxnResponse :: "int16 \<Rightarrow> bytes \<Rightarrow> EndTxnResponse res" where
  "DecodeEndTxnResponse version body = run (readEndTxnResponse version) body"

subsection \<open>What a client encodes is what the broker decodes\<close>

text \<open>
  CreateTopics and DeleteTopics requests survive encoding and decoding at every version and
  their responses at every version the broker speaks, up to the fields that version does not carry; a nil
  replica list arrives as an empty one.
\<close>

theorem topics_roundtrip:
  assumes "CreateTopicsRequest_ok (crq_Version create) create" and "length (EncodeCreateTopicsRequest create) < 2 ^ 63"
    and "CreateTopicsResponse_ok (crs_Version created) created" and "length (EncodeCreateTopicsResponse created) < 2 ^ 63"
    and "DeleteTopicsRequest_ok (drq_Version delete) delete" and "length (EncodeDeleteTopicsRequest delete) < 2 ^ 63"
    and "DeleteTopicsResponse_ok (drs_Version deleted) deleted" and "length (EncodeDeleteTopicsResponse deleted) < 2 ^ 63"
  shows "DecodeCreateTopicsRequest (crq_Version create) (EncodeCreateTopicsRequest create) = Inr (CreateTopicsRequest_wire (crq_Version create) create)
    \<and> DecodeCreateTopicsResponse (crs_Version created) (EncodeCreateTopicsResponse created) = Inr (CreateTopicsResponse_wire (crs_Version created) created)
    \<and> DecodeDeleteTopicsRequest (drq_Version delete) (EncodeDeleteTopicsRequest delete) = Inr (DeleteTopicsRequest_wire (drq_Version delete) delete)
    \<and> DecodeDeleteTopicsResponse (drs_Version deleted) (EncodeDeleteTopicsResponse deleted) = Inr (DeleteTopicsResponse_wire (drs_Version deleted) deleted)"
  using assms CreateTopicsRequest_codec.decode_encode [of "crq_Version create" create "[]"]
    CreateTopicsResponse_codec.decode_encode [of "crs_Version created" created "[]"]
    DeleteTopicsRequest_codec.decode_encode [of "drq_Version delete" delete "[]"]
    DeleteTopicsResponse_codec.decode_encode [of "drs_Version deleted" deleted "[]"]
  by (simp add: EncodeCreateTopicsRequest_def DecodeCreateTopicsRequest_def EncodeCreateTopicsResponse_def DecodeCreateTopicsResponse_def EncodeDeleteTopicsRequest_def DecodeDeleteTopicsRequest_def EncodeDeleteTopicsResponse_def DecodeDeleteTopicsResponse_def)

definition sample_create :: CreateTopicsRequest where
  "sample_create = \<lparr>crq_Version = 4, crq_Topics = [\<lparr>crt_Topic = [116], crt_NumPartitions = 3, crt_ReplicationFactor = 1,
     crt_ReplicaAssignment = [\<lparr>cra_Partition = 0, cra_Replicas = Some [1]\<rparr>],
     crt_Configs = [\<lparr>ctc_Name = [99], ctc_Value = None\<rparr>]\<rparr>], crq_TimeoutMs = 1000, crq_ValidateOnly = False\<rparr>"

definition sample_created :: CreateTopicsResponse where
  "sample_created = \<lparr>crs_Version = 4, crs_ThrottleTimeMs = 0,
     crs_Topics = [\<lparr>cst_Topic = [116], cst_ErrorCode = 36, cst_ErrorMessage = Some [101]\<rparr>]\<rparr>"

definition sample_delete :: DeleteTopicsRequest where
  "sample_delete = \<lparr>drq_Version = 3, drq_TopicNames = [[116], [117]], drq_TimeoutMs = 1000\<rparr>"

definition sample_deleted :: DeleteTopicsResponse where
  "sample_deleted = \<lparr>drs_Version = 3, drs_ThrottleTimeMs = 0,
     drs_Topics = [\<lparr>dst_Name = [116], dst_ErrorCode = 3, dst_ErrorMessage = None\<rparr>]\<rparr>"

theorem topics_roundtrip_witness:
  "DecodeCreateTopicsRequest (crq_Version sample_create) (EncodeCreateTopicsRequest sample_create) = Inr sample_create
    \<and> DecodeCreateTopicsResponse (crs_Version sample_created) (EncodeCreateTopicsResponse sample_created) = Inr sample_created
    \<and> DecodeDeleteTopicsRequest (drq_Version sample_delete) (EncodeDeleteTopicsRequest sample_delete) = Inr sample_delete
    \<and> DecodeDeleteTopicsResponse (drs_Version sample_deleted) (EncodeDeleteTopicsResponse sample_deleted) = Inr sample_deleted"
proof -
  have "CreateTopicsRequest_ok (crq_Version sample_create) sample_create" and "length (EncodeCreateTopicsRequest sample_create) < 2 ^ 63"
    by (simp_all add: sample_create_def wire_shorts EncodeCreateTopicsRequest_def CreateTopicsRequest_ok_def CreateTopicsRequestTopic_ok_def CreateTopicsReplicaAssignment_ok_def CreateTopicsConfig_ok_def
        writeCreateTopicsRequest_def writeCreateTopicsRequestTopic_def writeCreateTopicsReplicaAssignment_def writeCreateTopicsConfig_def wire_sizes)
  note create_hyps = this
  have "CreateTopicsResponse_ok (crs_Version sample_created) sample_created" and "length (EncodeCreateTopicsResponse sample_created) < 2 ^ 63"
    by (simp_all add: sample_created_def wire_shorts EncodeCreateTopicsResponse_def CreateTopicsResponse_ok_def CreateTopicsResponseTopic_ok_def
        writeCreateTopicsResponse_def writeCreateTopicsResponseTopic_def wire_sizes)
  note created_hyps = this
  have "DeleteTopicsRequest_ok (drq_Version sample_delete) sample_delete" and "length (EncodeDeleteTopicsRequest sample_delete) < 2 ^ 63"
    by (simp_all add: sample_delete_def wire_shorts EncodeDeleteTopicsRequest_def DeleteTopicsRequest_ok_def
        writeDeleteTopicsRequest_def wire_sizes)
  note delete_hyps = this
  have "DeleteTopicsResponse_ok (drs_Version sample_deleted) sample_deleted" and "length (EncodeDeleteTopicsResponse sample_deleted) < 2 ^ 63"
    by (simp_all add: sample_deleted_def wire_shorts EncodeDeleteTopicsResponse_def DeleteTopicsResponse_ok_def DeleteTopicsResponseTopic_ok_def
        writeDeleteTopicsResponse_def writeDeleteTopicsResponseTopic_def wire_sizes)
  note deleted_hyps = this
  show ?thesis
    using topics_roundtrip [OF create_hyps created_hyps delete_hyps deleted_hyps]
    by (simp add: sample_create_def sample_created_def sample_delete_def sample_deleted_def
        CreateTopicsRequest_wire_def CreateTopicsRequestTopic_wire_def CreateTopicsReplicaAssignment_wire_def CreateTopicsResponse_wire_def CreateTopicsResponseTopic_wire_def DeleteTopicsRequest_wire_def DeleteTopicsResponse_wire_def DeleteTopicsResponseTopic_wire_def obytes_def)
qed

end
