(* ===== verification/Messages_Group.thy ===== *)
theory Messages_Group
  imports Wire
begin

text \<open>
  The consumer-group messages (\<^verbatim>\<open>group.go\<close>, \<^verbatim>\<open>group_admin.go\<close> and \<^verbatim>\<open>client_group.go\<close> of
  \<^verbatim>\<open>src/pkg/protocol\<close>): FindCoordinator, JoinGroup, SyncGroup, Heartbeat, LeaveGroup,
  OffsetCommit, OffsetFetch, ListGroups, DescribeGroups and DeleteGroups.  The scheme is that
  of the data-path messages.  LeaveGroup has no client side in the sources.
\<close>

subsection \<open>FindCoordinator\<close>

record FindCoordinatorRequest =
  fcq_Version :: int16
  fcq_Key :: gostring
  fcq_KeyType :: int8

definition writeFindCoordinatorRequest :: "int16 \<Rightarrow> FindCoordinatorRequest \<Rightarrow> bytes" where
  "writeFindCoordinatorRequest v x =
     WriteString (fcq_Key x)
     @ wwhen (1 \<le> sint v) (WriteInt8 (fcq_KeyType x))"

definition readFindCoordinatorRequest :: "int16 \<Rightarrow> FindCoordinatorRequest rd" where
  "readFindCoordinatorRequest v =
     rbind ReadString (\<lambda>key.
     rbind (rwhen (1 \<le> sint v) ReadInt8 0) (\<lambda>keyType.
     rret \<lparr>fcq_Version = v, fcq_Key = key, fcq_KeyType = keyType\<rparr>))"

definition FindCoordinatorRequest_ok :: "int16 \<Rightarrow> FindCoordinatorRequest \<Rightarrow> bool" where
  "FindCoordinatorRequest_ok v x \<longleftrightarrow> short_string (fcq_Key x)"

definition FindCoordinatorRequest_wire :: "int16 \<Rightarrow> FindCoordinatorRequest \<Rightarrow> FindCoordinatorRequest" where
  "FindCoordinatorRequest_wire v x =
     \<lparr>fcq_Version = v,
      fcq_Key = (fcq_Key x),
      fcq_KeyType = (if 1 \<le> sint v then (fcq_KeyType x) else 0)\<rparr>"

interpretation FindCoordinatorRequest_codec: ncodec "writeFindCoordinatorRequest v" "readFindCoordinatorRequest v" "FindCoordinatorRequest_wire v" "FindCoordinatorRequest_ok v" for v
proof
  fix x :: FindCoordinatorRequest
  assume ok: "FindCoordinatorRequest_ok v x"
  show "reads (readFindCoordinatorRequest v) (writeFindCoordinatorRequest v x) (FindCoordinatorRequest_wire v x)"
    unfolding readFindCoordinatorRequest_def writeFindCoordinatorRequest_def FindCoordinatorRequest_wire_def
    by (rule reads_intros | use ok in \<open>simp add: FindCoordinatorRequest_ok_def\<close>)+
qed

definition EncodeFindCoordinatorRequest :: "FindCoordinatorRequest \<Rightarrow> bytes" where
  "EncodeFindCoordinatorRequest x = writeFindCoordinatorRequest (fcq_Version x) x"

definition DecodeFindCoordinatorRequest :: "int16 \<Rightarrow> bytes \<Rightarrow> FindCoordinatorRequest res" where
  "DecodeFindCoordinatorRequest version body = run (readFindCoordinatorRequest version) body"

record FindCoordinatorResponse =
  fcs_Version :: int16
  fcs_ThrottleTimeMs :: int32
  fcs_ErrorCode :: int16
  fcs_ErrorMessage :: "gostring option"
  fcs_NodeID :: int32
  fcs_Host :: gostring
  fcs_Port :: int32

definition writeFindCoordinatorResponse :: "int16 \<Rightarrow> FindCoordinatorResponse \<Rightarrow> bytes" where
  "writeFindCoordinatorResponse v x =
     wwhen (1 \<le> sint v) (WriteInt32 (fcs_ThrottleTimeMs x))
     @ WriteInt16 (fcs_ErrorCode x)
     @ wwhen (1 \<le> sint v) (WriteNullableString (fcs_ErrorMessage x))
     @ WriteInt32 (fcs_NodeID x)
     @ WriteString (fcs_Host x)
     @ WriteInt32 (fcs_Port x)"

definition readFindCoordinatorResponse :: "int16 \<Rightarrow> FindCoordinatorResponse rd" where
  "readFindCoordinatorResponse v =
     rbind (rwhen (1 \<le> sint v) ReadInt32 0) (\<lambda>throttleTimeMs.
     rbind ReadInt16 (\<lambda>errorCode.
     rbind (rwhen (1 \<le> sint v) ReadNullableString None) (\<lambda>errorMessage.
     rbind ReadInt32 (\<lambda>nodeID.
     rbind ReadString (\<lambda>host.
     rbind ReadInt32 (\<lambda>port.
     rret \<lparr>fcs_Version = v, fcs_ThrottleTimeMs = throttleTimeMs, fcs_ErrorCode = errorCode, fcs_ErrorMessage = errorMessage, fcs_NodeID = nodeID, fcs_Host = host, fcs_Port = port\<rparr>))))))"

definition FindCoordinatorResponse_ok :: "int16 \<Rightarrow> FindCoordinatorResponse \<Rightarrow> bool" where
  "FindCoordinatorResponse_ok v x \<longleftrightarrow> (1 \<le> sint v \<longrightarrow> short_nstring (fcs_ErrorMessage x))
     \<and> short_string (fcs_Host x)"

definition FindCoordinatorResponse_wire :: "int16 \<Rightarrow> FindCoordinatorResponse \<Rightarrow> FindCoordinatorResponse" where
  "FindCoordinatorResponse_wire v x =
     \<lparr>fcs_Version = v,
      fcs_ThrottleTimeMs = (if 1 \<le> sint v then (fcs_ThrottleTimeMs x) else 0),
      fcs_ErrorCode = (fcs_ErrorCode x),
      fcs_ErrorMessage = (if 1 \<le> sint v then (fcs_ErrorMessage x) else None),
      fcs_NodeID = (fcs_NodeID x),
      fcs_Host = (fcs_Host x),
      fcs_Port = (fcs_Port x)\<rparr>"

interpretation FindCoordinatorResponse_codec: ncodec "writeFindCoordinatorResponse v" "readFindCoordinatorResponse v" "FindCoordinatorResponse_wire v" "FindCoordinatorResponse_ok v" for v
proof
  fix x :: FindCoordinatorResponse
  assume ok: "FindCoordinatorResponse_ok v x"
  show "reads (readFindCoordinatorResponse v) (writeFindCoordinatorResponse v x) (FindCoordinatorResponse_wire v x)"
    unfolding readFindCoordinatorResponse_def writeFindCoordinatorResponse_def FindCoordinatorResponse_wire_def
    by (rule reads_intros | use ok in \<open>simp add: FindCoordinatorResponse_ok_def\<close>)+
qed

definition EncodeFindCoordinatorResponse :: "FindCoordinatorResponse \<Rightarrow> bytes" where
  "EncodeFindCoordinatorResponse x = writeFindCoordinatorResponse (fcs_Version x) x"

definition DecodeFindCoordinatorResponse :: "int16 \<Rightarrow> bytes \<Rightarrow> FindCoordinatorResponse res" where
  "DecodeFindCoordinatorResponse version body = run (readFindCoordinatorResponse version) body"

subsection \<open>JoinGroup\<close>

record JoinGroupRequestProtocol =
  jrp_Name :: gostring
  jrp_Metadata :: "bytes option"

definition writeJoinGroupRequestProtocol :: "JoinGroupRequestProtocol \<Rightarrow> bytes" where
  "writeJoinGroupRequestProtocol x =
     WriteString (jrp_Name x)
     @ WriteBytes (jrp_Metadata x)"

definition readJoinGroupRequestProtocol :: "JoinGroupRequestProtocol rd" where
  "readJoinGroupRequestProtocol =
     rbind ReadString (\<lambda>name.
     rbind ReadBytes (\<lambda>metadata.
     rret \<lparr>jrp_Name = name, jrp_Metadata = metadata\<rparr>))"

definition JoinGroupRequestProtocol_ok :: "JoinGroupRequestProtocol \<Rightarrow> bool" where
  "JoinGroupRequestProtocol_ok x \<longleftrightarrow> short_string (jrp_Name x)
     \<and> short_bytes (jrp_Metadata x)"

interpretation JoinGroupRequestProtocol_codec: codec writeJoinGroupRequestProtocol readJoinGroupRequestProtocol JoinGroupRequestProtocol_ok
proof
  fix x :: JoinGroupRequestProtocol
  assume ok: "JoinGroupRequestProtocol_ok x"
  have "reads readJoinGroupRequestProtocol (writeJoinGroupRequestProtocol x) \<lparr>jrp_Name = jrp_Name x, jrp_Metadata = jrp_Metadata x\<rparr>"
    unfolding readJoinGroupRequestProtocol_def writeJoinGroupRequestProtocol_def
    by (rule reads_intros | use ok in \<open>simp add: JoinGroupRequestProtocol_ok_def\<close>)+
  then show "reads readJoinGroupRequestProtocol (writeJoinGroupRequestProtocol x) x" by (cases x) simp
qed

lemmas JoinGroupRequestProtocol_reads [reads_intros] = JoinGroupRequestProtocol_codec.array_dec_enc JoinGroupRequestProtocol_codec.narray_dec_enc

record JoinGroupRequest =
  jgq_Version :: int16
  jgq_Group :: gostring
  jgq_SessionTimeoutMs :: int32
  jgq_RebalanceTimeoutMs :: int32
  jgq_MemberID :: gostring
  jgq_InstanceID :: "gostring option"
  jgq_ProtocolType :: gostring
  jgq_Protocols :: "JoinGroupRequestProtocol list"

definition writeJoinGroupRequest :: "int16 \<Rightarrow> JoinGroupRequest \<Rightarrow> bytes" where
  "writeJoinGroupRequest v x =
     WriteString (jgq_Group x)
     @ WriteInt32 (jgq_SessionTimeoutMs x)
     @ wwhen (1 \<le> sint v) (WriteInt32 (jgq_RebalanceTimeoutMs x))
     @ WriteString (jgq_MemberID x)
     @ wwhen (5 \<le> sint v) (WriteNullableString (jgq_InstanceID x))
     @ WriteString (jgq_ProtocolType x)
     @ WriteArrayOf writeJoinGroupRequestProtocol (jgq_Protocols x)"

definition readJoinGroupRequest :: "int16 \<Rightarrow> JoinGroupRequest rd" where
  "readJoinGroupRequest v =
     rbind ReadString (\<lambda>group.
     rbind ReadInt32 (\<lambda>sessionTimeoutMs.
     rbind (rwhen (1 \<le> sint v) ReadInt32 sessionTimeoutMs) (\<lambda>rebalanceTimeoutMs.
     rbind ReadString (\<lambda>memberID.
     rbind (rwhen (5 \<le> sint v) ReadNullableString None) (\<lambda>instanceID.
     rbind ReadString (\<lambda>protocolType.
     rbind (ReadArrayOf readJoinGroupRequestProtocol) (\<lambda>protocols.
     rret \<lparr>jgq_Version = v, jgq_Group = group, jgq_SessionTimeoutMs = sessionTimeoutMs, jgq_RebalanceTimeoutMs = rebalanceTimeoutMs, jgq_MemberID = memberID, jgq_InstanceID = instanceID, jgq_ProtocolType = protocolType, jgq_Protocols = protocols\<rparr>)))))))"

definition JoinGroupRequest_ok :: "int16 \<Rightarrow> JoinGroupRequest \<Rightarrow> bool" where
  "JoinGroupRequest_ok v x \<longleftrightarrow> short_string (jgq_Group x)
     \<and> short_string (jgq_MemberID x)
     \<and> (5 \<le> sint v \<longrightarrow> short_nstring (jgq_InstanceID x))
     \<and> short_string (jgq_ProtocolType x)
     \<and> short_list (jgq_Protocols x) \<and> (\<forall>y \<in> set (jgq_Protocols x). JoinGroupRequestProtocol_ok y)"

definition JoinGroupRequest_wire :: "int16 \<Rightarrow> JoinGroupRequest \<Rightarrow> JoinGroupRequest" where
  "JoinGroupRequest_wire v x =
     \<lparr>jgq_Version = v,
      jgq_Group = (jgq_Group x),
      jgq_SessionTimeoutMs = (jgq_SessionTimeoutMs x),
      jgq_RebalanceTimeoutMs = (if 1 \<le> sint v then (jgq_RebalanceTimeoutMs x) else jgq_SessionTimeoutMs x),
      jgq_MemberID = (jgq_MemberID x),
      jgq_InstanceID = (if 5 \<le> sint v then (jgq_InstanceID x) else None),
      jgq_ProtocolType = (jgq_ProtocolType x),
      jgq_Protocols = (jgq_Protocols x)\<rparr>"

interpretation JoinGroupRequest_codec: ncodec "writeJoinGroupRequest v" "readJoinGroupRequest v" "JoinGroupRequest_wire v" "JoinGroupRequest_ok v" for v
proof
  fix x :: JoinGroupRequest
  assume ok: "JoinGroupRequest_ok v x"
  show "reads (readJoinGroupRequest v) (writeJoinGroupRequest v x) (JoinGroupRequest_wire v x)"
    unfolding readJoinGroupRequest_def writeJoinGroupRequest_def JoinGroupRequest_wire_def
    by (rule reads_intros | use ok in \<open>simp add: JoinGroupRequest_ok_def\<close>)+
qed

definition EncodeJoinGroupRequest :: "JoinGroupRequest \<Rightarrow> bytes" where
  "EncodeJoinGroupRequest x = writeJoinGroupRequest (jgq_Version x) x"

definition DecodeJoinGroupRequest :: "int16 \<Rightarrow> bytes \<Rightarrow> JoinGroupRequest res" where
  "DecodeJoinGroupRequest version body = run (readJoinGroupRequest version) body"

record JoinGroupResponseMember =
  jsm_MemberID :: gostring
  jsm_InstanceID :: "gostring option"
  jsm_Metadata :: "bytes option"

definition writeJoinGroupResponseMember :: "int16 \<Rightarrow> JoinGroupResponseMember \<Rightarrow> bytes" where
  "writeJoinGroupResponseMember v x =
     WriteString (jsm_MemberID x)
     @ wwhen (5 \<le> sint v) (WriteNullableString (jsm_InstanceID x))
     @ WriteBytesOrEmpty (jsm_Metadata x)"

definition readJoinGroupResponseMember :: "int16 \<Rightarrow> JoinGroupResponseMember rd" where
  "readJoinGroupResponseMember v =
     rbind ReadString (\<lambda>memberID.
     rbind (rwhen (5 \<le> sint v) ReadNullableString None) (\<lambda>instanceID.
     rbind ReadBytes (\<lambda>metadata.
     rret \<lparr>jsm_MemberID = memberID, jsm_InstanceID = instanceID, jsm_Metadata = metadata\<rparr>)))"

definition JoinGroupResponseMember_ok :: "int16 \<Rightarrow> JoinGroupResponseMember \<Rightarrow> bool" where
  "JoinGroupResponseMember_ok v x \<longleftrightarrow> short_string (jsm_MemberID x)
     \<and> (5 \<le> sint v \<longrightarrow> short_nstring (jsm_InstanceID x))
     \<and> short_bytes (jsm_Metadata x)"

definition JoinGroupResponseMember_wire :: "int16 \<Rightarrow> JoinGroupResponseMember \<Rightarrow> JoinGroupResponseMember" where
  "JoinGroupResponseMember_wire v x =
     \<lparr>jsm_MemberID = (jsm_MemberID x),
      jsm_InstanceID = (if 5 \<le> sint v then (jsm_InstanceID x) else None),
      jsm_Metadata = Some (obytes (jsm_Metadata x))\<rparr>"

interpretation JoinGroupResponseMember_codec: ncodec "writeJoinGroupResponseMember v" "readJoinGroupResponseMember v" "JoinGroupResponseMember_wire v" "JoinGroupResponseMember_ok v" for v
proof
  fix x :: JoinGroupResponseMember
  assume ok: "JoinGroupResponseMember_ok v x"
  show "reads (readJoinGroupResponseMember v) (writeJoinGroupResponseMember v x) (JoinGroupResponseMember_wire v x)"
    unfolding readJoinGroupResponseMember_def writeJoinGroupResponseMember_def JoinGroupResponseMember_wire_def
    by (rule reads_intros | use ok in \<open>simp add: JoinGroupResponseMember_ok_def\<close>)+
qed

lemmas JoinGroupResponseMember_reads [reads_intros] = JoinGroupResponseMember_codec.array_dec_norm JoinGroupResponseMember_codec.narray_dec_norm

text \<open>The protocol name, preceded by a null protocol type from version 7 on.\<close>

definition writeProtocolName :: "int16 \<Rightarrow> gostring \<Rightarrow> bytes" where
  "writeProtocolName v p =
     (if 7 \<le> sint v then WriteNullableString None @ WriteNullableString (Some p) else WriteString p)"

definition readProtocolName :: "int16 \<Rightarrow> gostring rd" where
  "readProtocolName v =
     (if 7 \<le> sint v then rbind ReadNullableString (\<lambda>_. rbind ReadNullableString (\<lambda>pn.
        rret (case pn of None \<Rightarrow> [] | Some p \<Rightarrow> p)))
      else ReadString)"

lemma reads_ProtocolName [reads_intros]:
  assumes "short_string p"
  shows "reads (readProtocolName v) (writeProtocolName v p) p"
proof (cases "7 \<le> sint v")
  case True
  have "reads (rbind ReadNullableString (\<lambda>_. rbind ReadNullableString (\<lambda>pn.
        rret (case pn of None \<Rightarrow> [] | Some p \<Rightarrow> p))))
      (WriteNullableString None @ WriteNullableString (Some p)) (case Some p of None \<Rightarrow> [] | Some p \<Rightarrow> p)"
    by (rule reads_intros | use assms in \<open>simp add: short_nstring_def\<close>)+
  with True show ?thesis by (simp add: readProtocolName_def writeProtocolName_def)
qed (simp add: readProtocolName_def writeProtocolName_def string_codec.dec_enc assms)

record JoinGroupResponse =
  jgs_Version :: int16
  jgs_ThrottleTimeMs :: int32
  jgs_ErrorCode :: int16
  jgs_GenerationID :: int32
  jgs_ProtocolName :: gostring
  jgs_LeaderID :: gostring
  jgs_MemberID :: gostring
  jgs_Members :: "JoinGroupResponseMember list"

definition writeJoinGroupResponse :: "int16 \<Rightarrow> JoinGroupResponse \<Rightarrow> bytes" where
  "writeJoinGroupResponse v x =
     wwhen (2 \<le> sint v) (WriteInt32 (jgs_ThrottleTimeMs x))
     @ WriteInt16 (jgs_ErrorCode x)
     @ WriteInt32 (jgs_GenerationID x)
     @ writeProtocolName v (jgs_ProtocolName x)
     @ WriteString (jgs_LeaderID x)
     @ WriteString (jgs_MemberID x)
     @ WriteArrayOf (writeJoinGroupResponseMember v) (jgs_Members x)"

definition readJoinGroupResponse :: "int16 \<Rightarrow> JoinGroupResponse rd" where
  "readJoinGroupResponse v =
     rbind (rwhen (2 \<le> sint v) ReadInt32 0) (\<lambda>throttleTimeMs.
     rbind ReadInt16 (\<lambda>errorCode.
     rbind ReadInt32 (\<lambda>generationID.
     rbind (readProtocolName v) (\<lambda>protocolName.
     rbind ReadString (\<lambda>leaderID.
     rbind ReadString (\<lambda>memberID.
     rbind (ReadArrayOf (readJoinGroupResponseMember v)) (\<lambda>members.
     rret \<lparr>jgs_Version = v, jgs_ThrottleTimeMs = throttleTimeMs, jgs_ErrorCode = errorCode, jgs_GenerationID = generationID, jgs_ProtocolName = protocolName, jgs_LeaderID = leaderID, jgs_MemberID = memberID, jgs_Members = members\<rparr>)))))))"

definition JoinGroupResponse_ok :: "int16 \<Rightarrow> JoinGroupResponse \<Rightarrow> bool" where
  "JoinGroupResponse_ok v x \<longleftrightarrow> short_string (jgs_ProtocolName x)
     \<and> short_string (jgs_LeaderID x)
     \<and> short_string (jgs_MemberID x)
     \<and> short_list (jgs_Members x) \<and> (\<forall>y \<in> set (jgs_Members x). JoinGroupResponseMember_ok v y)"

definition JoinGroupResponse_wire :: "int16 \<Rightarrow> JoinGroupResponse \<Rightarrow> JoinGroupResponse" where
  "JoinGroupResponse_wire v x =
     \<lparr>jgs_Version = v,
      jgs_ThrottleTimeMs = (if 2 \<le> sint v then (jgs_ThrottleTimeMs x) else 0),
      jgs_ErrorCode = (jgs_ErrorCode x),
      jgs_GenerationID = (jgs_GenerationID x),
      jgs_ProtocolName = (jgs_ProtocolName x),
      jgs_LeaderID = (jgs_LeaderID x),
      jgs_MemberID = (jgs_MemberID x),
      jgs_Members = map (JoinGroupResponseMember_wire v) (jgs_Members x)\<rparr>"

interpretation JoinGroupResponse_codec: ncodec "writeJoinGroupResponse v" "readJoinGroupResponse v" "JoinGroupResponse_wire v" "JoinGroupResponse_ok v" for v
proof
  fix x :: JoinGroupResponse
  assume ok: "JoinGroupResponse_ok v x"
  show "reads (readJoinGroupResponse v) (writeJoinGroupResponse v x) (JoinGroupResponse_wire v x)"
    unfolding readJoinGroupResponse_def writeJoinGroupResponse_def JoinGroupResponse_wire_def
    by (rule reads_intros | use ok in \<open>simp add: JoinGroupResponse_ok_def\<close>)+
qed

definition EncodeJoinGroupResponse :: "JoinGroupResponse \<Rightarrow> bytes" where
  "EncodeJoinGroupResponse x = writeJoinGroupResponse (jgs_Version x) x"

definition DecodeJoinGroupResponse :: "int16 \<Rightarrow> bytes \<Rightarrow> JoinGroupResponse res" where
  "DecodeJoinGroupResponse version body = run (readJoinGroupResponse version) body"

subsection \<open>SyncGroup, Heartbeat and LeaveGroup\<close>

record SyncGroupRequestAssignment =
  sra_MemberID :: gostring
  sra_Assignment :: "bytes option"

definition writeSyncGroupRequestAssignment :: "SyncGroupRequestAssignment \<Rightarrow> bytes" where
  "writeSyncGroupRequestAssignment x =
     WriteString (sra_MemberID x)
     @ WriteBytes (sra_Assignment x)"

definition readSyncGroupRequestAssignment :: "SyncGroupRequestAssignment rd" where
  "readSyncGroupRequestAssignment =
     rbind ReadString (\<lambda>memberID.
     rbind ReadBytes (\<lambda>assignment.
     rret \<lparr>sra_MemberID = memberID, sra_Assignment = assignment\<rparr>))"

definition SyncGroupRequestAssignment_ok :: "SyncGroupRequestAssignment \<Rightarrow> bool" where
  "SyncGroupRequestAssignment_ok x \<longleftrightarrow> short_string (sra_MemberID x)
     \<and> short_bytes (sra_Assignment x)"

interpretation SyncGroupRequestAssignment_codec: codec writeSyncGroupRequestAssignment readSyncGroupRequestAssignment SyncGroupRequestAssignment_ok
proof
  fix x :: SyncGroupRequestAssignment
  assume ok: "SyncGroupRequestAssignment_ok x"
  have "reads readSyncGroupRequestAssignment (writeSyncGroupRequestAssignment x) \<lparr>sra_MemberID = sra_MemberID x, sra_Assignment = sra_Assignment x\<rparr>"
    unfolding readSyncGroupRequestAssignment_def writeSyncGroupRequestAssignment_def
    by (rule reads_intros | use ok in \<open>simp add: SyncGroupRequestAssignment_ok_def\<close>)+
  then show "reads readSyncGroupRequestAssignment (writeSyncGroupRequestAssignment x) x" by (cases x) simp
qed

lemmas SyncGroupRequestAssignment_reads [reads_intros] = SyncGroupRequestAssignment_codec.array_dec_enc SyncGroupRequestAssignment_codec.narray_dec_enc

record SyncGroupRequest =
  sgq_Version :: int16
  sgq_Group :: gostring
  sgq_GenerationID :: int32
  sgq_MemberID :: gostring
  sgq_InstanceID :: "gostring option"
  sgq_Assignments :: "SyncGroupRequestAssignment list"

definition writeSyncGroupRequest :: "int16 \<Rightarrow> SyncGroupRequest \<Rightarrow> bytes" where
  "writeSyncGroupRequest v x =
     WriteString (sgq_Group x)
     @ WriteInt32 (sgq_GenerationID x)
     @ WriteString (sgq_MemberID x)
     @ wwhen (3 \<le> sint v) (WriteNullableString (sgq_InstanceID x))
     @ wwhen (5 \<le> sint v) (WriteNullableString None)
     @ wwhen (5 \<le> sint v) (WriteNullableString None)
     @ WriteArrayOf writeSyncGroupRequestAssignment (sgq_Assignments x)"

definition readSyncGroupRequest :: "int16 \<Rightarrow> SyncGroupRequest rd" where
  "readSyncGroupRequest v =
     rbind ReadString (\<lambda>group.
     rbind ReadInt32 (\<lambda>generationID.
     rbind ReadString (\<lambda>memberID.
     rbind (rwhen (3 \<le> sint v) ReadNullableString None) (\<lambda>instanceID.
     rbind (rwhen (5 \<le> sint v) ReadNullableString None) (\<lambda>_.
     rbind (rwhen (5 \<le> sint v) ReadNullableString None) (\<lambda>_.
     rbind (ReadArrayOf readSyncGroupRequestAssignment) (\<lambda>assignments.
     rret \<lparr>sgq_Version = v, sgq_Group = group, sgq_GenerationID = generationID, sgq_MemberID = memberID, sgq_InstanceID = instanceID, sgq_Assignments = assignments\<rparr>)))))))"

definition SyncGroupRequest_ok :: "int16 \<Rightarrow> SyncGroupRequest \<Rightarrow> bool" where
  "SyncGroupRequest_ok v x \<longleftrightarrow> short_string (sgq_Group x)
     \<and> short_string (sgq_MemberID x)
     \<and> (3 \<le> sint v \<longrightarrow> short_nstring (sgq_InstanceID x))
     \<and> short_list (sgq_Assignments x) \<and> (\<forall>y \<in> set (sgq_Assignments x). SyncGroupRequestAssignment_ok y)"

definition SyncGroupRequest_wire :: "int16 \<Rightarrow> SyncGroupRequest \<Rightarrow> SyncGroupRequest" where
  "SyncGroupRequest_wire v x =
     \<lparr>sgq_Version = v,
      sgq_Group = (sgq_Group x),
      sgq_GenerationID = (sgq_GenerationID x),
      sgq_MemberID = (sgq_MemberID x),
      sgq_InstanceID = (if 3 \<le> sint v then (sgq_InstanceID x) else None),
      sgq_Assignments = (sgq_Assignments x)\<rparr>"

interpretation SyncGroupRequest_codec: ncodec "writeSyncGroupRequest v" "readSyncGroupRequest v" "SyncGroupRequest_wire v" "SyncGroupRequest_ok v" for v
proof
  fix x :: SyncGroupRequest
  assume ok: "SyncGroupRequest_ok v x"
  show "reads (readSyncGroupRequest v) (writeSyncGroupRequest v x) (SyncGroupRequest_wire v x)"
    unfolding readSyncGroupRequest_def writeSyncGroupRequest_def SyncGroupRequest_wire_def
    by (rule reads_intros | use ok in \<open>simp add: SyncGroupRequest_ok_def\<close>)+
qed

definition EncodeSyncGroupRequest :: "SyncGroupRequest \<Rightarrow> bytes" where
  "EncodeSyncGroupRequest x = writeSyncGroupRequest (sgq_Version x) x"

definition DecodeSyncGroupRequest :: "int16 \<Rightarrow> bytes \<Rightarrow> SyncGroupRequest res" where
  "DecodeSyncGroupRequest version body = run (readSyncGroupRequest version) body"

record SyncGroupResponse =
  sgs_Version :: int16
  sgs_ThrottleTimeMs :: int32
  sgs_ErrorCode :: int16
  sgs_Assignment :: "bytes option"

definition writeSyncGroupResponse :: "int16 \<Rightarrow> SyncGroupResponse \<Rightarrow> bytes" where
  "writeSyncGroupResponse v x =
     wwhen (1 \<le> sint v) (WriteInt32 (sgs_ThrottleTimeMs x))
     @ WriteInt16 (sgs_ErrorCode x)
     @ wwhen (5 \<le> sint v) (WriteNullableString None)
     @ wwhen (5 \<le> sint v) (WriteNullableString None)
     @ WriteBytesOrEmpty (sgs_Assignment x)"

definition readSyncGroupResponse :: "int16 \<Rightarrow> SyncGroupResponse rd" where
  "readSyncGroupResponse v =
     rbind (rwhen (1 \<le> sint v) ReadInt32 0) (\<lambda>throttleTimeMs.
     rbind ReadInt16 (\<lambda>errorCode.
     rbind (rwhen (5 \<le> sint v) ReadNullableString None) (\<lambda>_.
     rbind (rwhen (5 \<le> sint v) ReadNullableString None) (\<lambda>_.
     rbind ReadBytes (\<lambda>assignment.
     rret \<lparr>sgs_Version = v, sgs_ThrottleTimeMs = throttleTimeMs, sgs_ErrorCode = errorCode, sgs_Assignment = assignment\<rparr>)))))"

definition SyncGroupResponse_ok :: "int16 \<Rightarrow> SyncGroupResponse \<Rightarrow> bool" where
  "SyncGroupResponse_ok v x \<longleftrightarrow> short_bytes (sgs_Assignment x)"

definition SyncGroupResponse_wire :: "int16 \<Rightarrow> SyncGroupResponse \<Rightarrow> SyncGroupResponse" where
  "SyncGroupResponse_wire v x =
     \<lparr>sgs_Version = v,
      sgs_ThrottleTimeMs = (if 1 \<le> sint v then (sgs_ThrottleTimeMs x) else 0),
      sgs_ErrorCode = (sgs_ErrorCode x),
      sgs_Assignment = Some (obytes (sgs_Assignment x))\<rparr>"

interpretation SyncGroupResponse_codec: ncodec "writeSyncGroupResponse v" "readSyncGroupResponse v" "SyncGroupResponse_wire v" "SyncGroupResponse_ok v" for v
proof
  fix x :: SyncGroupResponse
  assume ok: "SyncGroupResponse_ok v x"
  show "reads (readSyncGroupResponse v) (writeSyncGroupResponse v x) (SyncGroupResponse_wire v x)"
    unfolding readSyncGroupResponse_def writeSyncGroupResponse_def SyncGroupResponse_wire_def
    by (rule reads_intros | use ok in \<open>simp add: SyncGroupResponse_ok_def\<close>)+
qed

definition EncodeSyncGroupResponse :: "SyncGroupResponse \<Rightarrow> bytes" where
  "EncodeSyncGroupResponse x = writeSyncGroupResponse (sgs_Version x) x"

definition DecodeSyncGroupResponse :: "int16 \<Rightarrow> bytes \<Rightarrow> SyncGroupResponse res" where
  "DecodeSyncGroupResponse version body = run (readSyncGroupResponse version) body"

record HeartbeatRequest =
  hbq_Version :: int16
  hbq_Group :: gostring
  hbq_GenerationID :: int32
  hbq_MemberID :: gostring
  hbq_InstanceID :: "gostring option"

definition writeHeartbeatRequest :: "int16 \<Rightarrow> HeartbeatRequest \<Rightarrow> bytes" where
  "writeHeartbeatRequest v x =
     WriteString (hbq_Group x)
     @ WriteInt32 (hbq_GenerationID x)
     @ WriteString (hbq_MemberID x)
     @ wwhen (3 \<le> sint v) (WriteNullableString (hbq_InstanceID x))"

definition readHeartbeatRequest :: "int16 \<Rightarrow> HeartbeatRequest rd" where
  "readHeartbeatRequest v =
     rbind ReadString (\<lambda>group.
     rbind ReadInt32 (\<lambda>generationID.
     rbind ReadString (\<lambda>memberID.
     rbind (rwhen (3 \<le> sint v) ReadNullableString None) (\<lambda>instanceID.
     rret \<lparr>hbq_Version = v, hbq_Group = group, hbq_GenerationID = generationID, hbq_MemberID = memberID, hbq_InstanceID = instanceID\<rparr>))))"

definition HeartbeatRequest_ok :: "int16 \<Rightarrow> HeartbeatRequest \<Rightarrow> bool" where
  "HeartbeatRequest_ok v x \<longleftrightarrow> short_string (hbq_Group x)
     \<and> short_string (hbq_MemberID x)
     \<and> (3 \<le> sint v \<longrightarrow> short_nstring (hbq_InstanceID x))"

definition HeartbeatRequest_wire :: "int16 \<Rightarrow> HeartbeatRequest \<Rightarrow> HeartbeatRequest" where
  "HeartbeatRequest_wire v x =
     \<lparr>hbq_Version = v,
      hbq_Group = (hbq_Group x),
      hbq_GenerationID = (hbq_GenerationID x),
      hbq_MemberID = (hbq_MemberID x),
      hbq_InstanceID = (if 3 \<le> sint v then (hbq_InstanceID x) else None)\<rparr>"

interpretation HeartbeatRequest_codec: ncodec "writeHeartbeatRequest v" "readHeartbeatRequest v" "HeartbeatRequest_wire v" "HeartbeatRequest_ok v" for v
proof
  fix x :: HeartbeatRequest
  assume ok: "HeartbeatRequest_ok v x"
  show "reads (readHeartbeatRequest v) (writeHeartbeatRequest v x) (HeartbeatRequest_wire v x)"
    unfolding readHeartbeatRequest_def writeHeartbeatRequest_def HeartbeatRequest_wire_def
    by (rule reads_intros | use ok in \<open>simp add: HeartbeatRequest_ok_def\<close>)+
qed

definition EncodeHeartbeatRequest :: "HeartbeatRequest \<Rightarrow> bytes" where
  "EncodeHeartbeatRequest x = writeHeartbeatRequest (hbq_Version x) x"

definition DecodeHeartbeatRequest :: "int16 \<Rightarrow> bytes \<Rightarrow> HeartbeatRequest res" where
  "DecodeHeartbeatRequest version body = run (readHeartbeatRequest version) body"

record HeartbeatResponse =
  hbs_Version :: int16
  hbs_ThrottleTimeMs :: int32
  hbs_ErrorCode :: int16

definition writeHeartbeatResponse :: "int16 \<Rightarrow> HeartbeatResponse \<Rightarrow> bytes" where
  "writeHeartbeatResponse v x =
     wwhen (1 \<le> sint v) (WriteInt32 (hbs_ThrottleTimeMs x))
     @ WriteInt16 (hbs_ErrorCode x)"

definition readHeartbeatResponse :: "int16 \<Rightarrow> HeartbeatResponse rd" where
  "readHeartbeatResponse v =
     rbind (rwhen (1 \<le> sint v) ReadInt32 0) (\<lambda>throttleTimeMs.
     rbind ReadInt16 (\<lambda>errorCode.
     rret \<lparr>hbs_Version = v, hbs_ThrottleTimeMs = throttleTimeMs, hbs_ErrorCode = errorCode\<rparr>))"

definition HeartbeatResponse_ok :: "int16 \<Rightarrow> HeartbeatResponse \<Rightarrow> bool" where
  "HeartbeatResponse_ok v x \<longleftrightarrow> True"

definition HeartbeatResponse_wire :: "int16 \<Rightarrow> HeartbeatResponse \<Rightarrow> HeartbeatResponse" where
  "HeartbeatResponse_wire v x =
     \<lparr>hbs_Version = v,
      hbs_ThrottleTimeMs = (if 1 \<le> sint v then (hbs_ThrottleTimeMs x) else 0),
      hbs_ErrorCode = (hbs_ErrorCode x)\<rparr>"

interpretation HeartbeatResponse_codec: ncodec "writeHeartbeatResponse v" "readHeartbeatResponse v" "HeartbeatResponse_wire v" "HeartbeatResponse_ok v" for v
proof
  fix x :: HeartbeatResponse
  assume ok: "HeartbeatResponse_ok v x"
  show "reads (readHeartbeatResponse v) (writeHeartbeatResponse v x) (HeartbeatResponse_wire v x)"
    unfolding readHeartbeatResponse_def writeHeartbeatResponse_def HeartbeatResponse_wire_def
    by (rule reads_intros | use ok in \<open>simp add: HeartbeatResponse_ok_def\<close>)+
qed

definition EncodeHeartbeatResponse :: "HeartbeatResponse \<Rightarrow> bytes" where
  "EncodeHeartbeatResponse x = writeHeartbeatResponse (hbs_Version x) x"

definition DecodeHeartbeatResponse :: "int16 \<Rightarrow> bytes \<Rightarrow> HeartbeatResponse res" where
  "DecodeHeartbeatResponse version body = run (readHeartbeatResponse version) body"

text \<open>Before version 3 a LeaveGroup request names one member and ends there.\<close>

record LeaveGroupRequestMember =
  lgqm_MemberID :: gostring
  lgqm_InstanceID :: "gostring option"

definition readLeaveGroupRequestMember :: "int16 \<Rightarrow> LeaveGroupRequestMember rd" where
  "readLeaveGroupRequestMember v =
     rbind ReadString (\<lambda>memberID.
     rbind ReadNullableString (\<lambda>instanceID.
     rbind (rwhen (5 \<le> sint v) ReadNullableString None) (\<lambda>_.
     rret \<lparr>lgqm_MemberID = memberID, lgqm_InstanceID = instanceID\<rparr>)))"

record LeaveGroupRequest =
  lgq_Version :: int16
  lgq_Group :: gostring
  lgq_MemberID :: gostring
  lgq_Members :: "LeaveGroupRequestMember list"

definition readLeaveGroupRequest :: "int16 \<Rightarrow> LeaveGroupRequest rd" where
  "readLeaveGroupRequest v =
     rbind ReadString (\<lambda>group.
     rbind (rwhen (sint v < 3) ReadString []) (\<lambda>memberID.
     rbind (rwhen (3 \<le> sint v) (ReadArrayOf (readLeaveGroupRequestMember v)) []) (\<lambda>members.
     rret \<lparr>lgq_Version = v, lgq_Group = group, lgq_MemberID = memberID, lgq_Members = members\<rparr>)))"

definition DecodeLeaveGroupRequest :: "int16 \<Rightarrow> bytes \<Rightarrow> LeaveGroupRequest res" where
  "DecodeLeaveGroupRequest version body = run (readLeaveGroupRequest version) body"

record LeaveGroupResponseMember =
  lgsm_MemberID :: gostring
  lgsm_InstanceID :: "gostring option"

definition writeLeaveGroupResponseMember :: "int16 \<Rightarrow> LeaveGroupResponseMember \<Rightarrow> bytes" where
  "writeLeaveGroupResponseMember v x =
     WriteString (lgsm_MemberID x)
     @ WriteNullableString (lgsm_InstanceID x)
     @ wwhen (4 \<le> sint v) (WriteInt16 0)"

record LeaveGroupResponse =
  lgs_Version :: int16
  lgs_ThrottleTimeMs :: int32
  lgs_ErrorCode :: int16
  lgs_Members :: "LeaveGroupResponseMember list"

definition writeLeaveGroupResponse :: "int16 \<Rightarrow> LeaveGroupResponse \<Rightarrow> bytes" where
  "writeLeaveGroupResponse v x =
     wwhen (1 \<le> sint v) (WriteInt32 (lgs_ThrottleTimeMs x))
     @ WriteInt16 (lgs_ErrorCode x)
     @ wwhen (3 \<le> sint v) (WriteArrayOf (writeLeaveGroupResponseMember v) (lgs_Members x))"

definition EncodeLeaveGroupResponse :: "LeaveGroupResponse \<Rightarrow> bytes" where
  "EncodeLeaveGroupResponse x = writeLeaveGroupResponse (lgs_Version x) x"

subsection \<open>OffsetCommit\<close>

record OffsetCommitRequestPartition =
  ocrp_Partition :: int32
  ocrp_Offset :: int64
  ocrp_LeaderEpoch :: int32
  ocrp_Metadata :: "gostring option"

definition writeOffsetCommitRequestPartition :: "int16 \<Rightarrow> OffsetCommitRequestPartition \<Rightarrow> bytes" where
  "writeOffsetCommitRequestPartition v x =
     WriteInt32 (ocrp_Partition x)
     @ WriteInt64 (ocrp_Offset x)
     @ wwhen (sint v = 1) (WriteInt64 0)
     @ wwhen (6 \<le> sint v) (WriteInt32 (ocrp_LeaderEpoch x))
     @ WriteNullableString (ocrp_Metadata x)"

definition readOffsetCommitRequestPartition :: "int16 \<Rightarrow> OffsetCommitRequestPartition rd" where
  "readOffsetCommitRequestPartition v =
     rbind ReadInt32 (\<lambda>partition.
     rbind ReadInt64 (\<lambda>offset.
     rbind (rwhen (sint v = 1) ReadInt64 0) (\<lambda>_.
     rbind (rwhen (6 \<le> sint v) ReadInt32 0) (\<lambda>leaderEpoch.
     rbind ReadNullableString (\<lambda>metadata.
     rret \<lparr>ocrp_Partition = partition, ocrp_Offset = offset, ocrp_LeaderEpoch = leaderEpoch, ocrp_Metadata = metadata\<rparr>)))))"

definition OffsetCommitRequestPartition_ok :: "int16 \<Rightarrow> OffsetCommitRequestPartition \<Rightarrow> bool" where
  "OffsetCommitRequestPartition_ok v x \<longleftrightarrow> short_nstring (ocrp_Metadata x)"

definition OffsetCommitRequestPartition_wire :: "int16 \<Rightarrow> OffsetCommitRequestPartition \<Rightarrow> OffsetCommitRequestPartition" where
  "OffsetCommitRequestPartition_wire v x =
     \<lparr>ocrp_Partition = (ocrp_Partition x),
      ocrp_Offset = (ocrp_Offset x),
      ocrp_LeaderEpoch = (if 6 \<le> sint v then (ocrp_LeaderEpoch x) else 0),
      ocrp_Metadata = (ocrp_Metadata x)\<rparr>"

interpretation OffsetCommitRequestPartition_codec: ncodec "writeOffsetCommitRequestPartition v" "readOffsetCommitRequestPartition v" "OffsetCommitRequestPartition_wire v" "OffsetCommitRequestPartition_ok v" for v
proof
  fix x :: OffsetCommitRequestPartition
  assume ok: "OffsetCommitRequestPartition_ok v x"
  show "reads (readOffsetCommitRequestPartition v) (writeOffsetCommitRequestPartition v x) (OffsetCommitRequestPartition_wire v x)"
    unfolding readOffsetCommitRequestPartition_def writeOffsetCommitRequestPartition_def OffsetCommitRequestPartition_wire_def
    by (rule reads_intros | use ok in \<open>simp add: OffsetCommitRequestPartition_ok_def\<close>)+
qed

lemmas OffsetCommitRequestPartition_reads [reads_intros] = OffsetCommitRequestPartition_codec.array_dec_norm OffsetCommitRequestPartition_codec.narray_dec_norm

record OffsetCommitRequestTopic =
  ocrt_Topic :: gostring
  ocrt_Partitions :: "OffsetCommitRequestPartition list"

definition writeOffsetCommitRequestTopic :: "int16 \<Rightarrow> OffsetCommitRequestTopic \<Rightarrow> bytes" where
  "writeOffsetCommitRequestTopic v x =
     WriteString (ocrt_Topic x)
     @ WriteArrayOf (writeOffsetCommitRequestPartition v) (ocrt_Partitions x)"

definition readOffsetCommitRequestTopic :: "int16 \<Rightarrow> OffsetCommitRequestTopic rd" where
  "readOffsetCommitRequestTopic v =
     rbind ReadString (\<lambda>topic.
     rbind (ReadArrayOf (readOffsetCommitRequestPartition v)) (\<lambda>partitions.
     rret \<lparr>ocrt_Topic = topic, ocrt_Partitions = partitions\<rparr>))"

definition OffsetCommitRequestTopic_ok :: "int16 \<Rightarrow> OffsetCommitRequestTopic \<Rightarrow> bool" where
  "OffsetCommitRequestTopic_ok v x \<longleftrightarrow> short_string (ocrt_Topic x)
     \<and> short_list (ocrt_Partitions x) \<and> (\<forall>y \<in> set (ocrt_Partitions x). OffsetCommitRequestPartition_ok v y)"

definition OffsetCommitRequestTopic_wire :: "int16 \<Rightarrow> OffsetCommitRequestTopic \<Rightarrow> OffsetCommitRequestTopic" where
  "OffsetCommitRequestTopic_wire v x =
     \<lparr>ocrt_Topic = (ocrt_Topic x),
      ocrt_Partitions = map (OffsetCommitRequestPartition_wire v) (ocrt_Partitions x)\<rparr>"

interpretation OffsetCommitRequestTopic_codec: ncodec "writeOffsetCommitRequestTopic v" "readOffsetCommitRequestTopic v" "OffsetCommitRequestTopic_wire v" "OffsetCommitRequestTopic_ok v" for v
proof
  fix x :: OffsetCommitRequestTopic
  assume ok: "OffsetCommitRequestTopic_ok v x"
  show "reads (readOffsetCommitRequestTopic v) (writeOffsetCommitRequestTopic v x) (OffsetCommitRequestTopic_wire v x)"
    unfolding readOffsetCommitRequestTopic_def writeOffsetCommitRequestTopic_def OffsetCommitRequestTopic_wire_def
    by (rule reads_intros | use ok in \<open>simp add: OffsetCommitRequestTopic_ok_def\<close>)+
qed

lemmas OffsetCommitRequestTopic_reads [reads_intros] = OffsetCommitRequestTopic_codec.array_dec_norm OffsetCommitRequestTopic_codec.narray_dec_norm

record OffsetCommitRequest =
  ocq_Version :: int16
  ocq_Group :: gostring
  ocq_Generation :: int32
  ocq_MemberID :: gostring
  ocq_InstanceID :: "gostring option"
  ocq_Topics :: "OffsetCommitRequestTopic list"

definition writeOffsetCommitRequest :: "int16 \<Rightarrow> OffsetCommitRequest \<Rightarrow> bytes" where
  "writeOffsetCommitRequest v x =
     WriteString (ocq_Group x)
     @ wwhen (1 \<le> sint v) (WriteInt32 (ocq_Generation x))
     @ wwhen (1 \<le> sint v) (WriteString (ocq_MemberID x))
     @ wwhen (sint v = 1) (WriteInt64 0)
     @ wwhen (7 \<le> sint v) (WriteNullableString (ocq_InstanceID x))
     @ wwhen (2 \<le> sint v \<and> sint v \<le> 4) (WriteInt64 0)
     @ WriteArrayOf (writeOffsetCommitRequestTopic v) (ocq_Topics x)"

definition readOffsetCommitRequest :: "int16 \<Rightarrow> OffsetCommitRequest rd" where
  "readOffsetCommitRequest v =
     rbind ReadString (\<lambda>group.
     rbind (rwhen (1 \<le> sint v) ReadInt32 0) (\<lambda>generation.
     rbind (rwhen (1 \<le> sint v) ReadString []) (\<lambda>memberID.
     rbind (rwhen (sint v = 1) ReadInt64 0) (\<lambda>_.
     rbind (rwhen (7 \<le> sint v) ReadNullableString None) (\<lambda>instanceID.
     rbind (rwhen (2 \<le> sint v \<and> sint v \<le> 4) ReadInt64 0) (\<lambda>_.
     rbind (ReadArrayOf (readOffsetCommitRequestTopic v)) (\<lambda>topics.
     rret \<lparr>ocq_Version = v, ocq_Group = group, ocq_Generation = generation, ocq_MemberID = memberID, ocq_InstanceID = instanceID, ocq_Topics = topics\<rparr>)))))))"

definition OffsetCommitRequest_ok :: "int16 \<Rightarrow> OffsetCommitRequest \<Rightarrow> bool" where
  "OffsetCommitRequest_ok v x \<longleftrightarrow> short_string (ocq_Group x)
     \<and> (1 \<le> sint v \<longrightarrow> short_string (ocq_MemberID x))
     \<and> (7 \<le> sint v \<longrightarrow> short_nstring (ocq_InstanceID x))
     \<and> short_list (ocq_Topics x) \<and> (\<forall>y \<in> set (ocq_Topics x). OffsetCommitRequestTopic_ok v y)"

definition OffsetCommitRequest_wire :: "int16 \<Rightarrow> OffsetCommitRequest \<Rightarrow> OffsetCommitRequest" where
  "OffsetCommitRequest_wire v x =
     \<lparr>ocq_Version = v,
      ocq_Group = (ocq_Group x),
      ocq_Generation = (if 1 \<le> sint v then (ocq_Generation x) else 0),
      ocq_MemberID = (if 1 \<le> sint v then (ocq_MemberID x) else []),
      ocq_InstanceID = (if 7 \<le> sint v then (ocq_InstanceID x) else None),
      ocq_Topics = map (OffsetCommitRequestTopic_wire v) (ocq_Topics x)\<rparr>"

interpretation OffsetCommitRequest_codec: ncodec "writeOffsetCommitRequest v" "readOffsetCommitRequest v" "OffsetCommitRequest_wire v" "OffsetCommitRequest_ok v" for v
proof
  fix x :: OffsetCommitRequest
  assume ok: "OffsetCommitRequest_ok v x"
  show "reads (readOffsetCommitRequest v) (writeOffsetCommitRequest v x) (OffsetCommitRequest_wire v x)"
    unfolding readOffsetCommitRequest_def writeOffsetCommitRequest_def OffsetCommitRequest_wire_def
    by (rule reads_intros | use ok in \<open>simp add: OffsetCommitRequest_ok_def\<close>)+
qed

definition EncodeOffsetCommitRequest :: "OffsetCommitRequest \<Rightarrow> bytes" where
  "EncodeOffsetCommitRequest x = writeOffsetCommitRequest (ocq_Version x) x"

definition DecodeOffsetCommitRequest :: "int16 \<Rightarrow> bytes \<Rightarrow> OffsetCommitRequest res" where
  "DecodeOffsetCommitRequest version body = run (readOffsetCommitRequest version) body"

record OffsetCommitResponsePartition =
  ocsp_Partition :: int32
  ocsp_ErrorCode :: int16

definition writeOffsetCommitResponsePartition :: "OffsetCommitResponsePartition \<Rightarrow> bytes" where
  "writeOffsetCommitResponsePartition x =
     WriteInt32 (ocsp_Partition x)
     @ WriteInt16 (ocsp_ErrorCode x)"

definition readOffsetCommitResponsePartition :: "OffsetCommitResponsePartition rd" where
  "readOffsetCommitResponsePartition =
     rbind ReadInt32 (\<lambda>partition.
     rbind ReadInt16 (\<lambda>errorCode.
     rret \<lparr>ocsp_Partition = partition, ocsp_ErrorCode = errorCode\<rparr>))"

definition OffsetCommitResponsePartition_ok :: "OffsetCommitResponsePartition \<Rightarrow> bool" where
  "OffsetCommitResponsePartition_ok x \<longleftrightarrow> True"

interpretation OffsetCommitResponsePartition_codec: codec writeOffsetCommitResponsePartition readOffsetCommitResponsePartition OffsetCommitResponsePartition_ok
proof
  fix x :: OffsetCommitResponsePartition
  assume ok: "OffsetCommitResponsePartition_ok x"
  have "reads readOffsetCommitResponsePartition (writeOffsetCommitResponsePartition x) \<lparr>ocsp_Partition = ocsp_Partition x, ocsp_ErrorCode = ocsp_ErrorCode x\<rparr>"
    unfolding readOffsetCommitResponsePartition_def writeOffsetCommitResponsePartition_def
    by (rule reads_intros | use ok in \<open>simp add: OffsetCommitResponsePartition_ok_def\<close>)+
  then show "reads readOffsetCommitResponsePartition (writeOffsetCommitResponsePartition x) x" by (cases x) simp
qed

lemmas OffsetCommitResponsePartition_reads [reads_intros] = OffsetCommitResponsePartition_codec.array_dec_enc OffsetCommitResponsePartition_codec.narray_dec_enc

record OffsetCommitResponseTopic =
  ocst_Topic :: gostring
  ocst_Partitions :: "OffsetCommitResponsePartition list"

definition writeOffsetCommitResponseTopic :: "OffsetCommitResponseTopic \<Rightarrow> bytes" where
  "writeOffsetCommitResponseTopic x =
     WriteString (ocst_Topic x)
     @ WriteArrayOf writeOffsetCommitResponsePartition (ocst_Partitions x)"

definition readOffsetCommitResponseTopic :: "OffsetCommitResponseTopic rd" where
  "readOffsetCommitResponseTopic =
     rbind ReadString (\<lambda>topic.
     rbind (ReadArrayOf readOffsetCommitResponsePartition) (\<lambda>partitions.
     rret \<lparr>ocst_Topic = topic, ocst_Partitions = partitions\<rparr>))"

definition OffsetCommitResponseTopic_ok :: "OffsetCommitResponseTopic \<Rightarrow> bool" where
  "OffsetCommitResponseTopic_ok x \<longleftrightarrow> short_string (ocst_Topic x)
     \<and> short_list (ocst_Partitions x) \<and> (\<forall>y \<in> set (ocst_Partitions x). OffsetCommitResponsePartition_ok y)"

interpretation OffsetCommitResponseTopic_codec: codec writeOffsetCommitResponseTopic readOffsetCommitResponseTopic OffsetCommitResponseTopic_ok
proof
  fix x :: OffsetCommitResponseTopic
  assume ok: "OffsetCommitResponseTopic_ok x"
  have "reads readOffsetCommitResponseTopic (writeOffsetCommitResponseTopic x) \<lparr>ocst_Topic = ocst_Topic x, ocst_Partitions = ocst_Partitions x\<rparr>"
    unfolding readOffsetCommitResponseTopic_def writeOffsetCommitResponseTopic_def
    by (rule reads_intros | use ok in \<open>simp add: OffsetCommitResponseTopic_ok_def\<close>)+
  then show "reads readOffsetCommitResponseTopic (writeOffsetCommitResponseTopic x) x" by (cases x) simp
qed

lemmas OffsetCommitResponseTopic_reads [reads_intros] = OffsetCommitResponseTopic_codec.array_dec_enc OffsetCommitResponseTopic_codec.narray_dec_enc

record OffsetCommitResponse =
  ocs_Version :: int16
  ocs_ThrottleTimeMs :: int32
  ocs_Topics :: "OffsetCommitResponseTopic list"

definition writeOffsetCommitResponse :: "int16 \<Rightarrow> OffsetCommitResponse \<Rightarrow> bytes" where
  "writeOffsetCommitResponse v x =
     wwhen (3 \<le> sint v) (WriteInt32 (ocs_ThrottleTimeMs x))
     @ WriteArrayOf writeOffsetCommitResponseTopic (ocs_Topics x)"

definition readOffsetCommitResponse :: "int16 \<Rightarrow> OffsetCommitResponse rd" where
  "readOffsetCommitResponse v =
     rbind (rwhen (3 \<le> sint v) ReadInt32 0) (\<lambda>throttleTimeMs.
     rbind (ReadArrayOf readOffsetCommitResponseTopic) (\<lambda>topics.
     rret \<lparr>ocs_Version = v, ocs_ThrottleTimeMs = throttleTimeMs, ocs_Topics = topics\<rparr>))"

definition OffsetCommitResponse_ok :: "int16 \<Rightarrow> OffsetCommitResponse \<Rightarrow> bool" where
  "OffsetCommitResponse_ok v x \<longleftrightarrow> short_list (ocs_Topics x) \<and> (\<forall>y \<in> set (ocs_Topics x). OffsetCommitResponseTopic_ok y)"

definition OffsetCommitResponse_wire :: "int16 \<Rightarrow> OffsetCommitResponse \<Rightarrow> OffsetCommitResponse" where
  "OffsetCommitResponse_wire v x =
     \<lparr>ocs_Version = v,
      ocs_ThrottleTimeMs = (if 3 \<le> sint v then (ocs_ThrottleTimeMs x) else 0),
      ocs_Topics = (ocs_Topics x)\<rparr>"

interpretation OffsetCommitResponse_codec: ncodec "writeOffsetCommitResponse v" "readOffsetCommitResponse v" "OffsetCommitResponse_wire v" "OffsetCommitResponse_ok v" for v
proof
  fix x :: OffsetCommitResponse
  assume ok: "OffsetCommitResponse_ok v x"
  show "reads (readOffsetCommitResponse v) (writeOffsetCommitResponse v x) (OffsetCommitResponse_wire v x)"
    unfolding readOffsetCommitResponse_def writeOffsetCommitResponse_def OffsetCommitResponse_wire_def
    by (rule reads_intros | use ok in \<open>simp add: OffsetCommitResponse_ok_def\<close>)+
qed

definition EncodeOffsetCommitResponse :: "OffsetCommitResponse \<Rightarrow> bytes" where
  "EncodeOffsetCommitResponse x = writeOffsetCommitResponse (ocs_Version x) x"

definition DecodeOffsetCommitResponse :: "int16 \<Rightarrow> bytes \<Rightarrow> OffsetCommitResponse res" where
  "DecodeOffsetCommitResponse version body = run (readOffsetCommitResponse version) body"

subsection \<open>OffsetFetch\<close>

record OffsetFetchRequestTopic =
  ofrt_Topic :: gostring
  ofrt_Partitions :: "int32 list option"

definition writeOffsetFetchRequestTopic :: "OffsetFetchRequestTopic \<Rightarrow> bytes" where
  "writeOffsetFetchRequestTopic x =
     WriteString (ofrt_Topic x)
     @ WriteArrayOf WriteInt32 (olist (ofrt_Partitions x))"

definition readOffsetFetchRequestTopic :: "OffsetFetchRequestTopic rd" where
  "readOffsetFetchRequestTopic =
     rbind ReadString (\<lambda>topic.
     rbind (ReadNullableArrayOf ReadInt32) (\<lambda>partitions.
     rret \<lparr>ofrt_Topic = topic, ofrt_Partitions = partitions\<rparr>))"

definition OffsetFetchRequestTopic_ok :: "OffsetFetchRequestTopic \<Rightarrow> bool" where
  "OffsetFetchRequestTopic_ok x \<longleftrightarrow> short_string (ofrt_Topic x)
     \<and> short_list (olist (ofrt_Partitions x))"

definition OffsetFetchRequestTopic_wire :: "OffsetFetchRequestTopic \<Rightarrow> OffsetFetchRequestTopic" where
  "OffsetFetchRequestTopic_wire x =
     \<lparr>ofrt_Topic = (ofrt_Topic x),
      ofrt_Partitions = Some (olist (ofrt_Partitions x))\<rparr>"

interpretation OffsetFetchRequestTopic_codec: ncodec writeOffsetFetchRequestTopic readOffsetFetchRequestTopic OffsetFetchRequestTopic_wire OffsetFetchRequestTopic_ok
proof
  fix x :: OffsetFetchRequestTopic
  assume ok: "OffsetFetchRequestTopic_ok x"
  show "reads readOffsetFetchRequestTopic (writeOffsetFetchRequestTopic x) (OffsetFetchRequestTopic_wire x)"
    unfolding readOffsetFetchRequestTopic_def writeOffsetFetchRequestTopic_def OffsetFetchRequestTopic_wire_def
    by (rule reads_intros | use ok in \<open>simp add: OffsetFetchRequestTopic_ok_def\<close>)+
qed

lemmas OffsetFetchRequestTopic_reads [reads_intros] = OffsetFetchRequestTopic_codec.array_dec_norm OffsetFetchRequestTopic_codec.narray_dec_norm

text \<open>
  A null topic list asks for every offset of the group.  The decoder returns as soon as
  it has read it, so that it leaves the flag of versions from 7 on unread.
\<close>

record OffsetFetchRequest =
  ofq_Version :: int16
  ofq_Group :: gostring
  ofq_Topics :: "OffsetFetchRequestTopic list option"

definition EncodeOffsetFetchRequest :: "OffsetFetchRequest \<Rightarrow> bytes" where
  "EncodeOffsetFetchRequest x =
     WriteString (ofq_Group x)
     @ WriteNullableArrayOf writeOffsetFetchRequestTopic (ofq_Topics x)
     @ wwhen (7 \<le> sint (ofq_Version x)) (WriteBool False)"

definition readOffsetFetchRequest :: "int16 \<Rightarrow> OffsetFetchRequest rd" where
  "readOffsetFetchRequest v =
     rbind ReadString (\<lambda>group.
     rbind (ReadNullableArrayOf readOffsetFetchRequestTopic) (\<lambda>topics.
     case topics of
       None \<Rightarrow> rret \<lparr>ofq_Version = v, ofq_Group = group, ofq_Topics = None\<rparr>
     | Some ts \<Rightarrow>
         rbind (rwhen (7 \<le> sint v) ReadBool False) (\<lambda>_.
         rret \<lparr>ofq_Version = v, ofq_Group = group, ofq_Topics = Some ts\<rparr>)))"

definition DecodeOffsetFetchRequest :: "int16 \<Rightarrow> bytes \<Rightarrow> OffsetFetchRequest res" where
  "DecodeOffsetFetchRequest version body = run (readOffsetFetchRequest version) body"

definition OffsetFetchRequest_ok :: "OffsetFetchRequest \<Rightarrow> bool" where
  "OffsetFetchRequest_ok x \<longleftrightarrow> short_string (ofq_Group x) \<and> short_list (olist (ofq_Topics x))
     \<and> (\<forall>y \<in> set (olist (ofq_Topics x)). OffsetFetchRequestTopic_ok y)"

definition OffsetFetchRequest_wire :: "OffsetFetchRequest \<Rightarrow> OffsetFetchRequest" where
  "OffsetFetchRequest_wire x = \<lparr>ofq_Version = ofq_Version x, ofq_Group = ofq_Group x,
     ofq_Topics = map_option (map OffsetFetchRequestTopic_wire) (ofq_Topics x)\<rparr>"

lemma OffsetFetchRequest_decode_encode:
  assumes ok: "OffsetFetchRequest_ok x" and len: "length (EncodeOffsetFetchRequest x) < 2 ^ 63"
  shows "DecodeOffsetFetchRequest (ofq_Version x) (EncodeOffsetFetchRequest x) = Inr (OffsetFetchRequest_wire x)"
proof -
  from ok have okl: "short_list (olist (ofq_Topics x))"
    and oks: "\<forall>y \<in> set (olist (ofq_Topics x)). OffsetFetchRequestTopic_ok y"
    by (simp_all add: OffsetFetchRequest_ok_def)
  define flag where "flag = (if ofq_Topics x = None then wwhen (7 \<le> sint (ofq_Version x)) (WriteBool False) else [])"
  define bytes where "bytes = WriteString (ofq_Group x)
     @ WriteNullableArrayOf writeOffsetFetchRequestTopic (ofq_Topics x)
     @ (if ofq_Topics x = None then [] else wwhen (7 \<le> sint (ofq_Version x)) (WriteBool False))"
  have split: "EncodeOffsetFetchRequest x = bytes @ flag"
    by (simp add: EncodeOffsetFetchRequest_def bytes_def flag_def)
  have tail: "reads (case map_option (map OffsetFetchRequestTopic_wire) (ofq_Topics x) of
       None \<Rightarrow> rret \<lparr>ofq_Version = ofq_Version x, ofq_Group = ofq_Group x, ofq_Topics = None\<rparr>
     | Some ts \<Rightarrow> rbind (rwhen (7 \<le> sint (ofq_Version x)) ReadBool False)
         (\<lambda>_. rret \<lparr>ofq_Version = ofq_Version x, ofq_Group = ofq_Group x, ofq_Topics = Some ts\<rparr>))
     (if ofq_Topics x = None then [] else wwhen (7 \<le> sint (ofq_Version x)) (WriteBool False))
     (OffsetFetchRequest_wire x)"
  proof (cases "ofq_Topics x")
    case (Some ts)
    have "reads (rbind (rwhen (7 \<le> sint (ofq_Version x)) ReadBool False)
        (\<lambda>_. rret (OffsetFetchRequest_wire x))) (wwhen (7 \<le> sint (ofq_Version x)) (WriteBool False))
        (OffsetFetchRequest_wire x)"
      by (rule reads_intros)+
    with Some show ?thesis by (simp add: OffsetFetchRequest_wire_def)
  qed (simp add: OffsetFetchRequest_wire_def reads_rret)
  have "reads (readOffsetFetchRequest (ofq_Version x)) bytes (OffsetFetchRequest_wire x)"
    unfolding readOffsetFetchRequest_def bytes_def
  proof (rule reads_rbind [OF string_codec.dec_enc])
    show "short_string (ofq_Group x)" using ok by (simp add: OffsetFetchRequest_ok_def)
  qed (rule reads_rbind [OF OffsetFetchRequestTopic_codec.narray_dec_norm], rule okl, rule oks, rule tail)
  moreover have "int (length (bytes @ flag)) < int (2 ^ 63)"
    using len unfolding split by (simp only: of_nat_less_iff)
  ultimately show ?thesis
    unfolding DecodeOffsetFetchRequest_def split run_def
    using reads_run_append [of "readOffsetFetchRequest (ofq_Version x)" bytes "OffsetFetchRequest_wire x" flag] by simp
qed

record OffsetFetchResponsePartition =
  ofsp_Partition :: int32
  ofsp_Offset :: int64
  ofsp_LeaderEpoch :: int32
  ofsp_Metadata :: "gostring option"
  ofsp_ErrorCode :: int16

definition writeOffsetFetchResponsePartition :: "int16 \<Rightarrow> OffsetFetchResponsePartition \<Rightarrow> bytes" where
  "writeOffsetFetchResponsePartition v x =
     WriteInt32 (ofsp_Partition x)
     @ WriteInt64 (ofsp_Offset x)
     @ wwhen (5 \<le> sint v) (WriteInt32 (ofsp_LeaderEpoch x))
     @ WriteNullableString (ofsp_Metadata x)
     @ WriteInt16 (ofsp_ErrorCode x)"

definition readOffsetFetchResponsePartition :: "int16 \<Rightarrow> OffsetFetchResponsePartition rd" where
  "readOffsetFetchResponsePartition v =
     rbind ReadInt32 (\<lambda>partition.
     rbind ReadInt64 (\<lambda>offset.
     rbind (rwhen (5 \<le> sint v) ReadInt32 0) (\<lambda>leaderEpoch.
     rbind ReadNullableString (\<lambda>metadata.
     rbind ReadInt16 (\<lambda>errorCode.
     rret \<lparr>ofsp_Partition = partition, ofsp_Offset = offset, ofsp_LeaderEpoch = leaderEpoch, ofsp_Metadata = metadata, ofsp_ErrorCode = errorCode\<rparr>)))))"

definition OffsetFetchResponsePartition_ok :: "int16 \<Rightarrow> OffsetFetchResponsePartition \<Rightarrow> bool" where
  "OffsetFetchResponsePartition_ok v x \<longleftrightarrow> short_nstring (ofsp_Metadata x)"

definition OffsetFetchResponsePartition_wire :: "int16 \<Rightarrow> OffsetFetchResponsePartition \<Rightarrow> OffsetFetchResponsePartition" where
  "OffsetFetchResponsePartition_wire v x =
     \<lparr>ofsp_Partition = (ofsp_Partition x),
      ofsp_Offset = (ofsp_Offset x),
      ofsp_LeaderEpoch = (if 5 \<le> sint v then (ofsp_LeaderEpoch x) else 0),
      ofsp_Metadata = (ofsp_Metadata x),
      ofsp_ErrorCode = (ofsp_ErrorCode x)\<rparr>"

interpretation OffsetFetchResponsePartition_codec: ncodec "writeOffsetFetchResponsePartition v" "readOffsetFetchResponsePartition v" "OffsetFetchResponsePartition_wire v" "OffsetFetchResponsePartition_ok v" for v
proof
  fix x :: OffsetFetchResponsePartition
  assume ok: "OffsetFetchResponsePartition_ok v x"
  show "reads (readOffsetFetchResponsePartition v) (writeOffsetFetchResponsePartition v x) (OffsetFetchResponsePartition_wire v x)"
    unfolding readOffsetFetchResponsePartition_def writeOffsetFetchResponsePartition_def OffsetFetchResponsePartition_wire_def
    by (rule reads_intros | use ok in \<open>simp add: OffsetFetchResponsePartition_ok_def\<close>)+
qed

lemmas OffsetFetchResponsePartition_reads [reads_intros] = OffsetFetchResponsePartition_codec.array_dec_norm OffsetFetchResponsePartition_codec.narray_dec_norm

record OffsetFetchResponseTopic =
  ofst_Topic :: gostring
  ofst_Partitions :: "OffsetFetchResponsePartition list"

definition writeOffsetFetchResponseTopic :: "int16 \<Rightarrow> OffsetFetchResponseTopic \<Rightarrow> bytes" where
  "writeOffsetFetchResponseTopic v x =
     WriteString (ofst_Topic x)
     @ WriteArrayOf (writeOffsetFetchResponsePartition v) (ofst_Partitions x)"

definition readOffsetFetchResponseTopic :: "int16 \<Rightarrow> OffsetFetchResponseTopic rd" where
  "readOffsetFetchResponseTopic v =
     rbind ReadString (\<lambda>topic.
     rbind (ReadArrayOf (readOffsetFetchResponsePartition v)) (\<lambda>partitions.
     rret \<lparr>ofst_Topic = topic, ofst_Partitions = partitions\<rparr>))"

definition OffsetFetchResponseTopic_ok :: "int16 \<Rightarrow> OffsetFetchResponseTopic \<Rightarrow> bool" where
  "OffsetFetchResponseTopic_ok v x \<longleftrightarrow> short_string (ofst_Topic x)
     \<and> short_list (ofst_Partitions x) \<and> (\<forall>y \<in> set (ofst_Partitions x). OffsetFetchResponsePartition_ok v y)"

definition OffsetFetchResponseTopic_wire :: "int16 \<Rightarrow> OffsetFetchResponseTopic \<Rightarrow> OffsetFetchResponseTopic" where
  "OffsetFetchResponseTopic_wire v x =
     \<lparr>ofst_Topic = (ofst_Topic x),
      ofst_Partitions = map (OffsetFetchResponsePartition_wire v) (ofst_Partitions x)\<rparr>"

interpretation OffsetFetchResponseTopic_codec: ncodec "writeOffsetFetchResponseTopic v" "readOffsetFetchResponseTopic v" "OffsetFetchResponseTopic_wire v" "OffsetFetchResponseTopic_ok v" for v
proof
  fix x :: OffsetFetchResponseTopic
  assume ok: "OffsetFetchResponseTopic_ok v x"
  show "reads (readOffsetFetchResponseTopic v) (writeOffsetFetchResponseTopic v x) (OffsetFetchResponseTopic_wire v x)"
    unfolding readOffsetFetchResponseTopic_def writeOffsetFetchResponseTopic_def OffsetFetchResponseTopic_wire_def
    by (rule reads_intros | use ok in \<open>simp add: OffsetFetchResponseTopic_ok_def\<close>)+
qed

lemmas OffsetFetchResponseTopic_reads [reads_intros] = OffsetFetchResponseTopic_codec.array_dec_norm OffsetFetchResponseTopic_codec.narray_dec_norm

record OffsetFetchResponse =
  ofs_Version :: int16
  ofs_ThrottleTimeMs :: int32
  ofs_Topics :: "OffsetFetchResponseTopic list"
  ofs_ErrorCode :: int16

definition writeOffsetFetchResponse :: "int16 \<Rightarrow> OffsetFetchResponse \<Rightarrow> bytes" where
  "writeOffsetFetchResponse v x =
     wwhen (3 \<le> sint v) (WriteInt32 (ofs_ThrottleTimeMs x))
     @ WriteArrayOf (writeOffsetFetchResponseTopic v) (ofs_Topics x)
     @ wwhen (2 \<le> sint v) (WriteInt16 (ofs_ErrorCode x))"

definition readOffsetFetchResponse :: "int16 \<Rightarrow> OffsetFetchResponse rd" where
  "readOffsetFetchResponse v =
     rbind (rwhen (3 \<le> sint v) ReadInt32 0) (\<lambda>throttleTimeMs.
     rbind (ReadArrayOf (readOffsetFetchResponseTopic v)) (\<lambda>topics.
     rbind (rwhen (2 \<le> sint v) ReadInt16 0) (\<lambda>errorCode.
     rret \<lparr>ofs_Version = v, ofs_ThrottleTimeMs = throttleTimeMs, ofs_Topics = topics, ofs_ErrorCode = errorCode\<rparr>)))"

definition OffsetFetchResponse_ok :: "int16 \<Rightarrow> OffsetFetchResponse \<Rightarrow> bool" where
  "OffsetFetchResponse_ok v x \<longleftrightarrow> short_list (ofs_Topics x) \<and> (\<forall>y \<in> set (ofs_Topics x). OffsetFetchResponseTopic_ok v y)"

definition OffsetFetchResponse_wire :: "int16 \<Rightarrow> OffsetFetchResponse \<Rightarrow> OffsetFetchResponse" where
  "OffsetFetchResponse_wire v x =
     \<lparr>ofs_Version = v,
      ofs_ThrottleTimeMs = (if 3 \<le> sint v then (ofs_ThrottleTimeMs x) else 0),
      ofs_Topics = map (OffsetFetchResponseTopic_wire v) (ofs_Topics x),
      ofs_ErrorCode = (if 2 \<le> sint v then (ofs_ErrorCode x) else 0)\<rparr>"

interpretation OffsetFetchResponse_codec: ncodec "writeOffsetFetchResponse v" "readOffsetFetchResponse v" "OffsetFetchResponse_wire v" "OffsetFetchResponse_ok v" for v
proof
  fix x :: OffsetFetchResponse
  assume ok: "OffsetFetchResponse_ok v x"
  show "reads (readOffsetFetchResponse v) (writeOffsetFetchResponse v x) (OffsetFetchResponse_wire v x)"
    unfolding readOffsetFetchResponse_def writeOffsetFetchResponse_def OffsetFetchResponse_wire_def
    by (rule reads_intros | use ok in \<open>simp add: OffsetFetchResponse_ok_def\<close>)+
qed

definition EncodeOffsetFetchResponse :: "OffsetFetchResponse \<Rightarrow> bytes" where
  "EncodeOffsetFetchResponse x = writeOffsetFetchResponse (ofs_Version x) x"

definition DecodeOffsetFetchResponse :: "int16 \<Rightarrow> bytes \<Rightarrow> OffsetFetchResponse res" where
  "DecodeOffsetFetchResponse version body = run (readOffsetFetchResponse version) body"

subsection \<open>ListGroups, DescribeGroups and DeleteGroups\<close>

record ListGroupsRequest =
  lgr_Version :: int16

definition DecodeListGroupsRequest :: "int16 \<Rightarrow> bytes \<Rightarrow> ListGroupsRequest res" where
  "DecodeListGroupsRequest version body = Inr \<lparr>lgr_Version = version\<rparr>"

definition EncodeListGroupsRequest :: "ListGroupsRequest \<Rightarrow> bytes" where
  "EncodeListGroupsRequest req = []"

record ListGroupsResponseGroup =
  lgg_GroupID :: gostring
  lgg_ProtocolType :: gostring

definition writeListGroupsResponseGroup :: "ListGroupsResponseGroup \<Rightarrow> bytes" where
  "writeListGroupsResponseGroup x =
     WriteString (lgg_GroupID x)
     @ WriteString (lgg_ProtocolType x)"

definition readListGroupsResponseGroup :: "ListGroupsResponseGroup rd" where
  "readListGroupsResponseGroup =
     rbind ReadString (\<lambda>groupID.
     rbind ReadString (\<lambda>protocolType.
     rret \<lparr>lgg_GroupID = groupID, lgg_ProtocolType = protocolType\<rparr>))"

definition ListGroupsResponseGroup_ok :: "ListGroupsResponseGroup \<Rightarrow> bool" where
  "ListGroupsResponseGroup_ok x \<longleftrightarrow> short_string (lgg_GroupID x)
     \<and> short_string (lgg_ProtocolType x)"

interpretation ListGroupsResponseGroup_codec: codec writeListGroupsResponseGroup readListGroupsResponseGroup ListGroupsResponseGroup_ok
proof
  fix x :: ListGroupsResponseGroup
  assume ok: "ListGroupsResponseGroup_ok x"
  have "reads readListGroupsResponseGroup (writeListGroupsResponseGroup x) \<lparr>lgg_GroupID = lgg_GroupID x, lgg_ProtocolType = lgg_ProtocolType x\<rparr>"
    unfolding readListGroupsResponseGroup_def writeListGroupsResponseGroup_def
    by (rule reads_intros | use ok in \<open>simp add: ListGroupsResponseGroup_ok_def\<close>)+
  then show "reads readListGroupsResponseGroup (writeListGroupsResponseGroup x) x" by (cases x) simp
qed

lemmas ListGroupsResponseGroup_reads [reads_intros] = ListGroupsResponseGroup_codec.array_dec_enc ListGroupsResponseGroup_codec.narray_dec_enc

record ListGroupsResponse =
  lgrs_Version :: int16
  lgrs_ThrottleTimeMs :: int32
  lgrs_ErrorCode :: int16
  lgrs_Groups :: "ListGroupsResponseGroup list"

definition writeListGroupsResponse :: "int16 \<Rightarrow> ListGroupsResponse \<Rightarrow> bytes" where
  "writeListGroupsResponse v x =
     wwhen (1 \<le> sint v) (WriteInt32 (lgrs_ThrottleTimeMs x))
     @ WriteInt16 (lgrs_ErrorCode x)
     @ WriteArrayOf writeListGroupsResponseGroup (lgrs_Groups x)"

definition readListGroupsResponse :: "int16 \<Rightarrow> ListGroupsResponse rd" where
  "readListGroupsResponse v =
     rbind (rwhen (1 \<le> sint v) ReadInt32 0) (\<lambda>throttleTimeMs.
     rbind ReadInt16 (\<lambda>errorCode.
     rbind (ReadArrayOf readListGroupsResponseGroup) (\<lambda>groups.
     rret \<lparr>lgrs_Version = v, lgrs_ThrottleTimeMs = throttleTimeMs, lgrs_ErrorCode = errorCode, lgrs_Groups = groups\<rparr>)))"

definition ListGroupsResponse_ok :: "int16 \<Rightarrow> ListGroupsResponse \<Rightarrow> bool" where
  "ListGroupsResponse_ok v x \<longleftrightarrow> short_list (lgrs_Groups x) \<and> (\<forall>y \<in> set (lgrs_Groups x). ListGroupsResponseGroup_ok y)"

definition ListGroupsResponse_wire :: "int16 \<Rightarrow> ListGroupsResponse \<Rightarrow> ListGroupsResponse" where
  "ListGroupsResponse_wire v x =
     \<lparr>lgrs_Version = v,
      lgrs_ThrottleTimeMs = (if 1 \<le> sint v then (lgrs_ThrottleTimeMs x) else 0),
      lgrs_ErrorCode = (lgrs_ErrorCode x),
      lgrs_Groups = (lgrs_Groups x)\<rparr>"

interpretation ListGroupsResponse_codec: ncodec "writeListGroupsResponse v" "readListGroupsResponse v" "ListGroupsResponse_wire v" "ListGroupsResponse_ok v" for v
proof
  fix x :: ListGroupsResponse
  assume ok: "ListGroupsResponse_ok v x"
  show "reads (readListGroupsResponse v) (writeListGroupsResponse v x) (ListGroupsResponse_wire v x)"
    unfolding readListGroupsResponse_def writeListGroupsResponse_def ListGroupsResponse_wire_def
    by (rule reads_intros | use ok in \<open>simp add: ListGroupsResponse_ok_def\<close>)+
qed

definition EncodeListGroupsResponse :: "ListGroupsResponse \<Rightarrow> bytes" where
  "EncodeListGroupsResponse x = writeListGroupsResponse (lgrs_Version x) x"

definition DecodeListGroupsResponse :: "int16 \<Rightarrow> bytes \<Rightarrow> ListGroupsResponse res" where
  "DecodeListGroupsResponse version body = run (readListGroupsResponse version) body"

record DescribeGroupsRequest =
  dgq_Version :: int16
  dgq_GroupIDs :: "gostring list"
  dgq_IncludeAuth :: bool

definition writeDescribeGroupsRequest :: "int16 \<Rightarrow> DescribeGroupsRequest \<Rightarrow> bytes" where
  "writeDescribeGroupsRequest v x =
     WriteArrayOf WriteString (dgq_GroupIDs x)
     @ wwhen (3 \<le> sint v) (WriteBool (dgq_IncludeAuth x))"

definition readDescribeGroupsRequest :: "int16 \<Rightarrow> DescribeGroupsRequest rd" where
  "readDescribeGroupsRequest v =
     rbind (ReadArrayOf ReadString) (\<lambda>groupIDs.
     rbind (rwhen (3 \<le> sint v) ReadBool False) (\<lambda>includeAuth.
     rret \<lparr>dgq_Version = v, dgq_GroupIDs = groupIDs, dgq_IncludeAuth = includeAuth\<rparr>))"

definition DescribeGroupsRequest_ok :: "int16 \<Rightarrow> DescribeGroupsRequest \<Rightarrow> bool" where
  "DescribeGroupsRequest_ok v x \<longleftrightarrow> short_list (dgq_GroupIDs x) \<and> (\<forall>y \<in> set (dgq_GroupIDs x). short_string y)"

definition DescribeGroupsRequest_wire :: "int16 \<Rightarrow> DescribeGroupsRequest \<Rightarrow> DescribeGroupsRequest" where
  "DescribeGroupsRequest_wire v x =
     \<lparr>dgq_Version = v,
      dgq_GroupIDs = (dgq_GroupIDs x),
      dgq_IncludeAuth = (if 3 \<le> sint v then (dgq_IncludeAuth x) else False)\<rparr>"

interpretation DescribeGroupsRequest_codec: ncodec "writeDescribeGroupsRequest v" "readDescribeGroupsRequest v" "DescribeGroupsRequest_wire v" "DescribeGroupsRequest_ok v" for v
proof
  fix x :: DescribeGroupsRequest
  assume ok: "DescribeGroupsRequest_ok v x"
  show "reads (readDescribeGroupsRequest v) (writeDescribeGroupsRequest v x) (DescribeGroupsRequest_wire v x)"
    unfolding readDescribeGroupsRequest_def writeDescribeGroupsRequest_def DescribeGroupsRequest_wire_def
    by (rule reads_intros | use ok in \<open>simp add: DescribeGroupsRequest_ok_def\<close>)+
qed

definition EncodeDescribeGroupsRequest :: "DescribeGroupsRequest \<Rightarrow> bytes" where
  "EncodeDescribeGroupsRequest x = writeDescribeGroupsRequest (dgq_Version x) x"

definition DecodeDescribeGroupsRequest :: "int16 \<Rightarrow> bytes \<Rightarrow> DescribeGroupsRequest res" where
  "DecodeDescribeGroupsRequest version body = run (readDescribeGroupsRequest version) body"

text \<open>
  From version 4 on the encoder writes a null string per group and the decoder reads one
  per member; the broker speaks at most version 3.
\<close>

record DescribeGroupsResponseMember =
  dgm_MemberID :: gostring
  dgm_ClientID :: gostring
  dgm_ClientHost :: gostring
  dgm_MemberMetadata :: "bytes option"
  dgm_MemberAssignment :: "bytes option"

definition writeDescribeGroupsResponseMember :: "int16 \<Rightarrow> DescribeGroupsResponseMember \<Rightarrow> bytes" where
  "writeDescribeGroupsResponseMember v x =
     WriteString (dgm_MemberID x)
     @ WriteString (dgm_ClientID x)
     @ WriteString (dgm_ClientHost x)
     @ WriteBytesOrEmpty (dgm_MemberMetadata x)
     @ WriteBytesOrEmpty (dgm_MemberAssignment x)"

definition readDescribeGroupsResponseMember :: "int16 \<Rightarrow> DescribeGroupsResponseMember rd" where
  "readDescribeGroupsResponseMember v =
     rbind ReadString (\<lambda>memberID.
     rbind ReadString (\<lambda>clientID.
     rbind ReadString (\<lambda>clientHost.
     rbind ReadBytes (\<lambda>memberMetadata.
     rbind ReadBytes (\<lambda>memberAssignment.
     rbind (rwhen (4 \<le> sint v) ReadNullableString None) (\<lambda>_.
     rret \<lparr>dgm_MemberID = memberID, dgm_ClientID = clientID, dgm_ClientHost = clientHost, dgm_MemberMetadata = memberMetadata, dgm_MemberAssignment = memberAssignment\<rparr>))))))"

definition DescribeGroupsResponseMember_ok :: "int16 \<Rightarrow> DescribeGroupsResponseMember \<Rightarrow> bool" where
  "DescribeGroupsResponseMember_ok v x \<longleftrightarrow> short_string (dgm_MemberID x)
     \<and> short_string (dgm_ClientID x)
     \<and> short_string (dgm_ClientHost x)
     \<and> short_bytes (dgm_MemberMetadata x)
     \<and> short_bytes (dgm_MemberAssignment x)
     \<and> sint v < 4"

definition DescribeGroupsResponseMember_wire :: "int16 \<Rightarrow> DescribeGroupsResponseMember \<Rightarrow> DescribeGroupsResponseMember" where
  "DescribeGroupsResponseMember_wire v x =
     \<lparr>dgm_MemberID = (dgm_MemberID x),
      dgm_ClientID = (dgm_ClientID x),
      dgm_ClientHost = (dgm_ClientHost x),
      dgm_MemberMetadata = Some (obytes (dgm_MemberMetadata x)),
      dgm_MemberAssignment = Some (obytes (dgm_MemberAssignment x))\<rparr>"

interpretation DescribeGroupsResponseMember_codec: ncodec "writeDescribeGroupsResponseMember v" "readDescribeGroupsResponseMember v" "DescribeGroupsResponseMember_wire v" "DescribeGroupsResponseMember_ok v" for v
proof
  fix x :: DescribeGroupsResponseMember
  assume ok: "DescribeGroupsResponseMember_ok v x"
  then have old: "\<not> 4 \<le> sint v" by (simp add: DescribeGroupsResponseMember_ok_def)
  show "reads (readDescribeGroupsResponseMember v) (writeDescribeGroupsResponseMember v x) (DescribeGroupsResponseMember_wire v x)"
    unfolding readDescribeGroupsResponseMember_def writeDescribeGroupsResponseMember_def DescribeGroupsResponseMember_wire_def wwhen_False [OF old] rwhen_False [OF old] rbind_rret append_Nil append_Nil2
    by (rule reads_intros | use ok in \<open>simp add: DescribeGroupsResponseMember_ok_def\<close>)+
qed

lemmas DescribeGroupsResponseMember_reads [reads_intros] = DescribeGroupsResponseMember_codec.array_dec_norm DescribeGroupsResponseMember_codec.narray_dec_norm

record DescribeGroupsResponseGroup =
  dgg_ErrorCode :: int16
  dgg_GroupID :: gostring
  dgg_State :: gostring
  dgg_ProtocolType :: gostring
  dgg_Protocol :: gostring
  dgg_Members :: "DescribeGroupsResponseMember list"
  dgg_AuthorizedOperations :: int32

definition writeDescribeGroupsResponseGroup :: "int16 \<Rightarrow> DescribeGroupsResponseGroup \<Rightarrow> bytes" where
  "writeDescribeGroupsResponseGroup v x =
     WriteInt16 (dgg_ErrorCode x)
     @ WriteString (dgg_GroupID x)
     @ WriteString (dgg_State x)
     @ WriteString (dgg_ProtocolType x)
     @ WriteString (dgg_Protocol x)
     @ WriteArrayOf (writeDescribeGroupsResponseMember v) (dgg_Members x)
     @ wwhen (4 \<le> sint v) (WriteNullableString None)
     @ wwhen (3 \<le> sint v) (WriteInt32 (dgg_AuthorizedOperations x))"

definition readDescribeGroupsResponseGroup :: "int16 \<Rightarrow> DescribeGroupsResponseGroup rd" where
  "readDescribeGroupsResponseGroup v =
     rbind ReadInt16 (\<lambda>errorCode.
     rbind ReadString (\<lambda>groupID.
     rbind ReadString (\<lambda>state.
     rbind ReadString (\<lambda>protocolType.
     rbind ReadString (\<lambda>protocol.
     rbind (ReadArrayOf (readDescribeGroupsResponseMember v)) (\<lambda>members.
     rbind (rwhen (3 \<le> sint v) ReadInt32 0) (\<lambda>authorizedOperations.
     rret \<lparr>dgg_ErrorCode = errorCode, dgg_GroupID = groupID, dgg_State = state, dgg_ProtocolType = protocolType, dgg_Protocol = protocol, dgg_Members = members, dgg_AuthorizedOperations = authorizedOperations\<rparr>)))))))"

definition DescribeGroupsResponseGroup_ok :: "int16 \<Rightarrow> DescribeGroupsResponseGroup \<Rightarrow> bool" where
  "DescribeGroupsResponseGroup_ok v x \<longleftrightarrow> short_string (dgg_GroupID x)
     \<and> short_string (dgg_State x)
     \<and> short_string (dgg_ProtocolType x)
     \<and> short_string (dgg_Protocol x)
     \<and> short_list (dgg_Members x) \<and> (\<forall>y \<in> set (dgg_Members x). DescribeGroupsResponseMember_ok v y)
     \<and> sint v < 4"

definition DescribeGroupsResponseGroup_wire :: "int16 \<Rightarrow> DescribeGroupsResponseGroup \<Rightarrow> DescribeGroupsResponseGroup" where
  "DescribeGroupsResponseGroup_wire v x =
     \<lparr>dgg_ErrorCode = (dgg_ErrorCode x),
      dgg_GroupID = (dgg_GroupID x),
      dgg_State = (dgg_State x),
      dgg_ProtocolType = (dgg_ProtocolType x),
      dgg_Protocol = (dgg_Protocol x),
      dgg_Members = map (DescribeGroupsResponseMember_wire v) (dgg_Members x),
      dgg_AuthorizedOperations = (if 3 \<le> sint v then (dgg_AuthorizedOperations x) else 0)\<rparr>"

interpretation DescribeGroupsResponseGroup_codec: ncodec "writeDescribeGroupsResponseGroup v" "readDescribeGroupsResponseGroup v" "DescribeGroupsResponseGroup_wire v" "DescribeGroupsResponseGroup_ok v" for v
proof
  fix x :: DescribeGroupsResponseGroup
  assume ok: "DescribeGroupsResponseGroup_ok v x"
  then have old: "\<not> 4 \<le> sint v" by (simp add: DescribeGroupsResponseGroup_ok_def)
  show "reads (readDescribeGroupsResponseGroup v) (writeDescribeGroupsResponseGroup v x) (DescribeGroupsResponseGroup_wire v x)"
    unfolding readDescribeGroupsResponseGroup_def writeDescribeGroupsResponseGroup_def DescribeGroupsResponseGroup_wire_def wwhen_False [OF old] rwhen_False [OF old] rbind_rret append_Nil append_Nil2
    by (rule reads_intros | use ok in \<open>simp add: DescribeGroupsResponseGroup_ok_def\<close>)+
qed

lemmas DescribeGroupsResponseGroup_reads [reads_intros] = DescribeGroupsResponseGroup_codec.array_dec_norm DescribeGroupsResponseGroup_codec.narray_dec_norm

record DescribeGroupsResponse =
  dgs_Version :: int16
  dgs_ThrottleTimeMs :: int32
  dgs_Groups :: "DescribeGroupsResponseGroup list"

definition writeDescribeGroupsResponse :: "int16 \<Rightarrow> DescribeGroupsResponse \<Rightarrow> bytes" where
  "writeDescribeGroupsResponse v x =
     wwhen (1 \<le> sint v) (WriteInt32 (dgs_ThrottleTimeMs x))
     @ WriteArrayOf (writeDescribeGroupsResponseGroup v) (dgs_Groups x)"

definition readDescribeGroupsResponse :: "int16 \<Rightarrow> DescribeGroupsResponse rd" where
  "readDescribeGroupsResponse v =
     rbind (rwhen (1 \<le> sint v) ReadInt32 0) (\<lambda>throttleTimeMs.
     rbind (ReadArrayOf (readDescribeGroupsResponseGroup v)) (\<lambda>groups.
     rret \<lparr>dgs_Version = v, dgs_ThrottleTimeMs = throttleTimeMs, dgs_Groups = groups\<rparr>))"

definition DescribeGroupsResponse_ok :: "int16 \<Rightarrow> DescribeGroupsResponse \<Rightarrow> bool" where
  "DescribeGroupsResponse_ok v x \<longleftrightarrow> short_list (dgs_Groups x) \<and> (\<forall>y \<in> set (dgs_Groups x). DescribeGroupsResponseGroup_ok v y)"

definition DescribeGroupsResponse_wire :: "int16 \<Rightarrow> DescribeGroupsResponse \<Rightarrow> DescribeGroupsResponse" where
  "DescribeGroupsResponse_wire v x =
     \<lparr>dgs_Version = v,
      dgs_ThrottleTimeMs = (if 1 \<le> sint v then (dgs_ThrottleTimeMs x) else 0),
      dgs_Groups = map (DescribeGroupsResponseGroup_wire v) (dgs_Groups x)\<rparr>"

interpretation DescribeGroupsResponse_codec: ncodec "writeDescribeGroupsResponse v" "readDescribeGroupsResponse v" "DescribeGroupsResponse_wire v" "DescribeGroupsResponse_ok v" for v
proof
  fix x :: DescribeGroupsResponse
  assume ok: "DescribeGroupsResponse_ok v x"
  show "reads (readDescribeGroupsResponse v) (writeDescribeGroupsResponse v x) (DescribeGroupsResponse_wire v x)"
    unfolding readDescribeGroupsResponse_def writeDescribeGroupsResponse_def DescribeGroupsResponse_wire_def
    by (rule reads_intros | use ok in \<open>simp add: DescribeGroupsResponse_ok_def\<close>)+
qed

definition EncodeDescribeGroupsResponse :: "DescribeGroupsResponse \<Rightarrow> bytes" where
  "EncodeDescribeGroupsResponse x = writeDescribeGroupsResponse (dgs_Version x) x"

definition DecodeDescribeGroupsResponse :: "int16 \<Rightarrow> bytes \<Rightarrow> DescribeGroupsResponse res" where
  "DecodeDescribeGroupsResponse version body = run (readDescribeGroupsResponse version) body"

record DeleteGroupsRequest =
  dlq_Version :: int16
  dlq_GroupIDs :: "gostring list"

definition writeDeleteGroupsRequest :: "int16 \<Rightarrow> DeleteGroupsRequest \<Rightarrow> bytes" where
  "writeDeleteGroupsRequest v x =
     WriteArrayOf WriteString (dlq_GroupIDs x)"

definition readDeleteGroupsRequest :: "int16 \<Rightarrow> DeleteGroupsRequest rd" where
  "readDeleteGroupsRequest v =
     rbind (ReadArrayOf ReadString) (\<lambda>groupIDs.
     rret \<lparr>dlq_Version = v, dlq_GroupIDs = groupIDs\<rparr>)"

definition DeleteGroupsRequest_ok :: "int16 \<Rightarrow> DeleteGroupsRequest \<Rightarrow> bool" where
  "DeleteGroupsRequest_ok v x \<longleftrightarrow> short_list (dlq_GroupIDs x) \<and> (\<forall>y \<in> set (dlq_GroupIDs x). short_string y)"

definition DeleteGroupsRequest_wire :: "int16 \<Rightarrow> DeleteGroupsRequest \<Rightarrow> DeleteGroupsRequest" where
  "DeleteGroupsRequest_wire v x =
     \<lparr>dlq_Version = v,
      dlq_GroupIDs = (dlq_GroupIDs x)\<rparr>"

interpretation DeleteGroupsRequest_codec: ncodec "writeDeleteGroupsRequest v" "readDeleteGroupsRequest v" "DeleteGroupsRequest_wire v" "DeleteGroupsRequest_ok v" for v
proof
  fix x :: DeleteGroupsRequest
  assume ok: "DeleteGroupsRequest_ok v x"
  show "reads (readDeleteGroupsRequest v) (writeDeleteGroupsRequest v x) (DeleteGroupsRequest_wire v x)"
    unfolding readDeleteGroupsRequest_def writeDeleteGroupsRequest_def DeleteGroupsRequest_wire_def
    by (rule reads_intros | use ok in \<open>simp add: DeleteGroupsRequest_ok_def\<close>)+
qed

definition EncodeDeleteGroupsRequest :: "DeleteGroupsRequest \<Rightarrow> bytes" where
  "EncodeDeleteGroupsRequest x = writeDeleteGroupsRequest (dlq_Version x) x"

definition DecodeDeleteGroupsRequest :: "int16 \<Rightarrow> bytes \<Rightarrow> DeleteGroupsRequest res" where
  "DecodeDeleteGroupsRequest version body = run (readDeleteGroupsRequest version) body"

record DeleteGroupsResponseGroup =
  dlg_GroupID :: gostring
  dlg_ErrorCode :: int16
  dlg_ErrorMessage :: "gostring option"

definition writeDeleteGroupsResponseGroup :: "int16 \<Rightarrow> DeleteGroupsResponseGroup \<Rightarrow> bytes" where
  "writeDeleteGroupsResponseGroup v x =
     WriteString (dlg_GroupID x)
     @ WriteInt16 (dlg_ErrorCode x)
     @ wwhen (1 \<le> sint v) (WriteNullableString (dlg_ErrorMessage x))"

definition readDeleteGroupsResponseGroup :: "int16 \<Rightarrow> DeleteGroupsResponseGroup rd" where
  "readDeleteGroupsResponseGroup v =
     rbind ReadString (\<lambda>groupID.
     rbind ReadInt16 (\<lambda>errorCode.
     rbind (rwhen (1 \<le> sint v) ReadNullableString None) (\<lambda>errorMessage.
     rret \<lparr>dlg_GroupID = groupID, dlg_ErrorCode = errorCode, dlg_ErrorMessage = errorMessage\<rparr>)))"

definition DeleteGroupsResponseGroup_ok :: "int16 \<Rightarrow> DeleteGroupsResponseGroup \<Rightarrow> bool" where
  "DeleteGroupsResponseGroup_ok v x \<longleftrightarrow> short_string (dlg_GroupID x)
     \<and> (1 \<le> sint v \<longrightarrow> short_nstring (dlg_ErrorMessage x))"

definition DeleteGroupsResponseGroup_wire :: "int16 \<Rightarrow> DeleteGroupsResponseGroup \<Rightarrow> DeleteGroupsResponseGroup" where
  "DeleteGroupsResponseGroup_wire v x =
     \<lparr>dlg_GroupID = (dlg_GroupID x),
      dlg_ErrorCode = (dlg_ErrorCode x),
      dlg_ErrorMessage = (if 1 \<le> sint v then (dlg_ErrorMessage x) else None)\<rparr>"

interpretation DeleteGroupsResponseGroup_codec: ncodec "writeDeleteGroupsResponseGroup v" "readDeleteGroupsResponseGroup v" "DeleteGroupsResponseGroup_wire v" "DeleteGroupsResponseGroup_ok v" for v
proof
  fix x :: DeleteGroupsResponseGroup
  assume ok: "DeleteGroupsResponseGroup_ok v x"
  show "reads (readDeleteGroupsResponseGroup v) (writeDeleteGroupsResponseGroup v x) (DeleteGroupsResponseGroup_wire v x)"
    unfolding readDeleteGroupsResponseGroup_def writeDeleteGroupsResponseGroup_def DeleteGroupsResponseGroup_wire_def
    by (rule reads_intros | use ok in \<open>simp add: DeleteGroupsResponseGroup_ok_def\<close>)+
qed

lemmas DeleteGroupsResponseGroup_reads [reads_intros] = DeleteGroupsResponseGroup_codec.array_dec_norm DeleteGroupsResponseGroup_codec.narray_dec_norm

record DeleteGroupsResponse =
  dls_Version :: int16
  dls_ThrottleTimeMs :: int32
  dls_Groups :: "DeleteGroupsResponseGroup list"

definition writeDeleteGroupsResponse :: "int16 \<Rightarrow> DeleteGroupsResponse \<Rightarrow> bytes" where
  "writeDeleteGroupsResponse v x =
     wwhen (1 \<le> sint v) (WriteInt32 (dls_ThrottleTimeMs x))
     @ WriteArrayOf (writeDeleteGroupsResponseGroup v) (dls_Groups x)"

definition readDeleteGroupsResponse :: "int16 \<Rightarrow> DeleteGroupsResponse rd" where
  "readDeleteGroupsResponse v =
     rbind (rwhen (1 \<le> sint v) ReadInt32 0) (\<lambda>throttleTimeMs.
     rbind (ReadArrayOf (readDeleteGroupsResponseGroup v)) (\<lambda>groups.
     rret \<lparr>dls_Version = v, dls_ThrottleTimeMs = throttleTimeMs, dls_Groups = groups\<rparr>))"

definition DeleteGroupsResponse_ok :: "int16 \<Rightarrow> DeleteGroupsResponse \<Rightarrow> bool" where
  "DeleteGroupsResponse_ok v x \<longleftrightarrow> short_list (dls_Groups x) \<and> (\<forall>y \<in> set (dls_Groups x). DeleteGroupsResponseGroup_ok v y)"

definition DeleteGroupsResponse_wire :: "int16 \<Rightarrow> DeleteGroupsResponse \<Rightarrow> DeleteGroupsResponse" where
  "DeleteGroupsResponse_wire v x =
     \<lparr>dls_Version = v,
      dls_ThrottleTimeMs = (if 1 \<le> sint v then (dls_ThrottleTimeMs x) else 0),
      dls_Groups = map (DeleteGroupsResponseGroup_wire v) (dls_Groups x)\<rparr>"

interpretation DeleteGroupsResponse_codec: ncodec "writeDeleteGroupsResponse v" "readDeleteGroupsResponse v" "DeleteGroupsResponse_wire v" "DeleteGroupsResponse_ok v" for v
proof
  fix x :: DeleteGroupsResponse
  assume ok: "DeleteGroupsResponse_ok v x"
  show "reads (readDeleteGroupsResponse v) (writeDeleteGroupsResponse v x) (DeleteGroupsResponse_wire v x)"
    unfolding readDeleteGroupsResponse_def writeDeleteGroupsResponse_def DeleteGroupsResponse_wire_def
    by (rule reads_intros | use ok in \<open>simp add: DeleteGroupsResponse_ok_def\<close>)+
qed

definition EncodeDeleteGroupsResponse :: "DeleteGroupsResponse \<Rightarrow> bytes" where
  "EncodeDeleteGroupsResponse x = writeDeleteGroupsResponse (dls_Version x) x"

definition DecodeDeleteGroupsResponse :: "int16 \<Rightarrow> bytes \<Rightarrow> DeleteGroupsResponse res" where
  "DecodeDeleteGroupsResponse version body = run (readDeleteGroupsResponse version) body"

subsection \<open>What a client encodes is what the broker decodes\<close>

text \<open>
  C30.  JoinGroup and SyncGroup requests and responses survive encoding and decoding at every
  version, up to the fields that version does not carry; a JoinGroup request of version 0 gets its
  session timeout as rebalance timeout.
\<close>

theorem membership_roundtrip:
  assumes "JoinGroupRequest_ok (jgq_Version join) join" and "length (EncodeJoinGroupRequest join) < 2 ^ 63"
    and "JoinGroupResponse_ok (jgs_Version joined) joined" and "length (EncodeJoinGroupResponse joined) < 2 ^ 63"
    and "SyncGroupRequest_ok (sgq_Version sync) sync" and "length (EncodeSyncGroupRequest sync) < 2 ^ 63"
    and "SyncGroupResponse_ok (sgs_Version synced) synced" and "length (EncodeSyncGroupResponse synced) < 2 ^ 63"
  shows "DecodeJoinGroupRequest (jgq_Version join) (EncodeJoinGroupRequest join) = Inr (JoinGroupRequest_wire (jgq_Version join) join)
    \<and> DecodeJoinGroupResponse (jgs_Version joined) (EncodeJoinGroupResponse joined) = Inr (JoinGroupResponse_wire (jgs_Version joined) joined)
    \<and> DecodeSyncGroupRequest (sgq_Version sync) (EncodeSyncGroupRequest sync) = Inr (SyncGroupRequest_wire (sgq_Version sync) sync)
    \<and> DecodeSyncGroupResponse (sgs_Version synced) (EncodeSyncGroupResponse synced) = Inr (SyncGroupResponse_wire (sgs_Version synced) synced)"
  using assms JoinGroupRequest_codec.decode_encode [of "jgq_Version join" join "[]"]
    JoinGroupResponse_codec.decode_encode [of "jgs_Version joined" joined "[]"]
    SyncGroupRequest_codec.decode_encode [of "sgq_Version sync" sync "[]"]
    SyncGroupResponse_codec.decode_encode [of "sgs_Version synced" synced "[]"]
  by (simp add: EncodeJoinGroupRequest_def DecodeJoinGroupRequest_def EncodeJoinGroupResponse_def DecodeJoinGroupResponse_def EncodeSyncGroupRequest_def DecodeSyncGroupRequest_def EncodeSyncGroupResponse_def DecodeSyncGroupResponse_def)

definition sample_join :: JoinGroupRequest where
  "sample_join = \<lparr>jgq_Version = 5, jgq_Group = [103], jgq_SessionTimeoutMs = 10000, jgq_RebalanceTimeoutMs = 30000,
     jgq_MemberID = [], jgq_InstanceID = None, jgq_ProtocolType = [99],
     jgq_Protocols = [\<lparr>jrp_Name = [114], jrp_Metadata = Some [0, 1]\<rparr>]\<rparr>"

definition sample_joined :: JoinGroupResponse where
  "sample_joined = \<lparr>jgs_Version = 5, jgs_ThrottleTimeMs = 0, jgs_ErrorCode = 0, jgs_GenerationID = 1,
     jgs_ProtocolName = [114], jgs_LeaderID = [109], jgs_MemberID = [109],
     jgs_Members = [\<lparr>jsm_MemberID = [109], jsm_InstanceID = None, jsm_Metadata = Some [0, 1]\<rparr>]\<rparr>"

definition sample_sync :: SyncGroupRequest where
  "sample_sync = \<lparr>sgq_Version = 3, sgq_Group = [103], sgq_GenerationID = 1, sgq_MemberID = [109],
     sgq_InstanceID = None, sgq_Assignments = [\<lparr>sra_MemberID = [109], sra_Assignment = Some [7]\<rparr>]\<rparr>"

definition sample_synced :: SyncGroupResponse where
  "sample_synced = \<lparr>sgs_Version = 3, sgs_ThrottleTimeMs = 0, sgs_ErrorCode = 0, sgs_Assignment = Some [7]\<rparr>"

theorem membership_roundtrip_witness:
  "DecodeJoinGroupRequest (jgq_Version sample_join) (EncodeJoinGroupRequest sample_join) = Inr sample_join
    \<and> DecodeJoinGroupResponse (jgs_Version sample_joined) (EncodeJoinGroupResponse sample_joined) = Inr sample_joined
    \<and> DecodeSyncGroupRequest (sgq_Version sample_sync) (EncodeSyncGroupRequest sample_sync) = Inr sample_sync
    \<and> DecodeSyncGroupResponse (sgs_Version sample_synced) (EncodeSyncGroupResponse sample_synced) = Inr sample_synced"
proof -
  have "JoinGroupRequest_ok (jgq_Version sample_join) sample_join" and "length (EncodeJoinGroupRequest sample_join) < 2 ^ 63"
    by (simp_all add: sample_join_def wire_shorts EncodeJoinGroupRequest_def JoinGroupRequest_ok_def JoinGroupRequestProtocol_ok_def
        writeJoinGroupRequest_def writeJoinGroupRequestProtocol_def wire_sizes)
  note join_hyps = this
  have "JoinGroupResponse_ok (jgs_Version sample_joined) sample_joined" and "length (EncodeJoinGroupResponse sample_joined) < 2 ^ 63"
    by (simp_all add: sample_joined_def wire_shorts EncodeJoinGroupResponse_def JoinGroupResponse_ok_def JoinGroupResponseMember_ok_def
        writeProtocolName_def writeJoinGroupResponse_def writeJoinGroupResponseMember_def wire_sizes)
  note joined_hyps = this
  have "SyncGroupRequest_ok (sgq_Version sample_sync) sample_sync" and "length (EncodeSyncGroupRequest sample_sync) < 2 ^ 63"
    by (simp_all add: sample_sync_def wire_shorts EncodeSyncGroupRequest_def SyncGroupRequest_ok_def SyncGroupRequestAssignment_ok_def
        writeSyncGroupRequest_def writeSyncGroupRequestAssignment_def wire_sizes)
  note sync_hyps = this
  have "SyncGroupResponse_ok (sgs_Version sample_synced) sample_synced" and "length (EncodeSyncGroupResponse sample_synced) < 2 ^ 63"
    by (simp_all add: sample_synced_def wire_shorts EncodeSyncGroupResponse_def SyncGroupResponse_ok_def
        writeSyncGroupResponse_def wire_sizes)
  note synced_hyps = this
  show ?thesis
    using membership_roundtrip [OF join_hyps joined_hyps sync_hyps synced_hyps]
    by (simp add: sample_join_def sample_joined_def sample_sync_def sample_synced_def
        JoinGroupRequest_wire_def JoinGroupResponse_wire_def JoinGroupResponseMember_wire_def SyncGroupRequest_wire_def SyncGroupResponse_wire_def obytes_def)
qed

text \<open>
  OffsetCommit and OffsetFetch requests and responses survive encoding and decoding at every
  version, up to the fields that version does not carry; a null topic list of an OffsetFetch request stays null.
\<close>

theorem offsets_roundtrip:
  assumes "OffsetCommitRequest_ok (ocq_Version commit) commit" and "length (EncodeOffsetCommitRequest commit) < 2 ^ 63"
    and "OffsetCommitResponse_ok (ocs_Version committed) committed" and "length (EncodeOffsetCommitResponse committed) < 2 ^ 63"
    and "OffsetFetchRequest_ok ofetch" and "length (EncodeOffsetFetchRequest ofetch) < 2 ^ 63"
    and "OffsetFetchResponse_ok (ofs_Version ofetched) ofetched" and "length (EncodeOffsetFetchResponse ofetched) < 2 ^ 63"
  shows "DecodeOffsetCommitRequest (ocq_Version commit) (EncodeOffsetCommitRequest commit) = Inr (OffsetCommitRequest_wire (ocq_Version commit) commit)
    \<and> DecodeOffsetCommitResponse (ocs_Version committed) (EncodeOffsetCommitResponse committed) = Inr (OffsetCommitResponse_wire (ocs_Version committed) committed)
    \<and> DecodeOffsetFetchRequest (ofq_Version ofetch) (EncodeOffsetFetchRequest ofetch) = Inr (OffsetFetchRequest_wire ofetch)
    \<and> DecodeOffsetFetchResponse (ofs_Version ofetched) (EncodeOffsetFetchResponse ofetched) = Inr (OffsetFetchResponse_wire (ofs_Version ofetched) ofetched)"
  using assms OffsetCommitRequest_codec.decode_encode [of "ocq_Version commit" commit "[]"]
    OffsetCommitResponse_codec.decode_encode [of "ocs_Version committed" committed "[]"]
    OffsetFetchRequest_decode_encode [of ofetch]
    OffsetFetchResponse_codec.decode_encode [of "ofs_Version ofetched" ofetched "[]"]
  by (simp add: EncodeOffsetCommitRequest_def DecodeOffsetCommitRequest_def EncodeOffsetCommitResponse_def DecodeOffsetCommitResponse_def EncodeOffsetFetchResponse_def DecodeOffsetFetchResponse_def)

definition sample_commit :: OffsetCommitRequest where
  "sample_commit = \<lparr>ocq_Version = 7, ocq_Group = [103], ocq_Generation = 1, ocq_MemberID = [109],
     ocq_InstanceID = None, ocq_Topics = [\<lparr>ocrt_Topic = [116], ocrt_Partitions =
       [\<lparr>ocrp_Partition = 0, ocrp_Offset = 42, ocrp_LeaderEpoch = 0, ocrp_Metadata = Some [120]\<rparr>]\<rparr>]\<rparr>"

definition sample_committed :: OffsetCommitResponse where
  "sample_committed = \<lparr>ocs_Version = 7, ocs_ThrottleTimeMs = 0, ocs_Topics =
     [\<lparr>ocst_Topic = [116], ocst_Partitions = [\<lparr>ocsp_Partition = 0, ocsp_ErrorCode = 25\<rparr>]\<rparr>]\<rparr>"

definition sample_ofetch :: OffsetFetchRequest where
  "sample_ofetch = \<lparr>ofq_Version = 5, ofq_Group = [103], ofq_Topics = None\<rparr>"

definition sample_ofetched :: OffsetFetchResponse where
  "sample_ofetched = \<lparr>ofs_Version = 5, ofs_ThrottleTimeMs = 0, ofs_Topics = [\<lparr>ofst_Topic = [116], ofst_Partitions =
       [\<lparr>ofsp_Partition = 0, ofsp_Offset = 42, ofsp_LeaderEpoch = -1, ofsp_Metadata = Some [120], ofsp_ErrorCode = 0\<rparr>]\<rparr>],
     ofs_ErrorCode = 0\<rparr>"

theorem offsets_roundtrip_witness:
  "DecodeOffsetCommitRequest (ocq_Version sample_commit) (EncodeOffsetCommitRequest sample_commit) = Inr sample_commit
    \<and> DecodeOffsetCommitResponse (ocs_Version sample_committed) (EncodeOffsetCommitResponse sample_committed) = Inr sample_committed
    \<and> DecodeOffsetFetchRequest (ofq_Version sample_ofetch) (EncodeOffsetFetchRequest sample_ofetch) = Inr sample_ofetch
    \<and> DecodeOffsetFetchResponse (ofs_Version sample_ofetched) (EncodeOffsetFetchResponse sample_ofetched) = Inr sample_ofetched"
proof -
  have "OffsetCommitRequest_ok (ocq_Version sample_commit) sample_commit" and "length (EncodeOffsetCommitRequest sample_commit) < 2 ^ 63"
    by (simp_all add: sample_commit_def wire_shorts EncodeOffsetCommitRequest_def OffsetCommitRequest_ok_def OffsetCommitRequestTopic_ok_def OffsetCommitRequestPartition_ok_def
        writeOffsetCommitRequest_def writeOffsetCommitRequestTopic_def writeOffsetCommitRequestPartition_def wire_sizes)
  note commit_hyps = this
  have "OffsetCommitResponse_ok (ocs_Version sample_committed) sample_committed" and "length (EncodeOffsetCommitResponse sample_committed) < 2 ^ 63"
    by (simp_all add: sample_committed_def wire_shorts EncodeOffsetCommitResponse_def OffsetCommitResponse_ok_def OffsetCommitResponseTopic_ok_def OffsetCommitResponsePartition_ok_def
        writeOffsetCommitResponse_def writeOffsetCommitResponseTopic_def writeOffsetCommitResponsePartition_def wire_sizes)
  note committed_hyps = this
  have "OffsetFetchRequest_ok sample_ofetch" and "length (EncodeOffsetFetchRequest sample_ofetch) < 2 ^ 63"
    by (simp_all add: sample_ofetch_def wire_shorts EncodeOffsetFetchRequest_def OffsetFetchRequest_ok_def OffsetFetchRequestTopic_ok_def
        writeOffsetFetchRequestTopic_def wire_sizes)
  note ofetch_hyps = this
  have "OffsetFetchResponse_ok (ofs_Version sample_ofetched) sample_ofetched" and "length (EncodeOffsetFetchResponse sample_ofetched) < 2 ^ 63"
    by (simp_all add: sample_ofetched_def wire_shorts EncodeOffsetFetchResponse_def OffsetFetchResponse_ok_def OffsetFetchResponseTopic_ok_def OffsetFetchResponsePartition_ok_def
        writeOffsetFetchResponse_def writeOffsetFetchResponseTopic_def writeOffsetFetchResponsePartition_def wire_sizes)
  note ofetched_hyps = this
  show ?thesis
    using offsets_roundtrip [OF commit_hyps committed_hyps ofetch_hyps ofetched_hyps]
    by (simp add: sample_commit_def sample_committed_def sample_ofetch_def sample_ofetched_def
        OffsetCommitRequest_wire_def OffsetCommitRequestTopic_wire_def OffsetCommitRequestPartition_wire_def OffsetCommitResponse_wire_def OffsetFetchRequest_wire_def OffsetFetchRequestTopic_wire_def OffsetFetchResponse_wire_def OffsetFetchResponseTopic_wire_def OffsetFetchResponsePartition_wire_def obytes_def)
qed

end
