(* ===== verification/Record_Batch.thy ===== *)
theory Record_Batch
  imports Wire
begin

text \<open>
  Record batches, format version 2 (\<^verbatim>\<open>src/pkg/protocol/record_batch.go\<close>): records
  with varint fields, the 61-byte batch header with its CRC-32C, and the header
  parser of the storage engine (\<^verbatim>\<open>src/internal/storage/record.go\<close>).
\<close>

unbundle bit_operations_syntax

subsection \<open>CRC-32C (\<^verbatim>\<open>hash/crc32\<close> with the Castagnoli table)\<close>

definition crc_bit :: "uint32 \<Rightarrow> uint32" where
  "crc_bit c = (if odd c then drop_bit 1 c XOR 0x82F63B78 else drop_bit 1 c)"

lemma crc_bit_code [code]:
  "crc_bit c = (if bit c 0 then drop_bit 1 c XOR 0x82F63B78 else drop_bit 1 c)"
  by (simp add: crc_bit_def bit_0)

definition crc_byte :: "uint32 \<Rightarrow> byte \<Rightarrow> uint32" where
  "crc_byte c b = (crc_bit ^^ 8) (c XOR ucast b)"

definition CalculateRecordBatchCRC :: "bytes \<Rightarrow> uint32" where
  "CalculateRecordBatchCRC bs = NOT (foldl crc_byte (NOT 0) bs)"

subsection \<open>Records\<close>

record RecordHeader =
  rh_Key :: gostring
  rh_Value :: "bytes option"

record Record =
  rec_Attributes :: int8
  TimestampDelta :: int64
  OffsetDelta :: int32
  Key :: "bytes option"
  Value :: "bytes option"
  Headers :: "RecordHeader list"

record RecordBatch =
  BaseOffset :: int64
  PartitionLeaderEpoch :: int32
  Magic :: int8
  CRC :: uint32
  rb_Attributes :: int16
  LastOffsetDelta :: int32
  BaseTimestamp :: int64
  MaxTimestamp :: int64
  ProducerID :: int64
  ProducerEpoch :: int16
  BaseSequence :: int32
  Records :: "Record list"

definition RecordMagic :: int8 where
  "RecordMagic = 2"

definition appendVarintBytes :: "bytes option \<Rightarrow> bytes" where
  "appendVarintBytes b =
     (case b of None \<Rightarrow> PutVarint (-1) | Some bs \<Rightarrow> PutVarint (of_nat (length bs)) @ bs)"

definition EncodeRecordHeader :: "RecordHeader \<Rightarrow> bytes" where
  "EncodeRecordHeader h =
     PutVarint (of_nat (length (rh_Key h))) @ rh_Key h @ appendVarintBytes (rh_Value h)"

definition record_body :: "Record \<Rightarrow> bytes" where
  "record_body rec =
     [rec_Attributes rec] @ PutVarint (TimestampDelta rec) @ PutVarint (scast (OffsetDelta rec))
     @ PutVarint (of_nat (olen (Key rec))) @ obytes (Key rec)
     @ appendVarintBytes (Value rec)
     @ PutUvarint (of_nat (length (Headers rec))) @ concat (map EncodeRecordHeader (Headers rec))"

definition EncodeRecord :: "Record \<Rightarrow> bytes" where
  "EncodeRecord rec = PutVarint (of_nat (length (record_body rec))) @ record_body rec"

text \<open>
  \<^verbatim>\<open>EncodeRecordBatch\<close> fills in the magic, the last offset delta and the CRC of its
  argument; \<open>encode_batch\<close> is the bytes and the batch after these assignments.
  The buffer is allocated with capacity \<^verbatim>\<open>12+int(length)\<close>, which panics when the 32-bit
  length has wrapped to a negative number.
\<close>

definition batch_prefix :: "RecordBatch \<Rightarrow> int32 \<Rightarrow> bytes" where
  "batch_prefix b len =
     PutUint64 (BaseOffset b) @ PutUint32 len @ PutUint32 (PartitionLeaderEpoch b) @ [Magic b]"

definition batch_after_crc :: "RecordBatch \<Rightarrow> bytes \<Rightarrow> bytes" where
  "batch_after_crc b records =
     PutUint16 (rb_Attributes b) @ PutUint32 (LastOffsetDelta b) @ PutUint64 (BaseTimestamp b)
     @ PutUint64 (MaxTimestamp b) @ PutUint64 (ProducerID b) @ PutUint16 (ProducerEpoch b)
     @ PutUint32 (BaseSequence b) @ PutUint32 (of_nat (length (Records b))) @ records"

definition encode_batch :: "RecordBatch \<Rightarrow> bytes \<times> RecordBatch" where
  "encode_batch b0 =
     (let b1 = b0\<lparr>Magic := RecordMagic\<rparr>;
          b2 = (if LastOffsetDelta b1 = 0 \<and> length (Records b1) > 0
                then b1\<lparr>LastOffsetDelta := of_nat (length (Records b1) - 1)\<rparr> else b1);
          records = concat (map EncodeRecord (Records b2));
          len = 49 + of_nat (length records);
          crc = CalculateRecordBatchCRC (batch_after_crc b2 records)
      in (batch_prefix b2 len @ PutUint32 crc @ batch_after_crc b2 records, b2\<lparr>CRC := crc\<rparr>))"

definition EncodeRecordBatch :: "RecordBatch \<Rightarrow> (bytes \<times> RecordBatch) res" where
  "EncodeRecordBatch b =
     (let len = 49 + of_nat (length (concat (map EncodeRecord (Records b)))) :: int32
      in if 12 + sint len < 0 then Inl Panic else Inr (encode_batch b))"

subsection \<open>Decoding\<close>

definition ReadBytesVarint :: "bytes option rd" where
  "ReadBytesVarint = rbind ReadVarint (\<lambda>l.
     if sint l < 0 then rret None
     else (\<lambda>r. if s64 (off r + sint l) > int (length (buf r)) then Inl BytesVarintOverrun
               else rbind (rslice (sint l)) (\<lambda>b. rret (Some b)) r))"

definition ReadVarintString :: "gostring rd" where
  "ReadVarintString = rbind ReadBytesVarint (\<lambda>b. rret (obytes b))"

definition ReadRecordHeader :: "RecordHeader rd" where
  "ReadRecordHeader = rbind ReadVarintString (\<lambda>k. rbind ReadBytesVarint (\<lambda>v.
     rret \<lparr>rh_Key = k, rh_Value = v\<rparr>))"

definition decodeRecordBody :: "Record rd" where
  "decodeRecordBody =
     rbind ReadInt8 (\<lambda>a. rbind ReadVarint (\<lambda>td. rbind ReadVarint (\<lambda>od.
     rbind ReadBytesVarint (\<lambda>k. rbind ReadBytesVarint (\<lambda>v. rbind ReadUVarint (\<lambda>hc.
     rbind (read_times (unat hc) ReadRecordHeader) (\<lambda>hs.
     rret \<lparr>rec_Attributes = a, TimestampDelta = td, OffsetDelta = ucast od,
           Key = k, Value = v, Headers = hs\<rparr>)))))))"

definition decodeRecord :: "bytes \<Rightarrow> (Record \<times> int) res" where
  "decodeRecord src =
     (case Varint src of
        None \<Rightarrow> Inl InvalidRecordLengthVarint
      | Some (len, n) \<Rightarrow>
          (if sint len < 0 \<or> s64 (int n + sint len) > int (length src) then Inl InvalidRecordLength
           else if s64 (int n + sint len) < int n then Inl Panic
           else (case decodeRecordBody (NewReader (take (nat (sint len)) (drop n src))) of
                   Inl e \<Rightarrow> Inl e
                 | Inr (rec, _) \<Rightarrow> Inr (rec, int n + sint len))))"

definition DecodeRecordBytes :: "bytes \<Rightarrow> (Record \<times> int) res" where
  "DecodeRecordBytes src = decodeRecord src"

text \<open>The loop \<^verbatim>\<open>for i < count && off < len(raw)\<close>, over the bytes from \<^verbatim>\<open>off\<close> on.\<close>

fun decode_records :: "nat \<Rightarrow> bytes \<Rightarrow> Record list res" where
  "decode_records 0 src = Inr []"
| "decode_records (Suc k) src =
     (if src = [] then Inr []
      else case decodeRecord src of
             Inl e \<Rightarrow> Inl e
           | Inr (rec, n) \<Rightarrow> res_bind (decode_records k (drop (nat n) src)) (\<lambda>rs. Inr (rec # rs)))"

definition slice :: "nat \<Rightarrow> nat \<Rightarrow> bytes \<Rightarrow> bytes" where
  "slice a b bs = take (b - a) (drop a bs)"

definition DecodeRecordBatch :: "bytes \<Rightarrow> RecordBatch res" where
  "DecodeRecordBatch raw =
     (if length raw < 61 then Inl BatchTooShort
      else let b = \<lparr>BaseOffset = Uint64 (slice 0 8 raw),
                    PartitionLeaderEpoch = Uint32 (slice 12 16 raw),
                    Magic = raw ! 16,
                    CRC = Uint32 (slice 17 21 raw),
                    rb_Attributes = Uint16 (slice 21 23 raw),
                    LastOffsetDelta = Uint32 (slice 23 27 raw),
                    BaseTimestamp = Uint64 (slice 27 35 raw),
                    MaxTimestamp = Uint64 (slice 35 43 raw),
                    ProducerID = Uint64 (slice 43 51 raw),
                    ProducerEpoch = Uint16 (slice 51 53 raw),
                    BaseSequence = Uint32 (slice 53 57 raw),
                    Records = []\<rparr>;
               count0 = Uint32 (slice 57 61 raw);
               count = (if count0 = 0 then LastOffsetDelta b + 1 else count0)
           in if Magic b \<noteq> RecordMagic then Inl UnsupportedMagic
              else res_bind (decode_records (nat (sint count)) (drop 61 raw))
                     (\<lambda>rs. Inr (b\<lparr>Records := rs\<rparr>)))"

subsection \<open>The header the storage engine reads (\<^verbatim>\<open>storage/record.go\<close>)\<close>

record RecordBatchHeader =
  bh_BaseOffset :: int64
  bh_Length :: int32
  bh_LastOffsetDelta :: int32
  bh_Count :: int32

definition batchHeaderSize :: nat where
  "batchHeaderSize = 61"

definition ParseRecordBatchHeader :: "bytes \<Rightarrow> RecordBatchHeader res" where
  "ParseRecordBatchHeader raw =
     (if length raw < batchHeaderSize then Inl BatchTooShort
      else if raw ! 16 \<noteq> 2 then Inl UnsupportedMagic
      else Inr \<lparr>bh_BaseOffset = Uint64 (slice 0 8 raw), bh_Length = Uint32 (slice 8 12 raw),
                bh_LastOffsetDelta = Uint32 (slice 23 27 raw), bh_Count = Uint32 (slice 57 61 raw)\<rparr>)"

definition BatchTotalSize :: "RecordBatchHeader \<Rightarrow> int" where
  "BatchTotalSize h = 12 + sint (bh_Length h)"

subsection \<open>Record round trip\<close>

lemma sint64_of_nat: "n < 2 ^ 63 \<Longrightarrow> sint (of_nat n :: int64) = int n"
  by (rule sint_of_nat_small) simp

lemma reads_ReadBytesVarint:
  assumes "length bs < 2 ^ 63"
  shows "reads ReadBytesVarint (PutVarint (of_nat (length bs)) @ bs) (Some bs)"
  unfolding ReadBytesVarint_def
proof (rule reads_rbind [OF varint_codec.dec_enc [unfolded WriteVarint_def]])
  have "s64 (int (length pre) + int (length bs)) = int (length pre) + int (length bs)"
    if "int (length pre + length bs) < 2 ^ 63" for pre :: bytes
    using that by (intro s64_id) auto
  then show "reads (if sint (of_nat (length bs) :: int64) < 0 then rret None
     else (\<lambda>r. if s64 (off r + sint (of_nat (length bs) :: int64)) > int (length (buf r))
               then Inl BytesVarintOverrun
               else rbind (rslice (sint (of_nat (length bs) :: int64))) (\<lambda>b. rret (Some b)) r)) bs (Some bs)"
    using assms by (simp add: sint64_of_nat reads_def rbind_def rslice_def rret_def)
qed simp

lemma reads_ReadBytesVarint_null: "reads ReadBytesVarint (PutVarint (-1)) None"
  unfolding ReadBytesVarint_def
  by (rule reads_rbind_last [OF varint_codec.dec_enc [unfolded WriteVarint_def]])
    (simp_all add: reads_rret)

lemma reads_appendVarintBytes:
  "olen b < 2 ^ 63 \<Longrightarrow> reads ReadBytesVarint (appendVarintBytes b) b"
  by (cases b)
    (simp_all add: appendVarintBytes_def olen_def reads_ReadBytesVarint reads_ReadBytesVarint_null)

lemma reads_ReadVarintString:
  "length s < 2 ^ 63 \<Longrightarrow> reads ReadVarintString (PutVarint (of_nat (length s)) @ s) s"
  using reads_rbind_ret [OF reads_ReadBytesVarint [of s], of obytes]
  by (simp add: ReadVarintString_def obytes_def)

definition header_fits :: "RecordHeader \<Rightarrow> bool" where
  "header_fits h \<longleftrightarrow> length (rh_Key h) < 2 ^ 63 \<and> olen (rh_Value h) < 2 ^ 63"

interpretation header_codec: codec EncodeRecordHeader ReadRecordHeader header_fits
proof
  fix h
  assume "header_fits h"
  then have "reads ReadRecordHeader
      ((PutVarint (of_nat (length (rh_Key h))) @ rh_Key h) @ appendVarintBytes (rh_Value h))
      \<lparr>rh_Key = rh_Key h, rh_Value = rh_Value h\<rparr>"
    unfolding ReadRecordHeader_def header_fits_def
    by (elim conjE) (rule reads_intros reads_ReadVarintString reads_appendVarintBytes | assumption)+
  then show "reads ReadRecordHeader (EncodeRecordHeader h) h"
    by (cases h) (simp add: EncodeRecordHeader_def)
qed

text \<open>What the encoder does to a record: a nil key is written as an empty one.\<close>

definition stored_record :: "Record \<Rightarrow> Record" where
  "stored_record rec = rec\<lparr>Key := Some (obytes (Key rec))\<rparr>"

definition record_fits :: "Record \<Rightarrow> bool" where
  "record_fits rec \<longleftrightarrow> length (record_body rec) < 2 ^ 63 - 10"

lemma record_fits_parts:
  assumes "record_fits rec"
  shows "olen (Key rec) < 2 ^ 63" "olen (Value rec) < 2 ^ 63" "length (Headers rec) < 2 ^ 63"
    and "\<forall>h \<in> set (Headers rec). header_fits h"
proof -
  let ?hs = "concat (map EncodeRecordHeader (Headers rec))"
  have body: "length (record_body rec) < 2 ^ 63" using assms by (simp add: record_fits_def)
  have "olen (Key rec) \<le> length (record_body rec)"
    by (simp add: record_body_def olen_def obytes_def split: option.splits)
  with body show "olen (Key rec) < 2 ^ 63" by linarith
  have "olen (Value rec) \<le> length (record_body rec)"
    by (simp add: record_body_def olen_def appendVarintBytes_def split: option.splits)
  with body show "olen (Value rec) < 2 ^ 63" by linarith
  have hs: "length ?hs \<le> length (record_body rec)" by (simp add: record_body_def)
  have "length (Headers rec) \<le> length ?hs"
    by (rule length_concat_count) (simp add: EncodeRecordHeader_def PutVarint_def)
  with hs body show "length (Headers rec) < 2 ^ 63" by linarith
  show "\<forall>h \<in> set (Headers rec). header_fits h"
  proof
    fix h assume "h \<in> set (Headers rec)"
    then have le: "length (EncodeRecordHeader h) \<le> length ?hs" by (rule length_concat_member)
    have "length (rh_Key h) \<le> length (EncodeRecordHeader h)"
      and "olen (rh_Value h) \<le> length (EncodeRecordHeader h)"
      by (simp_all add: EncodeRecordHeader_def appendVarintBytes_def olen_def split: option.splits)
    with le hs body show "header_fits h" unfolding header_fits_def by linarith
  qed
qed

lemma reads_decodeRecordBody:
  assumes "record_fits rec"
  shows "reads decodeRecordBody (record_body rec) (stored_record rec)"
proof -
  note parts = record_fits_parts [OF assms]
  have key: "reads ReadBytesVarint (PutVarint (of_nat (olen (Key rec))) @ obytes (Key rec))
      (Some (obytes (Key rec)))"
    using parts(1) reads_ReadBytesVarint [of "obytes (Key rec)"]
    by (simp add: olen_def obytes_def split: option.splits)
  have count: "unat (of_nat (length (Headers rec)) :: uint64) = length (Headers rec)"
    using parts(3) by (simp add: unat_of_nat)
  have hdrs: "reads (read_times (unat (of_nat (length (Headers rec)) :: uint64)) ReadRecordHeader)
      (concat (map EncodeRecordHeader (Headers rec))) (Headers rec)"
    unfolding count by (rule header_codec.list_dec_enc [OF parts(4)])
  have "reads decodeRecordBody
     (WriteInt8 (rec_Attributes rec) @ WriteVarint (TimestampDelta rec) @ WriteVarint (scast (OffsetDelta rec))
      @ (PutVarint (of_nat (olen (Key rec))) @ obytes (Key rec)) @ appendVarintBytes (Value rec)
      @ WriteUVarint (of_nat (length (Headers rec))) @ concat (map EncodeRecordHeader (Headers rec)))
     \<lparr>rec_Attributes = rec_Attributes rec, TimestampDelta = TimestampDelta rec,
      OffsetDelta = ucast (scast (OffsetDelta rec) :: int64), Key = Some (obytes (Key rec)),
      Value = Value rec, Headers = Headers rec\<rparr>"
    unfolding decodeRecordBody_def
    by (rule reads_intros reads_appendVarintBytes key hdrs parts)+
  moreover have "ucast (scast (OffsetDelta rec) :: int64) = OffsetDelta rec"
    by (rule bit_word_eqI) (auto simp: bit_simps)
  ultimately show ?thesis
    by (cases rec) (simp add: record_body_def WriteInt8_def WriteVarint_def WriteUVarint_def stored_record_def)
qed

lemma length_put_uvarint: "x < 2 ^ 64 \<Longrightarrow> length (put_uvarint x) \<le> 10"
proof -
  assume "x < 2 ^ 64"
  have *: "i < 10 \<Longrightarrow> y < 2 ^ (64 - 7 * i) \<Longrightarrow> length (put_uvarint y) + i \<le> 10" for i y
  proof (induction y arbitrary: i rule: put_uvarint.induct)
    case (1 y)
    show ?case
    proof (cases "y < 128")
      case False
      have i: "i < 9"
      proof (rule ccontr)
        assume "\<not> i < 9"
        with "1.prems"(1) have "i = 9" by simp
        with "1.prems"(2) False show False by simp
      qed
      then have e: "(64 - 7 * i) = 7 + (64 - 7 * Suc i)" by simp
      have "y div 128 < 2 ^ (64 - 7 * Suc i)"
        using "1.prems"(2) unfolding e power_add by (simp add: less_mult_imp_div_less mult.commute)
      with "1.IH" [of "Suc i"] False i show ?thesis by (simp add: put_uvarint_large)
    qed (use 1 in \<open>simp add: put_uvarint_small\<close>)
  qed
  from * [of 0 x] \<open>x < 2 ^ 64\<close> show ?thesis by simp
qed

lemma length_PutVarint: "length (PutVarint x) \<le> 10"
  using zigzag_bound [of "sint x"] sint64_bounds [of x]
  by (auto simp: PutVarint_def intro: length_put_uvarint)

lemma decodeRecord_EncodeRecord:
  assumes "record_fits rec"
  shows "decodeRecord (EncodeRecord rec @ rest) = Inr (stored_record rec, int (length (EncodeRecord rec)))"
proof -
  let ?b = "record_body rec"
  let ?p = "PutVarint (of_nat (length ?b))"
  have len: "length ?b < 2 ^ 63 - 10" using assms by (simp add: record_fits_def)
  then have v: "sint (of_nat (length ?b) :: int64) = int (length ?b)"
    by (intro sint64_of_nat) simp
  have p: "length ?p \<le> 10" by (rule length_PutVarint)
  have s: "s64 (int (length ?p) + int (length ?b)) = int (length ?p) + int (length ?b)"
    using p len by (intro s64_id) simp_all
  have "decodeRecordBody (NewReader ?b) = Inr (stored_record rec, \<lparr>buf = ?b, off = int (length ?b)\<rparr>)"
    using len by (intro reads_run reads_decodeRecordBody assms) simp
  then show ?thesis
    using v s by (simp add: decodeRecord_def EncodeRecord_def)
qed

lemma EncodeRecord_nonempty: "EncodeRecord rec \<noteq> []"
  by (simp add: EncodeRecord_def PutVarint_def)

lemma decode_records_EncodeRecord:
  assumes "\<forall>rec \<in> set rs. record_fits rec"
  shows "decode_records (length rs) (concat (map EncodeRecord rs)) = Inr (map stored_record rs)"
  using assms
  by (induction rs) (simp_all add: decodeRecord_EncodeRecord EncodeRecord_nonempty)

lemma decode_records_Nil: "decode_records k [] = Inr []"
  by (cases k) simp_all

subsection \<open>Batch round trip\<close>

lemma slice_append_ge [simp]: "length xs \<le> a \<Longrightarrow> slice a b (xs @ ys) = slice (a - length xs) (b - length xs) ys"
  by (simp add: slice_def)

lemma slice_append_le [simp]: "b \<le> length xs \<Longrightarrow> slice a b (xs @ ys) = slice a b xs"
  by (cases "a \<le> b") (simp_all add: slice_def)

lemma slice_Cons [simp]: "0 < a \<Longrightarrow> slice a b (x # ys) = slice (a - 1) (b - 1) ys"
  by (cases a) (simp_all add: slice_def)

lemma slice_all [simp]: "slice 0 (length xs) xs = xs"
  by (simp add: slice_def)

lemma slice_PutUint [simp]:
  "slice 0 2 (PutUint16 x) = PutUint16 x" "slice 0 4 (PutUint32 y) = PutUint32 y"
  "slice 0 8 (PutUint64 z) = PutUint64 z"
  by (simp_all add: slice_def)

text \<open>The bytes of a batch, as the encoder lays them out.\<close>

definition filled :: "RecordBatch \<Rightarrow> RecordBatch" where
  "filled b = snd (encode_batch b)"

definition batch_records :: "RecordBatch \<Rightarrow> bytes" where
  "batch_records b = concat (map EncodeRecord (Records b))"

lemma Records_filled [simp]: "Records (filled b) = Records b"
  by (simp add: filled_def encode_batch_def Let_def)

lemma Magic_filled [simp]: "Magic (filled b) = RecordMagic"
  by (simp add: filled_def encode_batch_def Let_def)

lemma batch_after_crc_CRC [simp]: "batch_after_crc (b\<lparr>CRC := c\<rparr>) rs = batch_after_crc b rs"
  by (simp add: batch_after_crc_def)

lemma batch_prefix_CRC [simp]: "batch_prefix (b\<lparr>CRC := c\<rparr>) l = batch_prefix b l"
  by (simp add: batch_prefix_def)

lemma encode_batch_bytes:
  "fst (encode_batch b) =
     batch_prefix (filled b) (49 + of_nat (length (batch_records b))) @ PutUint32 (CRC (filled b))
     @ batch_after_crc (filled b) (batch_records b)"
  by (simp add: encode_batch_def filled_def batch_records_def Let_def)

lemma length_batch_prefix [simp]: "length (batch_prefix b l) = 17"
  by (simp add: batch_prefix_def)

lemma length_batch_after_crc [simp]: "length (batch_after_crc b rs) = 40 + length rs"
  by (simp add: batch_after_crc_def)

lemma length_encode_batch: "length (fst (encode_batch b)) = 61 + length (batch_records b)"
  by (simp add: encode_batch_bytes)

lemma CRC_filled: "CRC (filled b) = CalculateRecordBatchCRC (drop 21 (fst (encode_batch b)))"
  by (simp add: encode_batch_def filled_def Let_def)

text \<open>The range of the 32-bit length field: below it nothing wraps, and every record fits.\<close>

definition batch_fits :: "RecordBatch \<Rightarrow> bool" where
  "batch_fits b \<longleftrightarrow> 49 + length (batch_records b) < 2 ^ 31"

lemma batch_fits_parts:
  assumes "batch_fits b"
  shows "short_list (Records b)" and "\<forall>rec \<in> set (Records b). record_fits rec"
proof -
  have total: "length (batch_records b) < 2 ^ 31" using assms by (simp add: batch_fits_def)
  have "length (Records b) \<le> length (batch_records b)"
    unfolding batch_records_def by (rule length_concat_count) (simp add: EncodeRecord_nonempty)
  with total show "short_list (Records b)" by (simp add: short_list_def)
  show "\<forall>rec \<in> set (Records b). record_fits rec"
  proof
    fix rec assume "rec \<in> set (Records b)"
    then have "length (EncodeRecord rec) \<le> length (batch_records b)"
      unfolding batch_records_def by (rule length_concat_member)
    with total show "record_fits rec" by (simp add: EncodeRecord_def record_fits_def)
  qed
qed

lemma batch_length:
  assumes "batch_fits b"
  shows "sint (49 + of_nat (length (batch_records b)) :: int32) = 49 + int (length (batch_records b))"
proof -
  have "(49 :: int32) + of_nat (length (batch_records b)) = of_nat (49 + length (batch_records b))"
    by simp
  moreover have "sint (of_nat (49 + length (batch_records b)) :: int32) = int (49 + length (batch_records b))"
    using assms by (intro sint_of_nat_small) (simp add: batch_fits_def)
  ultimately show ?thesis by (simp only: of_nat_add of_nat_numeral)
qed

lemma EncodeRecordBatch_fits: "batch_fits b \<Longrightarrow> EncodeRecordBatch b = Inr (encode_batch b)"
  by (simp add: EncodeRecordBatch_def batch_records_def [symmetric] batch_length)

lemma sint_count: "short_list xs \<Longrightarrow> sint (of_nat (length xs) :: int32) = int (length xs)"
  by (intro sint_of_nat_small) (simp add: short_list_def)

lemma count_zero:
  assumes "short_list xs"
  shows "(of_nat (length xs) :: int32) = 0 \<longleftrightarrow> xs = []"
proof
  assume "(of_nat (length xs) :: int32) = 0"
  then have "sint (of_nat (length xs) :: int32) = 0" by simp
  with sint_count [OF assms] show "xs = []" by simp
qed simp

lemma decode_batch_records:
  assumes "batch_fits b"
  shows "decode_records (nat (sint (if (of_nat (length (Records b)) :: int32) = 0 then d :: int32
           else of_nat (length (Records b))))) (batch_records b)
         = Inr (map stored_record (Records b))"
proof (cases "Records b = []")
  case True
  then show ?thesis by (simp add: batch_records_def decode_records_Nil)
next
  case False
  note short = batch_fits_parts(1) [OF assms] and fits = batch_fits_parts(2) [OF assms]
  show ?thesis
    using False
    by (simp only: count_zero [OF short] if_False sint_count [OF short] nat_int batch_records_def
        decode_records_EncodeRecord [OF fits])
qed

text \<open>Every field of the header, read back from the encoded bytes.\<close>

lemma encoded_fields:
  fixes b :: RecordBatch
  defines "raw \<equiv> fst (encode_batch b)"
  shows "Uint64 (slice 0 8 raw) = BaseOffset (filled b)"
    and "Uint32 (slice 8 12 raw) = 49 + of_nat (length (batch_records b))"
    and "Uint32 (slice 12 16 raw) = PartitionLeaderEpoch (filled b)"
    and "raw ! 16 = Magic (filled b)"
    and "Uint32 (slice 17 21 raw) = CRC (filled b)"
    and "Uint16 (slice 21 23 raw) = rb_Attributes (filled b)"
    and "Uint32 (slice 23 27 raw) = LastOffsetDelta (filled b)"
    and "Uint64 (slice 27 35 raw) = BaseTimestamp (filled b)"
    and "Uint64 (slice 35 43 raw) = MaxTimestamp (filled b)"
    and "Uint64 (slice 43 51 raw) = ProducerID (filled b)"
    and "Uint16 (slice 51 53 raw) = ProducerEpoch (filled b)"
    and "Uint32 (slice 53 57 raw) = BaseSequence (filled b)"
    and "Uint32 (slice 57 61 raw) = of_nat (length (Records b))"
    and "drop 61 raw = batch_records b"
  unfolding raw_def encode_batch_bytes batch_prefix_def batch_after_crc_def
  by (simp_all del: append_assoc add: append_assoc nth_append)

lemma batch_eta:
  "\<lparr>BaseOffset = BaseOffset x, PartitionLeaderEpoch = PartitionLeaderEpoch x, Magic = Magic x, CRC = CRC x,
    rb_Attributes = rb_Attributes x, LastOffsetDelta = LastOffsetDelta x, BaseTimestamp = BaseTimestamp x,
    MaxTimestamp = MaxTimestamp x, ProducerID = ProducerID x, ProducerEpoch = ProducerEpoch x,
    BaseSequence = BaseSequence x, Records = rs\<rparr> = x\<lparr>Records := rs\<rparr>"
  by (cases x) simp

lemma decode_encode_batch:
  assumes "batch_fits b"
  shows "DecodeRecordBatch (fst (encode_batch b)) = Inr ((filled b)\<lparr>Records := map stored_record (Records b)\<rparr>)"
  unfolding DecodeRecordBatch_def encoded_fields Let_def batch_eta
  by (simp add: length_encode_batch decode_batch_records [OF assms])

text \<open>
  C11.  Encoding a record batch and decoding the bytes gives the batch back: every header
  field as the encoder left it (magic 2, the last offset delta filled in when it was 0,
  the CRC computed) and every record in order with its attributes, deltas, value and
  headers; the only change is that a nil key comes back as an empty key.
\<close>

theorem record_batch_roundtrip:
  assumes "batch_fits b"
  shows "\<exists>raw b'. EncodeRecordBatch b = Inr (raw, b')
    \<and> DecodeRecordBatch raw = Inr (b'\<lparr>Records := map stored_record (Records b)\<rparr>)"
  using decode_encode_batch [OF assms]
  by (simp add: EncodeRecordBatch_fits [OF assms] filled_def) (metis prod.collapse)

definition sample_batch :: RecordBatch where
  "sample_batch = \<lparr>BaseOffset = 7, PartitionLeaderEpoch = 0, Magic = 0, CRC = 0, rb_Attributes = 0,
     LastOffsetDelta = 0, BaseTimestamp = 1000, MaxTimestamp = 1001, ProducerID = -1, ProducerEpoch = -1,
     BaseSequence = -1,
     Records = [\<lparr>rec_Attributes = 0, TimestampDelta = 0, OffsetDelta = 0, Key = None,
                  Value = Some [1, 2], Headers = [\<lparr>rh_Key = [104], rh_Value = None\<rparr>]\<rparr>,
                \<lparr>rec_Attributes = 0, TimestampDelta = 1, OffsetDelta = 1, Key = Some [107],
                  Value = None, Headers = []\<rparr>]\<rparr>"

lemma sample_batch_fits: "batch_fits sample_batch"
  by (simp add: sample_batch_def batch_fits_def batch_records_def EncodeRecord_def record_body_def
      EncodeRecordHeader_def appendVarintBytes_def olen_def obytes_def PutVarint_def PutUvarint_def
      put_uvarint_small zigzag_def)

theorem record_batch_roundtrip_witness:
  "\<exists>raw b b'. EncodeRecordBatch sample_batch = Inr (raw, b') \<and> DecodeRecordBatch raw = Inr b
     \<and> map Key (Records b) = [Some [], Some [107]] \<and> map Value (Records b) = [Some [1, 2], None]"
  using record_batch_roundtrip [OF sample_batch_fits]
  by (auto simp: sample_batch_def stored_record_def obytes_def)

subsection \<open>The storage header\<close>

lemma Parse_encode_batch:
  "ParseRecordBatchHeader (fst (encode_batch b)) = Inr
     \<lparr>bh_BaseOffset = BaseOffset b, bh_Length = 49 + of_nat (length (batch_records b)),
      bh_LastOffsetDelta = LastOffsetDelta (filled b), bh_Count = of_nat (length (Records b))\<rparr>"
proof -
  have "BaseOffset (filled b) = BaseOffset b"
    by (simp add: filled_def encode_batch_def Let_def)
  then show ?thesis
    unfolding ParseRecordBatchHeader_def encoded_fields
    by (simp add: length_encode_batch batchHeaderSize_def RecordMagic_def)
qed

text \<open>
  The storage engine's header parser accepts what the encoder produces and computes
  from it exactly the size of the batch, as long as the batch stays within the range of
  the 32-bit length field.
\<close>

theorem encoded_batch_size:
  assumes "batch_fits b"
  shows "\<exists>raw b' h. EncodeRecordBatch b = Inr (raw, b') \<and> ParseRecordBatchHeader raw = Inr h
    \<and> bh_BaseOffset h = BaseOffset b \<and> BatchTotalSize h = int (length raw)"
proof -
  have "\<exists>h. ParseRecordBatchHeader (fst (encode_batch b)) = Inr h
    \<and> bh_BaseOffset h = BaseOffset b \<and> BatchTotalSize h = int (length (fst (encode_batch b)))"
    by (simp add: Parse_encode_batch BatchTotalSize_def length_encode_batch batch_length [OF assms])
  then show ?thesis
    by (simp add: EncodeRecordBatch_fits [OF assms]) (metis prod.collapse)
qed

theorem encoded_batch_size_witness:
  "\<exists>raw b' h. EncodeRecordBatch sample_batch = Inr (raw, b') \<and> ParseRecordBatchHeader raw = Inr h
    \<and> bh_BaseOffset h = 7 \<and> BatchTotalSize h = int (length raw)"
  using encoded_batch_size [OF sample_batch_fits] by (simp add: sample_batch_def)

text \<open>
  A record whose length varint is the largest 64-bit integer passes the bounds test
  of \<^verbatim>\<open>decodeRecord\<close>, because \<^verbatim>\<open>n+int(length)\<close> wraps around, and the slice expression
  after it panics: a 71-byte batch is enough.
\<close>

definition overlong_batch :: bytes where
  "overlong_batch = replicate 16 0 @ [2] @ replicate 40 0 @ PutUint32 1 @ PutVarint 0x7FFFFFFFFFFFFFFF"

theorem decode_batch_overflow_panics: "DecodeRecordBatch overlong_batch = Inl Panic"
proof -
  have wrap: "s64 (l + 0x7FFFFFFFFFFFFFFF) = l - 1 - 2 ^ 63" if "1 \<le> l" "l \<le> 10" for l
  proof -
    have "l + 0x7FFFFFFFFFFFFFFF + 2 ^ 63 = (l - 1) + 2 ^ 64" by simp
    then have "(l + 0x7FFFFFFFFFFFFFFF + 2 ^ 63) mod 2 ^ 64 = (l - 1) mod 2 ^ 64"
      by (metis mod_add_self2)
    with that show ?thesis by (simp add: s64_def mod_pos_pos_trivial)
  qed
  define l where "l = int (length (PutVarint 0x7FFFFFFFFFFFFFFF))"
  have ne: "length (PutVarint 0x7FFFFFFFFFFFFFFF) \<noteq> 0" by (simp add: PutVarint_def)
  then have "1 \<le> l" and "l \<le> 10"
    using length_PutVarint [of "0x7FFFFFFFFFFFFFFF"] by (simp_all only: l_def)
  then have "s64 (l + 0x7FFFFFFFFFFFFFFF) < 0" by (simp add: wrap)
  then have "decodeRecord (PutVarint 0x7FFFFFFFFFFFFFFF) = Inl Panic"
    unfolding l_def using Varint_Put [of "0x7FFFFFFFFFFFFFFF" "[]"] by (simp add: decodeRecord_def)
  with ne show ?thesis
    by (simp add: DecodeRecordBatch_def overlong_batch_def nth_append RecordMagic_def)
qed

end
