(* ===== verification/Log_Index.thy ===== *)
theory Log_Index
  imports Prelude
begin

text \<open>
  Files, and the sparse offset index of a segment (\<^verbatim>\<open>src/internal/storage/index.go\<close>).
  A file is its bytes; \<^verbatim>\<open>ReadAt\<close> of more bytes than there are returns \<^verbatim>\<open>io.EOF\<close>, which is
  the value None here.  Failing disks are not modelled.  Offsets are unbounded integers,
  and the conversions \<^verbatim>\<open>uint32(...)\<close> of the code are conversions to 32-bit words.
\<close>

subsection \<open>Files\<close>

definition read_at :: "bytes \<Rightarrow> nat \<Rightarrow> nat \<Rightarrow> bytes option" where
  "read_at f pos n = (if n = 0 then Some [] else if pos + n \<le> length f then Some (take n (drop pos f)) else None)"

definition write_at :: "bytes \<Rightarrow> nat \<Rightarrow> bytes \<Rightarrow> bytes" where
  "write_at f pos bs = take pos (f @ replicate (pos - length f) 0) @ bs @ drop (pos + length bs) f"

definition truncate_file :: "bytes \<Rightarrow> nat \<Rightarrow> bytes" where
  "truncate_file f n = take n (f @ replicate (n - length f) 0)"

lemma write_at_end [simp]: "pos = length f \<Longrightarrow> write_at f pos bs = f @ bs"
  by (simp add: write_at_def)

lemma truncate_file_prefix [simp]: "n \<le> length f \<Longrightarrow> truncate_file f n = take n f"
  by (simp add: truncate_file_def)

lemma read_at_append:
  "n \<noteq> 0 \<Longrightarrow> read_at (xs @ ys) (length xs + i) n = read_at ys i n"
  by (simp add: read_at_def)

lemma read_at_prefix:
  "pos + n \<le> length xs \<Longrightarrow> read_at (xs @ ys) pos n = read_at xs pos n"
  by (simp add: read_at_def)

lemma read_at_Some: "pos + n \<le> length f \<Longrightarrow> read_at f pos n = Some (take n (drop pos f))"
  by (simp add: read_at_def)

subsection \<open>The index\<close>

record indexEntry =
  relativeOffset :: uint32
  position :: uint32

definition indexEntrySize :: nat where
  "indexEntrySize = 8"

record indexFile =
  ix_baseOffset :: int
  ix_interval :: int
  ix_file :: bytes
  ix_entries :: "indexEntry list"
  ix_writtenSize :: nat

function decode_entries :: "bytes \<Rightarrow> indexEntry list" where
  "decode_entries bs =
     (if length bs < indexEntrySize then []
      else \<lparr>relativeOffset = Uint32 (take 4 bs), position = Uint32 (take 4 (drop 4 bs))\<rparr>
           # decode_entries (drop indexEntrySize bs))"
  by pat_completeness auto
termination by (relation "measure length") (auto simp: indexEntrySize_def)

declare decode_entries.simps [simp del]

text \<open>
  \<^verbatim>\<open>load\<close> truncates a file whose size is not a multiple of the entry size and then reads
  as many bytes as it had before.
\<close>

definition load :: "indexFile \<Rightarrow> indexFile res" where
  "load idx =
     (let size = length (ix_file idx);
          file = (if size mod indexEntrySize \<noteq> 0
                  then truncate_file (ix_file idx) (size div indexEntrySize * indexEntrySize)
                  else ix_file idx)
      in case read_at file 0 size of
           None \<Rightarrow> Inl EOF
         | Some buffer \<Rightarrow> Inr (idx\<lparr>ix_file := file, ix_entries := ix_entries idx @ decode_entries buffer,
                                   ix_writtenSize := size\<rparr>))"

definition openIndex :: "bytes \<Rightarrow> int \<Rightarrow> int \<Rightarrow> indexFile res" where
  "openIndex file baseOffset interval =
     load \<lparr>ix_baseOffset = baseOffset, ix_interval = interval, ix_file = file, ix_entries = [],
           ix_writtenSize = 0\<rparr>"

definition encode_entry :: "indexEntry \<Rightarrow> bytes" where
  "encode_entry e = PutUint32 (relativeOffset e) @ PutUint32 (position e)"

definition index_append :: "indexFile \<Rightarrow> int \<Rightarrow> int \<Rightarrow> indexFile" where
  "index_append idx absoluteOffset pos =
     (let e = \<lparr>relativeOffset = word_of_int (absoluteOffset - ix_baseOffset idx), position = word_of_int pos\<rparr>
      in idx\<lparr>ix_entries := ix_entries idx @ [e],
             ix_file := write_at (ix_file idx) (ix_writtenSize idx) (encode_entry e),
             ix_writtenSize := ix_writtenSize idx + length (encode_entry e)\<rparr>)"

definition maybeAppend :: "indexFile \<Rightarrow> int \<Rightarrow> int \<Rightarrow> indexFile" where
  "maybeAppend idx absoluteOffset pos =
     (let lastPos = (if ix_entries idx = [] then 0 else uint (position (last (ix_entries idx))))
      in if pos - lastPos < ix_interval idx then idx else index_append idx absoluteOffset pos)"

text \<open>\<^verbatim>\<open>sort.Search\<close>: the binary search of the Go library, on the half-open range from i to j.\<close>

function search :: "(nat \<Rightarrow> bool) \<Rightarrow> nat \<Rightarrow> nat \<Rightarrow> nat" where
  "search f i j =
     (if i < j then let h = (i + j) div 2 in if f h then search f i h else search f (h + 1) j
      else i)"
  by pat_completeness auto
termination by (relation "measure (\<lambda>(f, i, j). j - i)") auto

declare search.simps [simp del]

definition positionForOffset :: "indexFile \<Rightarrow> int \<Rightarrow> nat" where
  "positionForOffset idx targetOffset =
     (let rel = word_of_int (targetOffset - ix_baseOffset idx);
          es = ix_entries idx;
          n = length es
      in if n = 0 then 0
         else let i = search (\<lambda>i. relativeOffset (es ! i) > rel) 0 n
              in if i = 0 then 0 else unat (position (es ! (i - 1))))"

definition index_reset :: "indexFile \<Rightarrow> indexFile" where
  "index_reset idx = idx\<lparr>ix_entries := [], ix_writtenSize := 0, ix_file := truncate_file (ix_file idx) 0\<rparr>"

subsection \<open>Binary search\<close>

lemma search_step:
  "search f i j = (if i < j then if f ((i + j) div 2) then search f i ((i + j) div 2)
                                 else search f ((i + j) div 2 + 1) j else i)"
  by (simp add: search.simps [of f i j] Let_def)

text \<open>
  For a monotone test, everything left of the result fails it and everything from it on
  passes.
\<close>

lemma search_correct:
  assumes mono: "\<And>x y. x \<le> y \<Longrightarrow> y < n \<Longrightarrow> f x \<Longrightarrow> f y"
    and "j \<le> n" "\<forall>k < i. \<not> f k" "\<forall>k. j \<le> k \<and> k < n \<longrightarrow> f k" "i \<le> j"
  shows "(\<forall>k < search f i j. \<not> f k) \<and> (\<forall>k. search f i j \<le> k \<and> k < n \<longrightarrow> f k) \<and> search f i j \<le> n"
  using assms(2-)
proof (induction "j - i" arbitrary: i j rule: less_induct)
  case less
  show ?case
  proof (cases "i < j")
    case True
    define h where "h = (i + j) div 2"
    have h: "i \<le> h" "h < j" using True by (auto simp: h_def)
    show ?thesis
    proof (cases "f h")
      case f: True
      have up: "\<forall>k. h \<le> k \<and> k < n \<longrightarrow> f k" using mono f by blast
      have "h - i < j - i" and "h \<le> n" using h less.prems(1) by linarith+
      note IH = less.hyps [OF this less.prems(2) up h(1)]
      have e: "search f i j = search f i h"
        using True f unfolding h_def by (subst search_step) simp
      show ?thesis unfolding e by (rule IH)
    next
      case f: False
      have "h < n" using h less.prems(1) by linarith
      with f mono have down: "\<forall>k < h + 1. \<not> f k" by (metis Suc_eq_plus1 less_Suc_eq_le)
      have "j - (h + 1) < j - i" and "h + 1 \<le> j" using h by linarith+
      note IH = less.hyps [OF this(1) less.prems(1) down less.prems(3) this(2)]
      have e: "search f i j = search f (h + 1) j"
        using True f unfolding h_def by (subst search_step) simp
      show ?thesis unfolding e by (rule IH)
    qed
  next
    case False
    then have e: "search f i j = i" and "i = j"
      using less.prems(4) by (subst search_step, simp_all)
    then show ?thesis using less.prems by simp
  qed
qed

subsection \<open>Lookup\<close>

text \<open>The contract of a lookup: the position of the last entry at or before the target, 0 if none is.\<close>

definition lookup_spec :: "indexEntry list \<Rightarrow> uint32 \<Rightarrow> nat" where
  "lookup_spec es rel =
     (let before = filter (\<lambda>e. relativeOffset e \<le> rel) es
      in if before = [] then 0 else unat (position (last before)))"

lemma filter_prefix:
  assumes "i \<le> length es" and "\<forall>k < i. P (es ! k)" and "\<forall>k. i \<le> k \<and> k < length es \<longrightarrow> \<not> P (es ! k)"
  shows "filter P es = take i es"
proof -
  have "filter P (take i es) = take i es"
    using assms(1,2) by (intro filter_True) (auto simp: in_set_conv_nth)
  moreover have "filter P (drop i es) = []"
    using assms(3) by (intro filter_False) (auto simp: in_set_conv_nth)
  ultimately show ?thesis
    by (metis append_Nil2 append_take_drop_id filter_append)
qed

lemma positionForOffset_spec:
  assumes "sorted (map relativeOffset (ix_entries idx))"
  shows "positionForOffset idx target
    = lookup_spec (ix_entries idx) (word_of_int (target - ix_baseOffset idx))"
proof -
  define es where "es = ix_entries idx"
  define rel :: uint32 where "rel = word_of_int (target - ix_baseOffset idx)"
  define f where "f = (\<lambda>i. relativeOffset (es ! i) > rel)"
  define i where "i = search f 0 (length es)"
  have mono: "f y" if "x \<le> y" "y < length es" "f x" for x y
    using that assms by (auto simp: f_def es_def sorted_iff_nth_mono intro: less_le_trans)
  have "(\<forall>k < i. \<not> f k) \<and> (\<forall>k. i \<le> k \<and> k < length es \<longrightarrow> f k) \<and> i \<le> length es"
    unfolding i_def by (rule search_correct) (use mono in auto)
  then have i: "\<forall>k < i. \<not> f k" "\<forall>k. i \<le> k \<and> k < length es \<longrightarrow> f k" "i \<le> length es"
    by blast+
  have before: "filter (\<lambda>e. relativeOffset e \<le> rel) es = take i es"
    using i by (intro filter_prefix) (auto simp: f_def not_less not_le)
  have "positionForOffset idx target = (if i = 0 then 0 else unat (position (es ! (i - 1))))"
    unfolding positionForOffset_def Let_def es_def [symmetric] rel_def [symmetric] f_def [symmetric]
      i_def [symmetric] using i(3) by (cases "es = []") simp_all
  also have "\<dots> = lookup_spec es rel"
    using i(3) by (cases "i = 0") (auto simp: lookup_spec_def Let_def before last_conv_nth)
  finally show ?thesis unfolding es_def rel_def .
qed

text \<open>
  The binary search of the index computes the linear specification: on entries in
  increasing order it returns the position of the last entry at or before the target
  offset, and 0 when there is none.
\<close>

theorem positionForOffset_lookup:
  assumes "sorted (map relativeOffset (ix_entries idx))"
  shows "positionForOffset idx target
    = lookup_spec (ix_entries idx) (word_of_int (target - ix_baseOffset idx))"
  using assms by (rule positionForOffset_spec)

definition sample_index :: indexFile where
  "sample_index = \<lparr>ix_baseOffset = 100, ix_interval = 1, ix_file = [],
     ix_entries = [\<lparr>relativeOffset = 0, position = 0\<rparr>, \<lparr>relativeOffset = 5, position = 700\<rparr>,
                   \<lparr>relativeOffset = 9, position = 1400\<rparr>],
     ix_writtenSize = 24\<rparr>"

theorem positionForOffset_lookup_witness: "positionForOffset sample_index 107 = 700"
  using positionForOffset_lookup [of sample_index 107]
  by (simp add: sample_index_def lookup_spec_def)

subsection \<open>The index file\<close>

text \<open>The file holds exactly the encoded entries.\<close>

definition index_stored :: "indexFile \<Rightarrow> bool" where
  "index_stored idx \<longleftrightarrow> ix_file idx = concat (map encode_entry (ix_entries idx))
     \<and> ix_writtenSize idx = length (ix_file idx)"

lemma length_encode_entry [simp]: "length (encode_entry e) = 8"
  by (simp add: encode_entry_def)

lemma length_encode_entries [simp]: "length (concat (map encode_entry es)) = 8 * length es"
  by (induction es) simp_all

lemma decode_entries_Nil [simp]: "decode_entries [] = []"
  by (simp add: decode_entries.simps [of "[]"] indexEntrySize_def)

lemma decode_entries_Cons: "decode_entries (encode_entry e @ bs) = e # decode_entries bs"
  by (subst decode_entries.simps) (cases e, simp add: indexEntrySize_def encode_entry_def)

lemma decode_encode_entries: "decode_entries (concat (map encode_entry es)) = es"
  by (induction es) (simp_all add: decode_entries_Cons)

lemma index_append_stored: "index_stored idx \<Longrightarrow> index_stored (index_append idx off pos)"
  by (simp add: index_stored_def index_append_def Let_def)

lemma index_append_fields:
  "ix_baseOffset (index_append idx off pos) = ix_baseOffset idx"
  "ix_interval (index_append idx off pos) = ix_interval idx"
  "ix_entries (index_append idx off pos) = ix_entries idx
     @ [\<lparr>relativeOffset = word_of_int (off - ix_baseOffset idx), position = word_of_int pos\<rparr>]"
  by (simp_all add: index_append_def Let_def)

lemma maybeAppend_stored: "index_stored idx \<Longrightarrow> index_stored (maybeAppend idx off pos)"
  by (simp add: maybeAppend_def Let_def index_append_stored)

lemma maybeAppend_fields [simp]:
  "ix_baseOffset (maybeAppend idx off pos) = ix_baseOffset idx"
  "ix_interval (maybeAppend idx off pos) = ix_interval idx"
  by (simp_all add: maybeAppend_def index_append_def Let_def)

lemma index_reset_stored: "index_stored (index_reset idx)"
  by (simp add: index_stored_def index_reset_def)

lemma openIndex_stored:
  "openIndex (concat (map encode_entry es)) base interval
   = Inr \<lparr>ix_baseOffset = base, ix_interval = interval, ix_file = concat (map encode_entry es),
          ix_entries = es, ix_writtenSize = 8 * length es\<rparr>"
  by (simp add: openIndex_def load_def Let_def indexEntrySize_def read_at_def decode_encode_entries)

text \<open>
  Opening the file an index wrote restores the index exactly; opening a file cut
  inside an entry (its length not a multiple of 8) fails, although \<^verbatim>\<open>load\<close> means to trim it:
  it reads back as many bytes as the file had before the trim.
\<close>

theorem index_reopen:
  assumes "index_stored idx"
  shows "openIndex (ix_file idx) (ix_baseOffset idx) (ix_interval idx) = Inr idx
    \<and> (n < length (ix_file idx) \<and> n mod 8 \<noteq> 0
        \<longrightarrow> openIndex (take n (ix_file idx)) (ix_baseOffset idx) (ix_interval idx) = Inl EOF)"
proof
  show "openIndex (ix_file idx) (ix_baseOffset idx) (ix_interval idx) = Inr idx"
    using assms by (cases idx) (simp add: index_stored_def openIndex_stored)
  have "n mod 8 = 0" if "n \<le> n div 8 * 8" using that by presburger
  then show "n < length (ix_file idx) \<and> n mod 8 \<noteq> 0
        \<longrightarrow> openIndex (take n (ix_file idx)) (ix_baseOffset idx) (ix_interval idx) = Inl EOF"
    by (auto simp: openIndex_def load_def Let_def indexEntrySize_def read_at_def)
qed

theorem index_reopen_witness:
  "openIndex [0, 0, 0, 1, 0, 0, 0, 200] 100 1
     = Inr \<lparr>ix_baseOffset = 100, ix_interval = 1, ix_file = [0, 0, 0, 1, 0, 0, 0, 200],
            ix_entries = [\<lparr>relativeOffset = 1, position = 200\<rparr>], ix_writtenSize = 8\<rparr>
   \<and> openIndex [0, 0, 0] 100 1 = Inl EOF"
proof -
  let ?idx = "\<lparr>ix_baseOffset = 100, ix_interval = 1, ix_file = [0, 0, 0, 1, 0, 0, 0, 200],
            ix_entries = [\<lparr>relativeOffset = 1, position = 200\<rparr>], ix_writtenSize = 8\<rparr>"
  have "index_stored ?idx" by code_simp
  from index_reopen [OF this, of 3] show ?thesis by simp
qed

end
