(* ===== verification/Go_Text.thy ===== *)
theory Go_Text
  imports Prelude
begin

text \<open>
  The string functions of the Go library that the storage engine uses on its own
  files: \<^verbatim>\<open>strings.TrimSpace\<close> (on ASCII white space), \<^verbatim>\<open>strings.Split\<close> at a newline,
  \<^verbatim>\<open>fmt.Sprintf("%d")\<close> and \<^verbatim>\<open>fmt.Sscanf("%d")\<close>.
\<close>

definition is_space :: "byte \<Rightarrow> bool" where
  "is_space c \<longleftrightarrow> c = 9 \<or> c = 10 \<or> c = 11 \<or> c = 12 \<or> c = 13 \<or> c = 32"

definition TrimSpace :: "bytes \<Rightarrow> bytes" where
  "TrimSpace s = rev (dropWhile is_space (rev (dropWhile is_space s)))"

fun split_lines :: "bytes \<Rightarrow> bytes list" where
  "split_lines [] = [[]]"
| "split_lines (c # s) =
     (if c = 10 then [] # split_lines s
      else case split_lines s of [] \<Rightarrow> [[c]] | l # ls \<Rightarrow> (c # l) # ls)"

function dec_digits :: "nat \<Rightarrow> bytes" where
  "dec_digits n = (if n < 10 then [48 + of_nat n] else dec_digits (n div 10) @ [48 + of_nat (n mod 10)])"
  by pat_completeness auto
termination by (relation "measure id") auto

declare dec_digits.simps [simp del]

definition Sprint_int :: "int \<Rightarrow> bytes" where
  "Sprint_int i = (if i < 0 then 45 # dec_digits (nat (- i)) else dec_digits (nat i))"

definition is_digit :: "byte \<Rightarrow> bool" where
  "is_digit c \<longleftrightarrow> 48 \<le> c \<and> c \<le> 57"

definition digits_value :: "bytes \<Rightarrow> nat" where
  "digits_value ds = foldl (\<lambda>a d. 10 * a + (unat d - 48)) 0 ds"

text \<open>
  \<^verbatim>\<open>Sscanf(s, "%d", &next)\<close> skips blanks, takes a sign and decimal digits and ignores what
  follows; without digits, or outside the 64-bit range, the variable keeps its value 0.
\<close>

definition Sscan_int :: "bytes \<Rightarrow> int" where
  "Sscan_int s =
     (let t = dropWhile (\<lambda>c. c = 32 \<or> c = 9) s;
          neg = (t \<noteq> [] \<and> hd t = 45);
          u = (if t \<noteq> [] \<and> (hd t = 45 \<or> hd t = 43) then tl t else t);
          ds = takeWhile is_digit u;
          v = (if neg then - int (digits_value ds) else int (digits_value ds))
      in if ds = [] \<or> v < - (2 ^ 63) \<or> 2 ^ 63 \<le> v then 0 else v)"

lemma split_lines_not_Nil [simp]: "split_lines s \<noteq> []"
  by (induction s) (auto split: list.splits)

lemma split_lines_plain: "10 \<notin> set s \<Longrightarrow> split_lines s = [s]"
  by (induction s) auto

lemma split_lines_newline: "10 \<notin> set s \<Longrightarrow> split_lines (s @ 10 # t) = s # split_lines t"
  by (induction s) auto

lemma digit_value: "d < 10 \<Longrightarrow> unat (48 + of_nat d :: byte) = 48 + d"
proof -
  assume "d < 10"
  then have "(48 + d) mod 2 ^ 8 = 48 + d" by simp
  moreover have "unat (of_nat (48 + d) :: byte) = (48 + d) mod 2 ^ 8"
    unfolding unat_of_nat by simp
  ultimately show ?thesis by (simp only: of_nat_add of_nat_numeral)
qed

lemma is_digit_of: "d < 10 \<Longrightarrow> is_digit (48 + of_nat d)"
  by (simp add: is_digit_def word_le_nat_alt digit_value)

lemma dec_digits_digits: "\<forall>c \<in> set (dec_digits n). is_digit c"
proof (induction n rule: dec_digits.induct)
  case (1 n)
  then show ?case
    by (subst dec_digits.simps) (simp add: is_digit_of)
qed

lemma dec_digits_not_Nil [simp]: "dec_digits n \<noteq> []"
  by (subst dec_digits.simps) simp

lemma digits_value_snoc: "digits_value (ds @ [d]) = 10 * digits_value ds + (unat d - 48)"
  by (simp add: digits_value_def)

lemma digits_value_dec_digits: "digits_value (dec_digits n) = n"
proof (induction n rule: dec_digits.induct)
  case (1 n)
  show ?case
  proof (cases "n < 10")
    case True
    then show ?thesis by (simp add: dec_digits.simps [of n] digits_value_def digit_value)
  next
    case False
    with 1 show ?thesis
      by (simp add: dec_digits.simps [of n] digits_value_snoc digit_value)
  qed
qed

lemma takeWhile_digits [simp]: "takeWhile is_digit (dec_digits n) = dec_digits n"
  using dec_digits_digits by (simp add: takeWhile_eq_all_conv)

lemma digit_not:
  assumes "is_digit c"
  shows "c \<noteq> 32" "c \<noteq> 9" "c \<noteq> 10" "c \<noteq> 43" "c \<noteq> 45" "\<not> is_space c"
  using assms by (auto simp: is_digit_def is_space_def)

lemma hd_dec_digits: "is_digit (hd (dec_digits n))"
  using dec_digits_digits [of n] hd_in_set [OF dec_digits_not_Nil] by blast

lemma Sscan_Sprint:
  assumes "- (2 ^ 63) \<le> i" and "i < 2 ^ 63"
  shows "Sscan_int (Sprint_int i) = i"
proof (cases "i < 0")
  case True
  with assms show ?thesis
    by (simp add: Sscan_int_def Sprint_int_def digits_value_dec_digits)
next
  case False
  obtain c cs where c: "dec_digits (nat i) = c # cs" by (cases "dec_digits (nat i)") auto
  then have "is_digit c" using hd_dec_digits [of "nat i"] by simp
  note nd = digit_not [OF this]
  have "takeWhile is_digit (c # cs) = c # cs" and "digits_value (c # cs) = nat i"
    using c takeWhile_digits digits_value_dec_digits by metis+
  moreover have "int (nat i) = i" using False by simp
  ultimately show ?thesis using False assms nd c by (simp add: Sscan_int_def Sprint_int_def Let_def)
qed

lemma Sprint_int_chars: "\<forall>c \<in> set (Sprint_int i). c = 45 \<or> is_digit c"
  using dec_digits_digits by (auto simp: Sprint_int_def)

lemma Sprint_int_last: "is_digit (last (Sprint_int i))"
proof -
  have "is_digit (last (dec_digits n))" for n
    using dec_digits_digits [of n] last_in_set [OF dec_digits_not_Nil, of n] by blast
  then show ?thesis by (simp add: Sprint_int_def)
qed

lemma TrimSpace_id:
  assumes "s \<noteq> []" and "\<not> is_space (hd s)" and "\<not> is_space (last s)"
  shows "TrimSpace s = s"
proof -
  have "dropWhile is_space s = s" using assms(1,2) by (cases s) simp_all
  moreover have "dropWhile is_space (rev s) = rev s"
    using assms(1,3) by (cases "rev s") (simp_all add: last_rev flip: hd_rev)
  ultimately show ?thesis by (simp add: TrimSpace_def)
qed

end
