(* ===== verification/Log_Segment.thy ===== *)
theory Log_Segment
  imports Record_Batch Log_Index Go_Text
begin

text \<open>
  A segment of the log (\<^verbatim>\<open>src/internal/storage/segment.go\<close>): a log file of record batches
  one after the other, its sparse index, and the operations append, read, truncate, recover,
  open, and the remote stub of a segment that was moved to object storage.  The two open
  files are their contents; None is a nil handle.  Positions and sizes are natural numbers;
  offsets are integers, with \<open>s64\<close> where the 64-bit addition of the code may wrap.
\<close>

subsection \<open>State\<close>

record Segment =
  sg_baseOffset :: int
  sg_logFile :: "bytes option"
  sg_index :: "indexFile option"
  sg_nextOffset :: int
  sg_size :: nat
  sg_maxSegmentBytes :: int
  sg_indexInterval :: int
  sg_remote :: bool
  sg_remoteStub :: "bytes option"
  sg_syncedOffset :: int
  sg_syncedBytes :: nat
  sg_lastSyncMs :: int

text \<open>The files of one segment in the partition directory: \<^verbatim>\<open>.log\<close>, \<^verbatim>\<open>.index\<close> and \<^verbatim>\<open>.remote\<close>.\<close>

record SegFiles =
  sf_log :: "bytes option"
  sf_index :: "bytes option"
  sf_remote :: "bytes option"

definition no_files :: SegFiles where
  "no_files = \<lparr>sf_log = None, sf_index = None, sf_remote = None\<rparr>"

subsection \<open>Remote stubs\<close>

definition readRemoteStub :: "bytes \<Rightarrow> (gostring \<times> gostring \<times> int) res" where
  "readRemoteStub data =
     (let lines = split_lines (TrimSpace data)
      in if length lines < 3 then Inl MalformedRemoteStub
         else Inr (lines ! 0, lines ! 1, Sscan_int (lines ! 2)))"

definition stub_content :: "gostring \<Rightarrow> gostring \<Rightarrow> int \<Rightarrow> bytes" where
  "stub_content logKey indexKey next = logKey @ 10 # indexKey @ 10 # Sprint_int next"

definition markRemote :: "Segment \<Rightarrow> gostring \<Rightarrow> gostring \<Rightarrow> Segment" where
  "markRemote s logKey indexKey =
     s\<lparr>sg_remoteStub := Some (stub_content logKey indexKey (sg_nextOffset s)),
       sg_logFile := None, sg_index := None, sg_size := 0, sg_remote := True\<rparr>"

definition remoteKeys :: "Segment \<Rightarrow> (gostring \<times> gostring) res" where
  "remoteKeys s =
     (case sg_remoteStub s of
        None \<Rightarrow> Inl IOError
      | Some data \<Rightarrow>
          (let lines = split_lines (TrimSpace data)
           in if length lines < 2 then Inl MalformedRemoteStub else Inr (lines ! 0, lines ! 1)))"

subsection \<open>Opening and recovery\<close>

text \<open>The scan of \<^verbatim>\<open>recover\<close>: the next offset and the position where it stopped.\<close>

function recover_loop :: "bytes \<Rightarrow> nat \<Rightarrow> int \<Rightarrow> nat \<Rightarrow> (int \<times> nat) res" where
  "recover_loop f sz next pos =
     (if pos < sz then
        (case read_at f pos 12 of
          None \<Rightarrow> Inl RecoverRead
        | Some prefix \<Rightarrow>
            (let len = sint (Uint32 (drop 8 prefix))
             in if len \<le> 0 \<or> int pos + 12 + len > int sz then Inr (next, pos)
                else (case read_at f (pos + 23) 4 of
                        None \<Rightarrow> Inl EOF
                      | Some delta \<Rightarrow>
                          recover_loop f sz (s64 (next + (sint (Uint32 delta) + 1))) (pos + (12 + nat len)))))
      else Inr (next, pos))"
  by pat_completeness auto
termination by (relation "measure (\<lambda>(f, sz, next, pos). sz - pos)") auto

declare recover_loop.simps [simp del]

definition seg_recover :: "Segment \<Rightarrow> Segment res" where
  "seg_recover s =
     (if sg_size s = 0 then Inr s
      else let f = obytes (sg_logFile s)
           in res_bind (recover_loop f (sg_size s) (sg_nextOffset s) 0) (\<lambda>(next, pos).
                if pos \<noteq> sg_size s
                then Inr (s\<lparr>sg_nextOffset := next, sg_logFile := Some (truncate_file f pos), sg_size := pos\<rparr>)
                else Inr (s\<lparr>sg_nextOffset := next\<rparr>)))"

definition openSegment :: "SegFiles \<Rightarrow> int \<Rightarrow> int \<Rightarrow> int \<Rightarrow> Segment res" where
  "openSegment files baseOffset maxSegmentBytes indexInterval =
     (case sf_remote files of
        Some stub \<Rightarrow>
          res_bind (readRemoteStub stub) (\<lambda>(_, _, next).
            Inr \<lparr>sg_baseOffset = baseOffset, sg_logFile = None, sg_index = None, sg_nextOffset = next,
                 sg_size = 0, sg_maxSegmentBytes = maxSegmentBytes, sg_indexInterval = indexInterval,
                 sg_remote = True, sg_remoteStub = Some stub,
                 sg_syncedOffset = 0, sg_syncedBytes = 0, sg_lastSyncMs = 0\<rparr>)
      | None \<Rightarrow>
          (let log = obytes (sf_log files)
           in res_bind (openIndex (obytes (sf_index files)) baseOffset indexInterval) (\<lambda>idx.
              res_bind (seg_recover
                \<lparr>sg_baseOffset = baseOffset, sg_logFile = Some log, sg_index = Some idx,
                 sg_nextOffset = baseOffset, sg_size = length log, sg_maxSegmentBytes = maxSegmentBytes,
                 sg_indexInterval = indexInterval, sg_remote = False, sg_remoteStub = None,
                 sg_syncedOffset = 0, sg_syncedBytes = 0, sg_lastSyncMs = 0\<rparr>) (\<lambda>seg.
              Inr (seg\<lparr>sg_syncedOffset := sg_nextOffset seg, sg_syncedBytes := sg_size seg\<rparr>)))))"

definition restoreFrom :: "Segment \<Rightarrow> bytes \<Rightarrow> bytes \<Rightarrow> Segment res" where
  "restoreFrom s logData indexData =
     openSegment \<lparr>sf_log = Some logData, sf_index = Some indexData, sf_remote = None\<rparr>
       (sg_baseOffset s) (sg_maxSegmentBytes s) (sg_indexInterval s)"

text \<open>What a segment leaves in the directory.\<close>

definition files_of :: "Segment \<Rightarrow> SegFiles" where
  "files_of s = \<lparr>sf_log = sg_logFile s, sf_index = map_option ix_file (sg_index s), sf_remote = sg_remoteStub s\<rparr>"

subsection \<open>Append\<close>

text \<open>
  \<^verbatim>\<open>append\<close> writes the assigned offset into the first eight bytes of the caller's slice,
  so the slice after the call is part of the result.
\<close>

definition seg_append :: "Segment \<Rightarrow> bytes \<Rightarrow> (int \<times> bytes \<times> Segment) res" where
  "seg_append s raw =
     res_bind (ParseRecordBatchHeader raw) (\<lambda>h.
       if s64 (s64 (sg_nextOffset s + sint (bh_LastOffsetDelta h) + 1) - sg_baseOffset s) > 2147483647
       then Inl SegmentOffsetOverflow
       else let assigned = sg_nextOffset s;
                raw' = PutUint64 (word_of_int assigned) @ drop 8 raw
            in case sg_logFile s of
                 None \<Rightarrow> Inl IOError
               | Some f \<Rightarrow>
                   (case sg_index s of
                      None \<Rightarrow> Inl Panic
                    | Some idx \<Rightarrow>
                        Inr (assigned, raw',
                          s\<lparr>sg_logFile := Some (write_at f (sg_size s) raw'),
                            sg_size := sg_size s + length raw',
                            sg_nextOffset := s64 (sg_nextOffset s + (sint (bh_LastOffsetDelta h) + 1)),
                            sg_index := Some (maybeAppend idx assigned (int (sg_size s)))\<rparr>)))"

definition seg_full :: "Segment \<Rightarrow> bool" where
  "seg_full s \<longleftrightarrow> sg_maxSegmentBytes s \<le> int (sg_size s)"

subsection \<open>Read\<close>

function read_loop :: "bytes \<Rightarrow> nat \<Rightarrow> int \<Rightarrow> int \<Rightarrow> nat \<Rightarrow> bytes \<Rightarrow> bytes res" where
  "read_loop f sz offset maxBytes pos out =
     (if pos < sz \<and> s32 (int (length out)) < maxBytes then
        (case read_at f pos 12 of
          None \<Rightarrow> Inr out
        | Some prefix \<Rightarrow>
            (let len = sint (Uint32 (drop 8 prefix))
            in if len \<le> 0 \<or> int pos + 12 + len > int sz then Inr out
               else let total = 12 + nat len
               in if total < batchHeaderSize then Inr out
                  else (case read_at f pos total of
                         None \<Rightarrow> Inl EOF
                       | Some b \<Rightarrow>
                           if s64 (sint (Uint64 (take 8 b)) + sint (Uint32 (slice 23 27 b))) < offset
                           then read_loop f sz offset maxBytes (pos + total) out
                           else read_loop f sz offset maxBytes (pos + total) (out @ b))))
      else Inr out)"
  by pat_completeness auto
termination by (relation "measure (\<lambda>(f, sz, offset, maxBytes, pos, out). sz - pos)") auto

declare read_loop.simps [simp del]

definition seg_read :: "Segment \<Rightarrow> int \<Rightarrow> int \<Rightarrow> bytes res" where
  "seg_read s offset maxBytes =
     (if maxBytes \<le> 0 then Inr []
      else case sg_index s of
             None \<Rightarrow> Inl Panic
           | Some idx \<Rightarrow>
               read_loop (obytes (sg_logFile s)) (sg_size s) offset maxBytes (positionForOffset idx offset) [])"

subsection \<open>Truncation\<close>

function truncate_scan :: "bytes \<Rightarrow> nat \<Rightarrow> int \<Rightarrow> nat \<Rightarrow> nat res" where
  "truncate_scan f sz target pos =
     (if pos < sz then
        (case read_at f pos 12 of
          None \<Rightarrow> Inl EOF
        | Some prefix \<Rightarrow>
            (let base = sint (Uint64 (take 8 prefix)); len = sint (Uint32 (drop 8 prefix))
            in if len \<le> 0 \<or> int pos + 12 + len > int sz then Inr pos
               else let delta = (case read_at f (pos + 23) 4 of Some d \<Rightarrow> sint (Uint32 d) | None \<Rightarrow> 0)
               in if s64 (base + delta) \<ge> target then Inr pos
                  else truncate_scan f sz target (pos + (12 + nat len))))
      else Inr pos)"
  by pat_completeness auto
termination by (relation "measure (\<lambda>(f, sz, target, pos). sz - pos)") auto

function rebuild_index :: "bytes \<Rightarrow> nat \<Rightarrow> nat \<Rightarrow> indexFile \<Rightarrow> indexFile" where
  "rebuild_index f sz scan idx =
     (if scan < sz then
        (case read_at f scan 12 of
          None \<Rightarrow> idx
        | Some prefix \<Rightarrow>
            (let base = sint (Uint64 (take 8 prefix)); len = sint (Uint32 (drop 8 prefix))
            in if len \<le> 0 \<or> int scan + 12 + len > int sz then idx
               else rebuild_index f sz (scan + (12 + nat len)) (maybeAppend idx base (int scan))))
      else idx)"
  by pat_completeness auto
termination by (relation "measure (\<lambda>(f, sz, scan, idx). sz - scan)") auto

declare truncate_scan.simps [simp del] rebuild_index.simps [simp del]

definition seg_truncateTo :: "Segment \<Rightarrow> int \<Rightarrow> Segment res" where
  "seg_truncateTo s target =
     (if target \<le> sg_baseOffset s
      then Inr (s\<lparr>sg_logFile := map_option (\<lambda>f. truncate_file f 0) (sg_logFile s), sg_size := 0,
                 sg_nextOffset := sg_baseOffset s, sg_index := map_option index_reset (sg_index s)\<rparr>)
      else case sg_index s of
             None \<Rightarrow> Inl Panic
           | Some idx \<Rightarrow>
               (let f = obytes (sg_logFile s)
                in res_bind (truncate_scan f (sg_size s) target (positionForOffset idx target)) (\<lambda>pos.
                   let f' = truncate_file f pos
                   in Inr (s\<lparr>sg_logFile := Some f', sg_size := pos, sg_nextOffset := target,
                            sg_index := Some (rebuild_index f' pos 0 (index_reset idx))\<rparr>))))"

subsection \<open>Syncing\<close>

definition seg_sync :: "int \<Rightarrow> Segment \<Rightarrow> Segment" where
  "seg_sync now s =
     (case sg_logFile s of
        None \<Rightarrow> s
      | Some _ \<Rightarrow> s\<lparr>sg_syncedOffset := sg_nextOffset s, sg_syncedBytes := sg_size s, sg_lastSyncMs := now\<rparr>)"

end
