(* ===== verification/Segment_Spec.thy ===== *)
theory Segment_Spec
  imports Log_Segment
begin

text \<open>
  What a segment stands for: the list of record batches in its log file.  The relation
  \<open>seg_ok s bs\<close> ties the file, the counters and the index of a segment to the list \<open>bs\<close>;
  append, read, truncate and open are shown to be the obvious list operations under it.
\<close>

subsection \<open>Batches and logs\<close>

definition batch_base :: "bytes \<Rightarrow> int" where
  "batch_base raw = sint (Uint64 (slice 0 8 raw))"

definition batch_length_field :: "bytes \<Rightarrow> int" where
  "batch_length_field raw = sint (Uint32 (slice 8 12 raw))"

definition batch_delta :: "bytes \<Rightarrow> int" where
  "batch_delta raw = sint (Uint32 (slice 23 27 raw))"

definition batch_last :: "bytes \<Rightarrow> int" where
  "batch_last raw = batch_base raw + batch_delta raw"

text \<open>A batch whose length field tells its size and whose offsets do not run backwards.\<close>

definition wf_batch :: "bytes \<Rightarrow> bool" where
  "wf_batch raw \<longleftrightarrow> 61 \<le> length raw \<and> int (length raw) = 12 + batch_length_field raw \<and> 0 \<le> batch_delta raw"

fun log_ok :: "int \<Rightarrow> bytes list \<Rightarrow> bool" where
  "log_ok n [] \<longleftrightarrow> True"
| "log_ok n (b # bs) \<longleftrightarrow> wf_batch b \<and> batch_base b = n \<and> log_ok (batch_last b + 1) bs"

fun log_end :: "int \<Rightarrow> bytes list \<Rightarrow> int" where
  "log_end n [] = n"
| "log_end n (b # bs) = log_end (batch_last b + 1) bs"

lemma log_ok_append: "log_ok n (xs @ ys) \<longleftrightarrow> log_ok n xs \<and> log_ok (log_end n xs) ys"
  by (induction n xs rule: log_ok.induct) auto

lemma log_end_append: "log_end n (xs @ ys) = log_end (log_end n xs) ys"
  by (induction n xs rule: log_end.induct) auto

lemma batch_last_ge: "wf_batch b \<Longrightarrow> batch_base b \<le> batch_last b"
  by (simp add: wf_batch_def batch_last_def)

lemma log_end_ge: "log_ok n bs \<Longrightarrow> n \<le> log_end n bs"
proof (induction n bs rule: log_ok.induct)
  case (2 n b bs)
  then show ?case using batch_last_ge [of b] by simp
qed simp

lemma log_end_grows: "log_ok n bs \<Longrightarrow> bs \<noteq> [] \<Longrightarrow> n < log_end n bs"
proof (induction n bs rule: log_ok.induct)
  case (2 n b bs)
  then show ?case using batch_last_ge [of b] log_end_ge [of "batch_last b + 1" bs] by simp
qed simp

lemma log_ok_members:
  "log_ok n bs \<Longrightarrow> b \<in> set bs \<Longrightarrow> wf_batch b \<and> n \<le> batch_base b \<and> batch_last b < log_end n bs"
proof (induction n bs rule: log_ok.induct)
  case (2 n a bs)
  have "batch_last a < log_end (batch_last a + 1) bs" using 2 log_end_ge [of "batch_last a + 1" bs] by simp
  with 2 batch_last_ge [of a] show ?case by fastforce
qed simp

subsection \<open>Reading the fields of a batch inside a file\<close>

lemma wf_batch_long: "wf_batch b \<Longrightarrow> 61 \<le> length b"
  by (simp add: wf_batch_def)

lemma read_prefix:
  assumes "12 \<le> length b"
  shows "read_at (pre @ b @ rest) (length pre) 12 = Some (take 12 b)"
  using assms by (simp add: read_at_def)

lemma read_delta:
  assumes "27 \<le> length b"
  shows "read_at (pre @ b @ rest) (length pre + 23) 4 = Some (slice 23 27 b)"
  using assms by (simp add: read_at_def slice_def)

lemma read_batch: "b \<noteq> [] \<Longrightarrow> read_at (pre @ b @ rest) (length pre) (length b) = Some b"
  by (simp add: read_at_def)

lemma prefix_fields:
  "12 \<le> length b \<Longrightarrow> drop 8 (take 12 b) = slice 8 12 b"
  "12 \<le> length b \<Longrightarrow> take 8 (take 12 b) = slice 0 8 b"
  by (simp_all add: slice_def drop_take)

text \<open>The guard that the scanning loops put on a length field, on a well-formed batch.\<close>

lemma wf_batch_guard:
  assumes "wf_batch b"
  shows "\<not> (batch_length_field b \<le> 0 \<or> int pos + 12 + batch_length_field b > int (pos + length b + n))"
    and "12 + nat (batch_length_field b) = length b"
  using assms by (auto simp: wf_batch_def)

definition offset_range :: "int \<Rightarrow> bool" where
  "offset_range n \<longleftrightarrow> 0 \<le> n \<and> n < 2 ^ 62"

lemma s64_small: "0 \<le> x \<Longrightarrow> x < 2 ^ 62 + 2 ^ 33 \<Longrightarrow> s64 x = x"
  by (rule s64_id) simp_all

lemma batch_delta_bound: "- (2 ^ 31) \<le> batch_delta b \<and> batch_delta b < 2 ^ 31"
  unfolding batch_delta_def using sint32_bounds [of "Uint32 (slice 23 27 b)"] by simp

subsection \<open>The recovery scan\<close>

lemma recover_loop_step:
  assumes b: "wf_batch b" and n: "s64 (n + (batch_delta b + 1)) = m"
  shows "recover_loop (pre @ b @ rest) (length (pre @ b @ rest)) n (length pre)
    = recover_loop (pre @ b @ rest) (length (pre @ b @ rest)) m (length (pre @ b))"
proof -
  note long = wf_batch_long [OF b]
  have l: "12 \<le> length b" "27 \<le> length b" using long by linarith+
  have "length pre < length (pre @ b @ rest)" using long by auto
  moreover have "\<not> (batch_length_field b \<le> 0 \<or> int (length pre) + 12 + batch_length_field b > int (length (pre @ b @ rest)))"
    using wf_batch_guard(1) [OF b, of "length pre" "length rest"] by (simp add: add.assoc)
  ultimately show ?thesis
    using wf_batch_guard(2) [OF b] n
    by (subst recover_loop.simps)
      (simp only: read_prefix [OF l(1)] read_delta [OF l(2)] option.case Let_def prefix_fields [OF l(1)]
        batch_length_field_def [symmetric] batch_delta_def [symmetric] if_True if_False length_append)
qed

lemma recover_loop_batches:
  assumes "log_ok n bs" and "0 \<le> n" and "log_end n bs < 2 ^ 62 + 2 ^ 33"
  shows "recover_loop (pre @ concat bs @ tail) (length (pre @ concat bs @ tail)) n (length pre)
    = recover_loop (pre @ concat bs @ tail) (length (pre @ concat bs @ tail)) (log_end n bs) (length (pre @ concat bs))"
  using assms
proof (induction bs arbitrary: pre n)
  case (Cons b bs)
  from Cons.prems have b: "wf_batch b" "batch_base b = n" and bs: "log_ok (batch_last b + 1) bs" by simp_all
  have ge: "n \<le> batch_last b" using batch_last_ge [OF b(1)] b(2) by simp
  have "batch_last b + 1 \<le> log_end n (b # bs)" using log_end_ge [OF bs] by simp
  then have "s64 (n + (batch_delta b + 1)) = batch_last b + 1"
    using Cons.prems b(2) ge by (subst s64_small) (simp_all add: batch_last_def)
  note step = recover_loop_step [OF b(1) this, of pre "concat bs @ tail"]
  have "recover_loop ((pre @ b) @ concat bs @ tail) (length ((pre @ b) @ concat bs @ tail)) (batch_last b + 1) (length (pre @ b))
    = recover_loop ((pre @ b) @ concat bs @ tail) (length ((pre @ b) @ concat bs @ tail))
        (log_end (batch_last b + 1) bs) (length ((pre @ b) @ concat bs))"
    using Cons.IH [OF bs, of "pre @ b"] Cons.prems ge by simp
  with step show ?case by simp
qed simp

lemma recover_loop_end: "recover_loop f sz n sz = Inr (n, sz)"
  by (simp add: recover_loop.simps [of f sz n sz])

text \<open>A tail that the scan stops at: a complete prefix whose batch is not all there.\<close>

definition torn_tail :: "bytes \<Rightarrow> bool" where
  "torn_tail t \<longleftrightarrow> 12 \<le> length t \<and> (batch_length_field t \<le> 0 \<or> int (length t) < 12 + batch_length_field t)"

lemma recover_loop_torn:
  assumes "torn_tail t"
  shows "recover_loop (pre @ t) (length (pre @ t)) n (length pre) = Inr (n, length pre)"
proof -
  have t: "12 \<le> length t" using assms by (simp add: torn_tail_def)
  have "read_at (pre @ t) (length pre) 12 = Some (take 12 t)" using read_prefix [of t pre "[]"] t by simp
  moreover have "length pre < length (pre @ t)" using t by auto
  moreover have "batch_length_field t \<le> 0 \<or> int (length pre) + 12 + batch_length_field t > int (length (pre @ t))"
    using assms by (auto simp: torn_tail_def)
  ultimately show ?thesis
    by (subst recover_loop.simps)
      (simp only: option.case Let_def prefix_fields [OF t] batch_length_field_def [symmetric] if_True)
qed

lemma recover_loop_short:
  assumes "0 < length t" and "length t < 12"
  shows "recover_loop (pre @ t) (length (pre @ t)) n (length pre) = Inl RecoverRead"
  using assms by (subst recover_loop.simps) (simp add: read_at_def)

subsection \<open>The read loop\<close>

text \<open>
  Whole batches are returned until the byte budget is used up: the last one may exceed
  it, and a positive budget returns at least one batch.
\<close>

fun take_bytes :: "int \<Rightarrow> bytes list \<Rightarrow> bytes list" where
  "take_bytes m [] = []"
| "take_bytes m (b # bs) = (if m \<le> 0 then [] else b # take_bytes (m - int (length b)) bs)"

lemma take_bytes_nonpos: "m \<le> 0 \<Longrightarrow> take_bytes m bs = []"
  by (cases bs) simp_all

lemma read_loop_step:
  assumes b: "wf_batch b" and r: "s64 (batch_base b + batch_delta b) = batch_last b"
    and out: "s32 (int (length out)) < m"
  shows "read_loop (pre @ b @ rest) (length (pre @ b @ rest)) offset m (length pre) out
    = read_loop (pre @ b @ rest) (length (pre @ b @ rest)) offset m (length (pre @ b))
        (if batch_last b < offset then out else out @ b)"
proof -
  note long = wf_batch_long [OF b]
  have l: "12 \<le> length b" "27 \<le> length b" using long by linarith+
  have "length pre < length (pre @ b @ rest)" using long by auto
  moreover have "\<not> (batch_length_field b \<le> 0 \<or> int (length pre) + 12 + batch_length_field b > int (length (pre @ b @ rest)))"
    using wf_batch_guard(1) [OF b, of "length pre" "length rest"] by (simp add: add.assoc)
  moreover have "\<not> length b < batchHeaderSize" using long by (simp add: batchHeaderSize_def)
  moreover have "take 8 b = slice 0 8 b" by (simp add: slice_def)
  moreover have "b \<noteq> []" using long by auto
  ultimately show ?thesis
    using wf_batch_guard(2) [OF b] r out
    by (subst read_loop.simps,
      simp only: read_prefix [OF l(1)] read_batch option.case Let_def prefix_fields [OF l(1)]
        batch_length_field_def [symmetric] batch_delta_def [symmetric] batch_base_def [symmetric]
        if_True if_False length_append conj_assoc simp_thms not_False_eq_True split: if_split) blast
qed

lemma read_loop_batches:
  assumes "log_ok n bs" and "0 \<le> n" and "log_end n bs < 2 ^ 62 + 2 ^ 33"
    and "length out + length (concat bs) < 2 ^ 31"
  shows "read_loop (pre @ concat bs) (length (pre @ concat bs)) offset m (length pre) out
    = Inr (out @ concat (take_bytes (m - int (length out)) (filter (\<lambda>b. offset \<le> batch_last b) bs)))"
  using assms
proof (induction bs arbitrary: pre n out)
  case Nil
  then show ?case by (simp add: read_loop.simps)
next
  case (Cons b bs)
  from Cons.prems have b: "wf_batch b" "batch_base b = n" and bs: "log_ok (batch_last b + 1) bs" by simp_all
  have ge: "n \<le> batch_last b" using batch_last_ge [OF b(1)] b(2) by simp
  have "batch_last b + 1 \<le> log_end n (b # bs)" using log_end_ge [OF bs] by simp
  then have r: "s64 (batch_base b + batch_delta b) = batch_last b"
    using Cons.prems b(2) ge by (subst s64_small) (simp_all add: batch_last_def)
  have s: "s32 (int (length out)) = int (length out)"
    using Cons.prems(4) by (intro s32_id) simp_all
  show ?case
  proof (cases "int (length out) < m")
    case True
    let ?out = "if batch_last b < offset then out else out @ b"
    have "read_loop ((pre @ b) @ concat bs) (length ((pre @ b) @ concat bs)) offset m (length (pre @ b)) ?out
      = Inr (?out @ concat (take_bytes (m - int (length ?out)) (filter (\<lambda>b. offset \<le> batch_last b) bs)))"
      using Cons.prems ge by (intro Cons.IH [OF bs]) simp_all
    with read_loop_step [OF b(1) r, of out m pre "concat bs" offset] True s
    show ?thesis by (auto simp: algebra_simps)
  next
    case False
    with s show ?thesis by (simp add: read_loop.simps take_bytes_nonpos)
  qed
qed

end
