(* ===== verification/Segment_Refine.thy ===== *)
theory Segment_Refine
  imports Segment_Spec
begin

text \<open>
  The segment operations refine the list of batches: append adds one, read filters and
  cuts the list at the byte budget, open gives the list back.
\<close>

subsection \<open>The abstraction relation\<close>

text \<open>Every index entry points at the start of a batch and carries that batch's offset.\<close>

definition entry_ok :: "int \<Rightarrow> bytes list \<Rightarrow> indexEntry \<Rightarrow> bool" where
  "entry_ok base bs e \<longleftrightarrow>
     (\<exists>xs ys. bs = xs @ ys \<and> ys \<noteq> [] \<and> unat (position e) = length (concat xs)
        \<and> uint (relativeOffset e) = log_end base xs - base)"

definition index_ok :: "indexFile \<Rightarrow> int \<Rightarrow> bytes list \<Rightarrow> bool" where
  "index_ok idx base bs \<longleftrightarrow> ix_baseOffset idx = base \<and> index_stored idx
     \<and> sorted (map relativeOffset (ix_entries idx)) \<and> (\<forall>e \<in> set (ix_entries idx). entry_ok base bs e)"

definition log_small :: "int \<Rightarrow> bytes list \<Rightarrow> bool" where
  "log_small base bs \<longleftrightarrow> log_ok base bs \<and> 0 \<le> base \<and> base < 2 ^ 62
     \<and> log_end base bs - base < 2 ^ 31 \<and> length (concat bs) < 2 ^ 31"

definition seg_ok :: "Segment \<Rightarrow> bytes list \<Rightarrow> bool" where
  "seg_ok s bs \<longleftrightarrow> sg_logFile s = Some (concat bs) \<and> sg_size s = length (concat bs)
     \<and> log_small (sg_baseOffset s) bs \<and> sg_nextOffset s = log_end (sg_baseOffset s) bs
     \<and> (\<exists>idx. sg_index s = Some idx \<and> index_ok idx (sg_baseOffset s) bs
          \<and> ix_interval idx = sg_indexInterval s)
     \<and> \<not> sg_remote s \<and> sg_remoteStub s = None"

lemma log_small_end: "log_small base bs \<Longrightarrow> log_end base bs < 2 ^ 62 + 2 ^ 33"
  by (simp add: log_small_def)

lemma entry_ok_append: "entry_ok base bs e \<Longrightarrow> entry_ok base (bs @ [b]) e"
  unfolding entry_ok_def by (metis append.assoc append_is_Nil_conv)

lemma entry_ok_bound:
  assumes "entry_ok base bs e" and "log_ok base bs"
  shows "uint (relativeOffset e) \<le> log_end base bs - base"
proof -
  from assms obtain xs ys where "bs = xs @ ys" "uint (relativeOffset e) = log_end base xs - base"
    by (auto simp: entry_ok_def)
  with assms(2) log_end_ge [of "log_end base xs" ys] show ?thesis
    by (simp add: log_ok_append log_end_append)
qed

lemma uint_word_of_int_small: "0 \<le> x \<Longrightarrow> x < 2 ^ 32 \<Longrightarrow> uint (word_of_int x :: 32 word) = x"
  by (simp add: uint_word_of_int)

lemma maybeAppend_ok:
  assumes idx: "index_ok idx base bs" and log: "log_small base (bs @ [b])"
  shows "index_ok (maybeAppend idx (log_end base bs) (int (length (concat bs)))) base (bs @ [b])"
proof -
  from log have bs: "log_ok base bs" and next_off: "0 \<le> log_end base bs - base"
    "log_end base bs - base < 2 ^ 32" and len: "length (concat bs) < 2 ^ 32"
    using log_end_ge [of base bs] log_end_ge [of "log_end base bs" "[b]"]
    by (simp_all add: log_small_def log_ok_append log_end_append)
  define e where "e = \<lparr>relativeOffset = word_of_int (log_end base bs - base) :: uint32,
      position = word_of_int (int (length (concat bs))) :: uint32\<rparr>"
  have rel: "uint (relativeOffset e) = log_end base bs - base"
    unfolding e_def using next_off by (simp only: indexEntry.simps uint_word_of_int_small)
  have "unat (position e) = length (concat bs)"
    unfolding e_def using len by (simp add: unat_of_nat)
  with rel have e: "entry_ok base (bs @ [b]) e"
    unfolding entry_ok_def by blast
  have "relativeOffset d \<le> relativeOffset e" if "d \<in> set (ix_entries idx)" for d
    using that idx entry_ok_bound [OF _ bs, of d] rel by (simp add: index_ok_def word_le_def)
  moreover have "ix_entries (index_append idx (log_end base bs) (int (length (concat bs)))) = ix_entries idx @ [e]"
    using idx by (simp only: index_append_fields index_ok_def e_def)
  ultimately have "index_ok (index_append idx (log_end base bs) (int (length (concat bs)))) base (bs @ [b])"
    using idx e by (simp add: index_ok_def index_append_fields(1) index_append_stored sorted_append entry_ok_append)
  moreover have "index_ok idx base (bs @ [b])"
    using idx by (simp add: index_ok_def entry_ok_append)
  ultimately show ?thesis by (simp add: maybeAppend_def Let_def)
qed

subsection \<open>Append\<close>

text \<open>The batch as it is stored: the first eight bytes replaced by the assigned offset.\<close>

definition set_base :: "int \<Rightarrow> bytes \<Rightarrow> bytes" where
  "set_base n raw = PutUint64 (word_of_int n) @ drop 8 raw"

lemma set_base_fields:
  assumes "61 \<le> length raw"
  shows "length (set_base n raw) = length raw" "batch_delta (set_base n raw) = batch_delta raw"
    "batch_length_field (set_base n raw) = batch_length_field raw"
  using assms by (simp_all add: set_base_def batch_delta_def batch_length_field_def slice_def)

lemma batch_base_set_base: "offset_range n \<Longrightarrow> batch_base (set_base n raw) = n"
  by (simp add: batch_base_def set_base_def slice_def offset_range_def sint64_of_int)

lemma wf_batch_header:
  assumes "wf_batch raw" and "raw ! 16 = 2"
  shows "ParseRecordBatchHeader raw = Inr \<lparr>bh_BaseOffset = Uint64 (slice 0 8 raw), bh_Length = Uint32 (slice 8 12 raw),
      bh_LastOffsetDelta = Uint32 (slice 23 27 raw), bh_Count = Uint32 (slice 57 61 raw)\<rparr>"
  using assms by (simp add: ParseRecordBatchHeader_def wf_batch_def batchHeaderSize_def)

lemma log_small_snoc:
  assumes "log_small base bs" and "wf_batch raw"
    and "log_end base bs + batch_delta raw + 1 - base < 2 ^ 31"
    and "length (concat bs) + length raw < 2 ^ 31"
  shows "log_small base (bs @ [set_base (log_end base bs) raw])"
    and "log_end base (bs @ [set_base (log_end base bs) raw]) = log_end base bs + batch_delta raw + 1"
proof -
  let ?n = "log_end base bs" and ?b = "set_base (log_end base bs) raw"
  have long: "61 \<le> length raw" using assms(2) by (rule wf_batch_long)
  have range: "0 \<le> ?n" "?n < 2 ^ 62 + 2 ^ 31"
    using assms(1) log_end_ge [of base bs] by (auto simp: log_small_def)
  have base: "batch_base ?b = ?n"
    using range by (simp add: batch_base_def set_base_def slice_def sint64_of_int)
  then show e: "log_end base (bs @ [?b]) = ?n + batch_delta raw + 1"
    using long by (simp add: log_end_append batch_last_def set_base_fields)
  have "wf_batch ?b" using assms(2) long by (simp add: wf_batch_def set_base_fields)
  with assms base e long show "log_small base (bs @ [?b])"
    by (simp add: log_small_def log_ok_append set_base_fields)
qed

text \<open>
  Append is adding a batch to the list.  On a segment that holds \<open>bs\<close>, appending a
  well-formed batch that fits assigns it the next offset, stores it with that offset
  written into it, advances the next offset past its last record, and leaves a segment
  that holds the longer list, its index included.
\<close>

lemma segment_append:
  assumes "seg_ok s bs" and "wf_batch raw" and "raw ! 16 = 2"
    and "sg_nextOffset s + batch_delta raw + 1 - sg_baseOffset s < 2 ^ 31"
    and "sg_size s + length raw < 2 ^ 31"
  shows "\<exists>s'. seg_append s raw = Inr (sg_nextOffset s, set_base (sg_nextOffset s) raw, s')
    \<and> seg_ok s' (bs @ [set_base (sg_nextOffset s) raw])
    \<and> sg_nextOffset s' = sg_nextOffset s + batch_delta raw + 1 \<and> sg_baseOffset s' = sg_baseOffset s"
proof -
  let ?base = "sg_baseOffset s" and ?n = "sg_nextOffset s" and ?b = "set_base (sg_nextOffset s) raw"
  from assms(1) obtain idx where s: "sg_logFile s = Some (concat bs)" "sg_size s = length (concat bs)"
    "log_small ?base bs" "?n = log_end ?base bs" "sg_index s = Some idx" "index_ok idx ?base bs"
    "ix_interval idx = sg_indexInterval s" "\<not> sg_remote s" "sg_remoteStub s = None"
    by (auto simp: seg_ok_def)
  have new: "log_small ?base (bs @ [?b])" and fin: "log_end ?base (bs @ [?b]) = ?n + batch_delta raw + 1"
    using log_small_snoc [OF s(3) assms(2)] assms(4,5) s by simp_all
  have range: "0 \<le> ?base" "?base \<le> ?n" "?base < 2 ^ 62"
    using s(3,4) log_end_ge [of ?base bs] by (simp_all add: log_small_def)
  have d: "0 \<le> batch_delta raw" using assms(2) by (simp add: wf_batch_def)
  have w: "s64 (?n + batch_delta raw + 1) = ?n + batch_delta raw + 1"
    "s64 (?n + (batch_delta raw + 1)) = ?n + batch_delta raw + 1"
    "s64 (?n + batch_delta raw + 1 - ?base) = ?n + batch_delta raw + 1 - ?base"
    using assms(4) d range by (subst s64_small; simp)+
  have h: "sint (bh_LastOffsetDelta \<lparr>bh_BaseOffset = Uint64 (slice 0 8 raw), bh_Length = Uint32 (slice 8 12 raw),
      bh_LastOffsetDelta = Uint32 (slice 23 27 raw), bh_Count = Uint32 (slice 57 61 raw)\<rparr>) = batch_delta raw"
    by (simp add: batch_delta_def)
  define s' where "s' = s\<lparr>sg_logFile := Some (concat bs @ ?b), sg_size := sg_size s + length ?b,
      sg_nextOffset := ?n + batch_delta raw + 1, sg_index := Some (maybeAppend idx ?n (int (sg_size s)))\<rparr>"
  have "seg_append s raw = Inr (?n, ?b, s')"
    unfolding seg_append_def wf_batch_header [OF assms(2,3)] res_bind_simps h w
    using assms(4) s by (simp add: Let_def set_base_def [symmetric] s'_def)
  moreover have "seg_ok s' (bs @ [?b])"
    using new fin s maybeAppend_ok [OF s(6) new]
    by (simp add: seg_ok_def s'_def)
  ultimately show ?thesis by (simp add: s'_def)
qed

subsection \<open>Read\<close>

lemma index_position:
  assumes idx: "index_ok idx base bs" and "base \<le> offset" and "offset - base < 2 ^ 32"
  shows "\<exists>xs ys. bs = xs @ ys \<and> positionForOffset idx offset = length (concat xs) \<and> log_end base xs \<le> offset"
proof -
  let ?es = "ix_entries idx"
  define rel :: uint32 where "rel = word_of_int (offset - ix_baseOffset idx)"
  have rel: "uint rel = offset - base"
    using assms unfolding rel_def index_ok_def by (simp only: uint_word_of_int_small diff_ge_0_iff_ge)
  define before where "before = filter (\<lambda>e. relativeOffset e \<le> rel) ?es"
  have pos: "positionForOffset idx offset = (if before = [] then 0 else unat (position (last before)))"
    using idx positionForOffset_spec [of idx offset]
    unfolding lookup_spec_def rel_def [symmetric] before_def [symmetric] index_ok_def Let_def by blast
  show ?thesis
  proof (cases "before = []")
    case True
    with pos assms(2) have "bs = [] @ bs \<and> positionForOffset idx offset = length (concat []) \<and> log_end base [] \<le> offset"
      by simp
    then show ?thesis by blast
  next
    case False
    then have "last before \<in> set before" by simp
    then have "last before \<in> set ?es" and le: "relativeOffset (last before) \<le> rel" by (simp_all add: before_def)
    with idx obtain xs ys where "bs = xs @ ys" "unat (position (last before)) = length (concat xs)"
      "uint (relativeOffset (last before)) = log_end base xs - base"
      by (auto simp: index_ok_def entry_ok_def)
    with pos False le rel show ?thesis by (auto simp: word_le_def)
  qed
qed

lemma filter_before:
  assumes "log_ok n xs" and "log_end n xs \<le> offset"
  shows "filter (\<lambda>b. offset \<le> batch_last b) xs = []"
  using assms log_ok_members [of n xs] by (fastforce simp: filter_empty_conv)

text \<open>
  Read returns exactly the batches that reach the requested offset, whole and in log
  order, until the byte budget is used up: the sparse index and the forward scan from the
  position it gives never skip a batch that is wanted nor return one that is not.
\<close>

lemma segment_read:
  assumes "seg_ok s bs" and "sg_baseOffset s \<le> offset" and "offset - sg_baseOffset s < 2 ^ 32"
  shows "seg_read s offset maxBytes
    = Inr (concat (take_bytes maxBytes (filter (\<lambda>b. offset \<le> batch_last b) bs)))"
proof (cases "maxBytes \<le> 0")
  case True
  then show ?thesis by (simp add: seg_read_def take_bytes_nonpos)
next
  case False
  let ?base = "sg_baseOffset s"
  from assms(1) obtain idx where s: "sg_logFile s = Some (concat bs)" "sg_size s = length (concat bs)"
    "log_small ?base bs" "sg_index s = Some idx" "index_ok idx ?base bs"
    by (auto simp: seg_ok_def)
  from index_position [OF s(5) assms(2,3)] obtain xs ys where
    split: "bs = xs @ ys" "positionForOffset idx offset = length (concat xs)" "log_end ?base xs \<le> offset"
    by blast
  have xs: "log_ok ?base xs" and ys: "log_ok (log_end ?base xs) ys"
    using s(3) split(1) by (simp_all add: log_small_def log_ok_append)
  have "seg_read s offset maxBytes
      = read_loop (concat xs @ concat ys) (length (concat xs @ concat ys)) offset maxBytes (length (concat xs)) []"
    using False s split by (simp add: seg_read_def obytes_def)
  also have "\<dots> = Inr ([] @ concat (take_bytes (maxBytes - int (length ([] :: bytes)))
      (filter (\<lambda>b. offset \<le> batch_last b) ys)))"
    using s(3) split(1) log_small_end [OF s(3)] log_end_ge [OF xs]
    by (intro read_loop_batches [OF ys]) (simp_all add: log_small_def log_end_append)
  also have "filter (\<lambda>b. offset \<le> batch_last b) ys = filter (\<lambda>b. offset \<le> batch_last b) bs"
    using filter_before [OF xs split(3)] split(1) by simp
  finally show ?thesis by simp
qed

subsection \<open>Open\<close>

lemma seg_recover_batches:
  assumes log: "log_small base bs" and t: "t = [] \<or> torn_tail t"
    and s: "sg_logFile s = Some (concat bs @ t)" "sg_size s = length (concat bs @ t)" "sg_nextOffset s = base"
  shows "seg_recover s = Inr (s\<lparr>sg_logFile := Some (concat bs), sg_size := length (concat bs),
      sg_nextOffset := log_end base bs\<rparr>)"
proof (cases "concat bs @ t = []")
  case True
  have "bs = []"
  proof (rule ccontr)
    assume "bs \<noteq> []"
    then obtain b bs' where "bs = b # bs'" by (cases bs) auto
    moreover have "wf_batch b" using log calculation by (simp add: log_small_def)
    ultimately show False using True wf_batch_long [of b] by auto
  qed
  with True s show ?thesis by (cases s) (simp add: seg_recover_def)
next
  case False
  have "recover_loop (concat bs @ t) (length (concat bs @ t)) base 0 = Inr (log_end base bs, length (concat bs))"
    using recover_loop_batches [of base bs "[]" t] log log_small_end [OF log]
      recover_loop_torn [of t "concat bs" "log_end base bs"] recover_loop_end t
    by (auto simp: log_small_def)
  with False s show ?thesis
    by (cases s) (auto simp: seg_recover_def Let_def obytes_def)
qed

lemma seg_recover_short:
  assumes log: "log_small base bs" and t: "0 < length t" "length t < 12"
    and s: "sg_logFile s = Some (concat bs @ t)" "sg_size s = length (concat bs @ t)" "sg_nextOffset s = base"
  shows "seg_recover s = Inl RecoverRead"
proof -
  have "recover_loop (concat bs @ t) (length (concat bs @ t)) base 0 = Inl RecoverRead"
    using recover_loop_batches [of base bs "[]" t] log log_small_end [OF log]
      recover_loop_short [OF t, of "concat bs"]
    by (simp add: log_small_def)
  with s t show ?thesis by (auto simp: seg_recover_def Let_def obytes_def)
qed

text \<open>
  Opening the files of a segment, with a batch at the end that a crash left incomplete or
  without, gives back a segment that holds exactly the complete batches.
\<close>

lemma openSegment_batches:
  assumes log: "log_small base bs" and t: "t = [] \<or> torn_tail t"
    and idx: "index_ok idx base bs" "ix_interval idx = interval"
  shows "\<exists>s. openSegment \<lparr>sf_log = Some (concat bs @ t), sf_index = Some (ix_file idx), sf_remote = None\<rparr>
          base maxBytes interval = Inr s
    \<and> seg_ok s bs \<and> sg_baseOffset s = base \<and> sg_index s = Some idx
    \<and> sg_maxSegmentBytes s = maxBytes \<and> sg_indexInterval s = interval
    \<and> sg_syncedBytes s = sg_size s \<and> sg_syncedOffset s = sg_nextOffset s"
proof -
  have open_idx: "openIndex (ix_file idx) base interval = Inr idx"
    using idx by (cases idx) (simp add: index_ok_def index_stored_def openIndex_stored)
  define s0 where "s0 = \<lparr>sg_baseOffset = base, sg_logFile = Some (concat bs @ t), sg_index = Some idx,
      sg_nextOffset = base, sg_size = length (concat bs @ t), sg_maxSegmentBytes = maxBytes,
      sg_indexInterval = interval, sg_remote = False, sg_remoteStub = None,
      sg_syncedOffset = 0, sg_syncedBytes = 0, sg_lastSyncMs = 0\<rparr>"
  have "seg_recover s0 = Inr (s0\<lparr>sg_logFile := Some (concat bs), sg_size := length (concat bs),
      sg_nextOffset := log_end base bs\<rparr>)"
    by (rule seg_recover_batches [OF log t]) (simp_all add: s0_def)
  then show ?thesis
    using open_idx idx log
    by (auto simp: openSegment_def obytes_def s0_def seg_ok_def)
qed

lemma openSegment_fresh:
  assumes "0 \<le> base" and "base < 2 ^ 62"
  shows "\<exists>s. openSegment no_files base maxBytes interval = Inr s
    \<and> seg_ok s [] \<and> sg_baseOffset s = base \<and> sg_maxSegmentBytes s = maxBytes \<and> sg_indexInterval s = interval"
proof -
  let ?idx = "\<lparr>ix_baseOffset = base, ix_interval = interval, ix_file = [], ix_entries = [], ix_writtenSize = 0\<rparr>"
  have "log_small base []" using assms by (simp add: log_small_def)
  moreover have "index_ok ?idx base []" by (simp add: index_ok_def index_stored_def)
  ultimately show ?thesis
    using openSegment_batches [of base "[]" "[]" ?idx interval maxBytes]
    by (auto simp: no_files_def openSegment_def obytes_def)
qed

lemma torn_prefix:
  assumes "wf_batch raw" and "12 \<le> k" and "k < length raw"
  shows "torn_tail (take k raw)"
  using assms by (simp add: torn_tail_def wf_batch_def batch_length_field_def slice_def drop_take min_def)

text \<open>
  C10.  Recovery after a crash.  A segment holds the batches \<open>bs\<close>, and a crash leaves any
  part of one more batch at the end of its log.  If the part has at least the 12 bytes of
  the batch prefix, opening the segment gives back exactly \<open>bs\<close>, the torn batch cut off;
  if it has between 1 and 11 bytes, opening fails instead of cutting them off.
\<close>

theorem segment_crash_recovery:
  assumes "seg_ok s bs" and "sg_index s = Some idx" and "wf_batch raw" and "k < length raw"
  shows "(k = 0 \<or> 12 \<le> k \<longrightarrow>
      (\<exists>s'. openSegment \<lparr>sf_log = Some (concat bs @ take k raw), sf_index = Some (ix_file idx), sf_remote = None\<rparr>
              (sg_baseOffset s) (sg_maxSegmentBytes s) (sg_indexInterval s) = Inr s'
        \<and> seg_ok s' bs \<and> sg_nextOffset s' = sg_nextOffset s))
    \<and> (0 < k \<and> k < 12 \<longrightarrow>
      openSegment \<lparr>sf_log = Some (concat bs @ take k raw), sf_index = Some (ix_file idx), sf_remote = None\<rparr>
        (sg_baseOffset s) (sg_maxSegmentBytes s) (sg_indexInterval s) = Inl RecoverRead)"
proof (intro conjI impI)
  let ?base = "sg_baseOffset s"
  from assms(1,2) have s: "log_small ?base bs" "index_ok idx ?base bs" "ix_interval idx = sg_indexInterval s"
    "sg_nextOffset s = log_end ?base bs"
    by (auto simp: seg_ok_def)
  show "\<exists>s'. openSegment \<lparr>sf_log = Some (concat bs @ take k raw), sf_index = Some (ix_file idx), sf_remote = None\<rparr>
              ?base (sg_maxSegmentBytes s) (sg_indexInterval s) = Inr s'
        \<and> seg_ok s' bs \<and> sg_nextOffset s' = sg_nextOffset s"
    if "k = 0 \<or> 12 \<le> k"
  proof -
    have "take k raw = [] \<or> torn_tail (take k raw)" using that torn_prefix [OF assms(3) _ assms(4)] by auto
    from openSegment_batches [OF s(1) this s(2,3)] s(4) show ?thesis
      by (fastforce simp: seg_ok_def)
  qed
  show "openSegment \<lparr>sf_log = Some (concat bs @ take k raw), sf_index = Some (ix_file idx), sf_remote = None\<rparr>
        ?base (sg_maxSegmentBytes s) (sg_indexInterval s) = Inl RecoverRead"
    if "0 < k \<and> k < 12"
  proof -
    have "openIndex (ix_file idx) ?base (sg_indexInterval s) = Inr idx"
      using s by (cases idx) (simp add: index_ok_def index_stored_def openIndex_stored)
    moreover have "seg_recover \<lparr>sg_baseOffset = ?base, sg_logFile = Some (concat bs @ take k raw), sg_index = Some idx,
        sg_nextOffset = ?base, sg_size = length (concat bs @ take k raw), sg_maxSegmentBytes = sg_maxSegmentBytes s,
        sg_indexInterval = sg_indexInterval s, sg_remote = False, sg_remoteStub = None,
        sg_syncedOffset = 0, sg_syncedBytes = 0, sg_lastSyncMs = 0\<rparr> = Inl RecoverRead"
      by (rule seg_recover_short [OF s(1), of "take k raw"]) (use that assms(4) in auto)
    ultimately show ?thesis by (simp add: openSegment_def obytes_def)
  qed
qed

definition sample_raw :: bytes where
  "sample_raw = replicate 8 0 @ [0, 0, 0, 49] @ replicate 4 0 @ [2] @ replicate 44 0"

lemma sample_raw_wf: "wf_batch sample_raw" "sample_raw ! 16 = 2" "length sample_raw = 61" "batch_delta sample_raw = 0"
  by code_simp+

definition empty_segment :: Segment where
  "empty_segment = \<lparr>sg_baseOffset = 0, sg_logFile = Some [],
     sg_index = Some \<lparr>ix_baseOffset = 0, ix_interval = 100, ix_file = [], ix_entries = [], ix_writtenSize = 0\<rparr>,
     sg_nextOffset = 0, sg_size = 0, sg_maxSegmentBytes = 1000, sg_indexInterval = 100, sg_remote = False,
     sg_remoteStub = None, sg_syncedOffset = 0, sg_syncedBytes = 0, sg_lastSyncMs = 0\<rparr>"

lemma empty_segment_ok: "seg_ok empty_segment []"
  by (simp add: seg_ok_def empty_segment_def log_small_def index_ok_def index_stored_def)

theorem segment_crash_recovery_witness:
  "(\<exists>s'. openSegment \<lparr>sf_log = Some (take 30 sample_raw), sf_index = Some [], sf_remote = None\<rparr> 0 1000 100 = Inr s'
      \<and> seg_ok s' [] \<and> sg_nextOffset s' = 0)
   \<and> openSegment \<lparr>sf_log = Some (take 5 sample_raw), sf_index = Some [], sf_remote = None\<rparr> 0 1000 100 = Inl RecoverRead"
  using segment_crash_recovery [OF empty_segment_ok _ sample_raw_wf(1), of _ 30]
    segment_crash_recovery [OF empty_segment_ok _ sample_raw_wf(1), of _ 5]
  by (simp add: empty_segment_def sample_raw_wf(3))

subsection \<open>Batches that lie about their length\<close>

text \<open>
  The append path never compares the length field of a batch with its size.  A batch
  whose length field exceeds what is there is stored and acknowledged, and from then on a
  reopened segment loses it together with everything appended after it, for as long as
  the field reaches beyond the end of the log: recovery takes it for a torn write.
\<close>

theorem overlong_batch_loses_log:
  assumes "seg_ok s bs" and "sg_index s = Some idx"
    and "61 \<le> length raw" and "raw ! 16 = 2" and "0 \<le> batch_delta raw"
    and "sg_nextOffset s + batch_delta raw + 1 - sg_baseOffset s < 2 ^ 31"
    and "int (length raw + length later) < 12 + batch_length_field raw"
  shows "(\<exists>s'. seg_append s raw = Inr (sg_nextOffset s, set_base (sg_nextOffset s) raw, s'))
    \<and> (\<exists>s''. openSegment \<lparr>sf_log = Some (concat bs @ set_base (sg_nextOffset s) raw @ later),
                sf_index = Some (ix_file idx), sf_remote = None\<rparr>
              (sg_baseOffset s) (sg_maxSegmentBytes s) (sg_indexInterval s) = Inr s''
         \<and> seg_ok s'' bs)"
proof
  let ?base = "sg_baseOffset s" and ?n = "sg_nextOffset s"
  from assms(1,2) have s: "log_small ?base bs" "index_ok idx ?base bs" "ix_interval idx = sg_indexInterval s"
    "?n = log_end ?base bs" "sg_logFile s = Some (concat bs)"
    by (auto simp: seg_ok_def)
  have range: "0 \<le> ?base" "?base \<le> ?n" "?base < 2 ^ 62"
    using s(1,4) log_end_ge [of ?base bs] by (simp_all add: log_small_def)
  have "ParseRecordBatchHeader raw = Inr \<lparr>bh_BaseOffset = Uint64 (slice 0 8 raw), bh_Length = Uint32 (slice 8 12 raw),
      bh_LastOffsetDelta = Uint32 (slice 23 27 raw), bh_Count = Uint32 (slice 57 61 raw)\<rparr>"
    using assms(3,4) by (simp add: ParseRecordBatchHeader_def batchHeaderSize_def)
  moreover have "s64 (?n + batch_delta raw + 1) = ?n + batch_delta raw + 1"
    "s64 (?n + batch_delta raw + 1 - ?base) = ?n + batch_delta raw + 1 - ?base"
    using assms(5,6) range by (subst s64_small; simp)+
  ultimately show "\<exists>s'. seg_append s raw = Inr (?n, set_base ?n raw, s')"
    using assms(2,6) s(5) unfolding seg_append_def batch_delta_def by (simp add: Let_def set_base_def)
  have "torn_tail (set_base ?n raw @ later)"
    using assms(3,7) set_base_fields(1,3) [OF assms(3), of ?n]
    by (simp add: torn_tail_def batch_length_field_def)
  then show "\<exists>s''. openSegment \<lparr>sf_log = Some (concat bs @ set_base ?n raw @ later),
                sf_index = Some (ix_file idx), sf_remote = None\<rparr>
              ?base (sg_maxSegmentBytes s) (sg_indexInterval s) = Inr s'' \<and> seg_ok s'' bs"
    using openSegment_batches [OF s(1) disjI2 s(2,3), of "set_base ?n raw @ later"] by blast
qed

definition lying_raw :: bytes where
  "lying_raw = replicate 8 0 @ [0, 0, 0, 200] @ replicate 4 0 @ [2] @ replicate 44 0"

theorem overlong_batch_loses_log_witness:
  "(\<exists>s'. seg_append empty_segment lying_raw = Inr (0, lying_raw, s'))
    \<and> (\<exists>s''. openSegment \<lparr>sf_log = Some (lying_raw @ set_base 1 sample_raw), sf_index = Some [], sf_remote = None\<rparr>
          0 1000 100 = Inr s'' \<and> seg_ok s'' [])"
proof -
  have l: "61 \<le> length lying_raw" "lying_raw ! 16 = 2" "0 \<le> batch_delta lying_raw"
    "batch_delta lying_raw = 0" "batch_length_field lying_raw = 200" "set_base 0 lying_raw = lying_raw"
    "length lying_raw = 61"
    by code_simp+
  have "length (set_base 1 sample_raw) = 61" using set_base_fields(1) [of sample_raw 1] sample_raw_wf(3) by simp
  then show ?thesis
    using overlong_batch_loses_log [OF empty_segment_ok _ l(1,2,3), of _ "set_base 1 sample_raw"] l
    by (simp add: empty_segment_def)
qed

subsection \<open>Reading below the start of a segment\<close>

lemma uint_word_of_int_negative:
  "x < 0 \<Longrightarrow> - (2 ^ 31) \<le> x \<Longrightarrow> uint (word_of_int x :: 32 word) = 2 ^ 32 + x"
proof -
  assume x: "x < 0" "- (2 ^ 31) \<le> x"
  have "x mod 2 ^ 32 = (2 ^ 32 + x) mod 2 ^ 32" by simp
  also have "\<dots> = 2 ^ 32 + x" using x by (intro mod_pos_pos_trivial) simp_all
  finally show ?thesis by (simp add: uint_word_of_int)
qed

text \<open>
  A read that starts below the base offset of the segment (a consumer behind the
  retention point) is answered from the last index entry: the conversion of the negative
  relative offset to 32 unsigned bits makes it larger than every entry, so all batches in
  front of that entry are skipped although they are on disk, without any error.
\<close>

theorem read_below_start_skips:
  assumes "seg_ok s bs" and "sg_index s = Some idx" and "ix_entries idx \<noteq> []" and "0 < maxBytes"
    and "offset < sg_baseOffset s" and "sg_baseOffset s - 2 ^ 31 \<le> offset"
  shows "\<exists>xs ys. bs = xs @ ys \<and> length (concat xs) = unat (position (last (ix_entries idx)))
    \<and> seg_read s offset maxBytes = Inr (concat (take_bytes maxBytes ys))"
proof -
  let ?base = "sg_baseOffset s"
  from assms(1,2) have s: "log_small ?base bs" "index_ok idx ?base bs"
    "sg_logFile s = Some (concat bs)" "sg_size s = length (concat bs)"
    by (auto simp: seg_ok_def)
  let ?es = "ix_entries idx"
  define rel :: uint32 where "rel = word_of_int (offset - ix_baseOffset idx)"
  have rel: "uint rel = 2 ^ 32 + (offset - ?base)"
    using s(2) assms(5,6) uint_word_of_int_negative [of "offset - ?base"]
    unfolding rel_def index_ok_def by auto
  have "relativeOffset e \<le> rel" if "e \<in> set ?es" for e
    using that s entry_ok_bound [of ?base bs e] rel assms(6) by (auto simp: index_ok_def log_small_def word_le_def)
  then have "filter (\<lambda>e. relativeOffset e \<le> rel) ?es = ?es" by (simp add: filter_id_conv)
  then have pos: "positionForOffset idx offset = unat (position (last ?es))"
    using s(2) positionForOffset_spec [of idx offset] assms(3)
    unfolding lookup_spec_def rel_def [symmetric] index_ok_def Let_def by auto
  have "last ?es \<in> set ?es" using assms(3) by simp
  with s(2) obtain xs ys where split: "bs = xs @ ys" "unat (position (last ?es)) = length (concat xs)"
    by (auto simp: index_ok_def entry_ok_def)
  have xs: "log_ok ?base xs" and ys: "log_ok (log_end ?base xs) ys"
    using s(1) split(1) by (simp_all add: log_small_def log_ok_append)
  have "offset \<le> batch_last b" if "b \<in> set ys" for b
    using log_ok_members [OF ys that] log_end_ge [OF xs] batch_last_ge [of b] assms(5) by linarith
  then have all: "filter (\<lambda>b. offset \<le> batch_last b) ys = ys" by (simp add: filter_id_conv)
  have "seg_read s offset maxBytes
      = read_loop (concat xs @ concat ys) (length (concat xs @ concat ys)) offset maxBytes (length (concat xs)) []"
    using assms(2,4) s split pos by (simp add: seg_read_def obytes_def)
  also have "\<dots> = Inr ([] @ concat (take_bytes (maxBytes - int (length ([] :: bytes)))
      (filter (\<lambda>b. offset \<le> batch_last b) ys)))"
    using s(1) split(1) log_small_end [OF s(1)] log_end_ge [OF xs]
    by (intro read_loop_batches [OF ys]) (simp_all add: log_small_def log_end_append)
  finally have "seg_read s offset maxBytes = Inr (concat (take_bytes maxBytes ys))" by (simp add: all)
  with split show ?thesis by metis
qed

definition two_batches :: Segment where
  "two_batches = \<lparr>sg_baseOffset = 10, sg_logFile = Some (set_base 10 sample_raw @ set_base 11 sample_raw),
     sg_index = Some \<lparr>ix_baseOffset = 10, ix_interval = 1, ix_file = [0, 0, 0, 1, 0, 0, 0, 61],
        ix_entries = [\<lparr>relativeOffset = 1, position = 61\<rparr>], ix_writtenSize = 8\<rparr>,
     sg_nextOffset = 12, sg_size = 122, sg_maxSegmentBytes = 1000, sg_indexInterval = 1, sg_remote = False,
     sg_remoteStub = None, sg_syncedOffset = 12, sg_syncedBytes = 122, sg_lastSyncMs = 0\<rparr>"

lemma two_batches_ok: "seg_ok two_batches [set_base 10 sample_raw, set_base 11 sample_raw]"
proof -
  let ?a = "set_base 10 sample_raw" and ?b = "set_base 11 sample_raw"
  have l: "length ?a = 61" "length ?b = 61" by code_simp+
  have e: "log_end 10 [?a] = 11" by code_simp
  have log: "log_ok 10 [?a, ?b]" "log_end 10 [?a, ?b] = 12" by code_simp+
  have "entry_ok 10 [?a, ?b] \<lparr>relativeOffset = 1, position = 61\<rparr>"
    unfolding entry_ok_def by (rule exI [of _ "[?a]"], rule exI [of _ "[?b]"]) (use l e in simp)
  moreover have "index_stored \<lparr>ix_baseOffset = 10, ix_interval = 1, ix_file = [0, 0, 0, 1, 0, 0, 0, 61],
        ix_entries = [\<lparr>relativeOffset = 1, position = 61\<rparr>], ix_writtenSize = 8\<rparr>"
    by code_simp
  ultimately show ?thesis
    using l log by (simp add: seg_ok_def two_batches_def index_ok_def log_small_def del: log_ok.simps log_end.simps)
qed

theorem read_below_start_skips_witness:
  "seg_read two_batches 5 1000 = Inr (set_base 11 sample_raw)"
proof -
  let ?a = "set_base 10 sample_raw" and ?b = "set_base 11 sample_raw"
  have l: "length ?a = 61" "length ?b = 61" by code_simp+
  have "\<exists>xs ys. [?a, ?b] = xs @ ys \<and> length (concat xs) = 61
      \<and> seg_read two_batches 5 1000 = Inr (concat (take_bytes 1000 ys))"
    using read_below_start_skips [OF two_batches_ok, of _ 1000 5] by (simp add: two_batches_def)
  then obtain xs ys where split: "[?a, ?b] = xs @ ys" "length (concat xs) = 61"
    "seg_read two_batches 5 1000 = Inr (concat (take_bytes 1000 ys))" by blast
  then have "xs = [?a]" and "ys = [?b]" using l by (auto simp: Cons_eq_append_conv)
  with split(3) show ?thesis by simp
qed

end
