(* ===== verification/Log_Partition.thy ===== *)
theory Log_Partition
  imports Segment_Refine
begin

text \<open>
  A partition (\<^verbatim>\<open>src/internal/storage/partition.go\<close>): closed segments in offset order and one
  active segment that takes the appends.  An operation that can fail after it has changed
  the partition returns the result together with the partition as it leaves it.  The object
  store of tiered storage is the parameter \<open>fetch\<close>.  Two handles on one file do not occur:
  \<open>roll\<close> opens the files of an offset that no segment of the partition has.
\<close>

subsection \<open>State\<close>

record ProducerSequenceState =
  LastSequence :: int32
  LastOffset :: int
  LastEpoch :: int16

type_synonym tracker = "(int64 \<times> ProducerSequenceState) list"

record Partition =
  p_closedSegments :: "Segment list"
  p_activeSegment :: Segment
  p_nextOffset :: int
  p_highWatermark :: int
  p_maxSegmentBytes :: int
  p_indexInterval :: int
  p_idempotence :: tracker
  p_compacting :: bool
  p_lastCompactMs :: int
  p_bytesAtCompact :: int

definition orderedSegments :: "Partition \<Rightarrow> Segment list" where
  "orderedSegments p = p_closedSegments p @ [p_activeSegment p]"

subsection \<open>Opening\<close>

text \<open>The directory of a partition: the files of each base offset that occurs in a file name.\<close>

type_synonym part_dir = "(int \<times> SegFiles) list"

fun open_all :: "part_dir \<Rightarrow> int \<Rightarrow> int \<Rightarrow> int list \<Rightarrow> Segment list res" where
  "open_all dir m i [] = Inr []"
| "open_all dir m i (b # bases) =
     res_bind (openSegment (case map_of dir b of Some f \<Rightarrow> f | None \<Rightarrow> no_files) b m i) (\<lambda>s.
     res_bind (open_all dir m i bases) (\<lambda>ss. Inr (s # ss)))"

definition has_segment_file :: "SegFiles \<Rightarrow> bool" where
  "has_segment_file f \<longleftrightarrow> sf_log f \<noteq> None \<or> sf_remote f \<noteq> None"

definition dir_bases :: "part_dir \<Rightarrow> int list" where
  "dir_bases dir = remdups (sort (map fst (filter (\<lambda>(_, f). has_segment_file f) dir)))"

definition part_recover :: "part_dir \<Rightarrow> int \<Rightarrow> int \<Rightarrow> Partition res" where
  "part_recover dir m i =
     res_bind (open_all dir m i (dir_bases dir)) (\<lambda>segs.
     res_bind (if segs \<noteq> [] then Inr (butlast segs, last segs)
               else res_bind (openSegment (case map_of dir 0 of Some f \<Rightarrow> f | None \<Rightarrow> no_files) 0 m i)
                      (\<lambda>s. Inr ([], s)))
       (\<lambda>(closed, active).
         Inr \<lparr>p_closedSegments = closed, p_activeSegment = active, p_nextOffset = sg_nextOffset active,
              p_highWatermark = sg_nextOffset active, p_maxSegmentBytes = m, p_indexInterval = i,
              p_idempotence = [], p_compacting = False, p_lastCompactMs = 0, p_bytesAtCompact = 0\<rparr>))"

definition part_files :: "Partition \<Rightarrow> part_dir" where
  "part_files p = map (\<lambda>s. (sg_baseOffset s, files_of s)) (orderedSegments p)"

subsection \<open>Append\<close>

definition part_roll :: "Partition \<Rightarrow> unit res \<times> Partition" where
  "part_roll p =
     (let p1 = p\<lparr>p_closedSegments := p_closedSegments p @ [p_activeSegment p]\<rparr>
      in case openSegment (case map_of (part_files p) (p_nextOffset p) of Some f \<Rightarrow> f | None \<Rightarrow> no_files)
                (p_nextOffset p) (p_maxSegmentBytes p) (p_indexInterval p) of
           Inl e \<Rightarrow> (Inl e, p1)
         | Inr seg \<Rightarrow> (Inr (), p1\<lparr>p_activeSegment := seg\<rparr>))"

definition part_Append :: "Partition \<Rightarrow> bytes \<Rightarrow> (int \<times> bytes) res \<times> Partition" where
  "part_Append p raw =
     (case (if seg_full (p_activeSegment p) then part_roll p else (Inr (), p)) of
        (Inl e, p1) \<Rightarrow> (Inl e, p1)
      | (Inr _, p1) \<Rightarrow>
          (case seg_append (p_activeSegment p1) raw of
             Inl e \<Rightarrow> (Inl e, p1)
           | Inr (assigned, raw', seg) \<Rightarrow>
               (Inr (assigned, raw'),
                p1\<lparr>p_activeSegment := seg, p_nextOffset := sg_nextOffset seg,
                   p_highWatermark := sg_nextOffset seg\<rparr>)))"

definition part_Sync :: "int \<Rightarrow> Partition \<Rightarrow> Partition" where
  "part_Sync now p =
     (if sg_syncedBytes (p_activeSegment p) = sg_size (p_activeSegment p) then p
      else p\<lparr>p_activeSegment := seg_sync now (p_activeSegment p)\<rparr>)"

definition AppendSynced :: "int \<Rightarrow> Partition \<Rightarrow> bytes \<Rightarrow> bool \<Rightarrow> (int \<times> bytes) res \<times> Partition" where
  "AppendSynced now p raw sync =
     (case part_Append p raw of
        (Inl e, p1) \<Rightarrow> (Inl e, p1)
      | (Inr r, p1) \<Rightarrow> (Inr r, if sync then part_Sync now p1 else p1))"

subsection \<open>Read\<close>

fun read_segments :: "Segment list \<Rightarrow> int \<Rightarrow> int \<Rightarrow> bytes \<Rightarrow> bytes res" where
  "read_segments [] start maxBytes out = Inr out"
| "read_segments (s # ss) start maxBytes out =
     (if s32 (int (length out)) \<ge> maxBytes then Inr out
      else if sg_remote s then Inl SegmentNotRestored
      else res_bind (seg_read s start (s32 (maxBytes - s32 (int (length out))))) (\<lambda>data.
             read_segments ss (sg_nextOffset s) maxBytes (out @ data)))"

definition readLocked :: "Partition \<Rightarrow> int \<Rightarrow> int \<Rightarrow> (bytes \<times> int) res" where
  "readLocked p start maxBytes =
     (let segs = dropWhile (\<lambda>s. \<not> start < sg_nextOffset s) (orderedSegments p)
      in res_bind (read_segments segs start maxBytes []) (\<lambda>out. Inr (out, p_highWatermark p)))"

definition restoreSegmentLocked :: "(gostring \<Rightarrow> bytes res) option \<Rightarrow> Segment \<Rightarrow> Segment res" where
  "restoreSegmentLocked fetch seg =
     (case fetch of
        None \<Rightarrow> Inl NoRemoteFetcher
      | Some get \<Rightarrow>
          res_bind (remoteKeys seg) (\<lambda>(logKey, indexKey).
          res_bind (get logKey) (\<lambda>logData.
          res_bind (get indexKey) (\<lambda>indexData.
          restoreFrom seg logData indexData))))"

fun restore_all :: "(gostring \<Rightarrow> bytes res) option \<Rightarrow> int \<Rightarrow> Segment list \<Rightarrow> unit res \<times> Segment list" where
  "restore_all fetch start [] = (Inr (), [])"
| "restore_all fetch start (s # ss) =
     (if start < sg_nextOffset s \<and> sg_remote s then
        (case restoreSegmentLocked fetch s of
           Inl e \<Rightarrow> (Inl e, s # ss)
         | Inr s' \<Rightarrow> (case restore_all fetch start ss of (r, ss') \<Rightarrow> (r, s' # ss')))
      else (case restore_all fetch start ss of (r, ss') \<Rightarrow> (r, s # ss')))"

definition part_Read ::
  "(gostring \<Rightarrow> bytes res) option \<Rightarrow> Partition \<Rightarrow> int \<Rightarrow> int \<Rightarrow> (bytes \<times> int) res \<times> Partition" where
  "part_Read fetch p startOffset maxBytes =
     (let start = (if startOffset < 0 then 0 else startOffset)
      in if start \<ge> p_highWatermark p then (Inr ([], p_highWatermark p), p)
         else if \<exists>s \<in> set (orderedSegments p). start < sg_nextOffset s \<and> sg_remote s then
           (case restore_all fetch start (orderedSegments p) of
              (r, segs) \<Rightarrow>
                let p1 = p\<lparr>p_closedSegments := butlast segs, p_activeSegment := last segs\<rparr>
                in case r of Inl e \<Rightarrow> (Inl e, p1) | Inr _ \<Rightarrow> (readLocked p1 start maxBytes, p1))
         else (readLocked p start maxBytes, p))"

subsection \<open>Offsets, sizes and truncation\<close>

definition earliestOffset :: "Partition \<Rightarrow> int" where
  "earliestOffset p =
     (case p_closedSegments p of s # _ \<Rightarrow> sg_baseOffset s | [] \<Rightarrow> sg_baseOffset (p_activeSegment p))"

definition GetOffset :: "Partition \<Rightarrow> int \<Rightarrow> int" where
  "GetOffset p target =
     (if target = -1 then p_highWatermark p else if target = -2 then earliestOffset p else -1)"

definition totalSize :: "Partition \<Rightarrow> nat" where
  "totalSize p = sum_list (map sg_size (p_closedSegments p)) + sg_size (p_activeSegment p)"

definition Durability :: "Partition \<Rightarrow> int \<times> int \<times> int" where
  "Durability p =
     (let a = p_activeSegment p; risk = int (sg_size a) - int (sg_syncedBytes a)
      in (sg_syncedOffset a, if risk < 0 then 0 else risk, sg_lastSyncMs a))"

definition CompactionDebt :: "Partition \<Rightarrow> int \<times> int" where
  "CompactionDebt p =
     (let base = (if p_lastCompactMs p > 0 then p_bytesAtCompact p else 0);
          debt = int (totalSize p) - base
      in (if debt > 0 then debt else 0, p_lastCompactMs p))"

definition part_TruncateTo :: "Partition \<Rightarrow> int \<Rightarrow> unit res \<times> Partition" where
  "part_TruncateTo p target0 =
     (let target = (if target0 \<le> 0 then 0 else target0)
      in if target \<ge> p_nextOffset p then (Inr (), p)
         else
           let kept = filter (\<lambda>s. \<not> sg_baseOffset s \<ge> target) (p_closedSegments p);
               r = (if sg_baseOffset (p_activeSegment p) \<ge> target
                    then if kept \<noteq> [] then Inr (butlast kept, last kept)
                         else res_bind (openSegment no_files 0 (p_maxSegmentBytes p) (p_indexInterval p))
                                (\<lambda>s. Inr ([], s))
                    else Inr (kept, p_activeSegment p))
           in case r of
                Inl e \<Rightarrow> (Inl e, p\<lparr>p_closedSegments := kept\<rparr>)
              | Inr (closed, active) \<Rightarrow>
                  (let p1 = p\<lparr>p_closedSegments := closed, p_activeSegment := active\<rparr>
                   in case seg_truncateTo active target of
                        Inl e \<Rightarrow> (Inl e, p1)
                      | Inr seg \<Rightarrow>
                          (Inr (), p1\<lparr>p_activeSegment := seg, p_nextOffset := target, p_highWatermark := target\<rparr>)))"

end
