(* ===== verification/Partition_Refine.thy ===== *)
theory Partition_Refine
  imports Log_Partition
begin

text \<open>
  A partition stands for one list of record batches with consecutive offsets, spread
  over its segments.  Append adds to the end of that list, read is the same filter and
  byte budget as for one segment, and reopening the directory gives the list back.
\<close>

subsection \<open>The abstraction relation\<close>

definition chained :: "Segment list \<Rightarrow> bool" where
  "chained ss \<longleftrightarrow> successively (\<lambda>s t. sg_baseOffset t = sg_nextOffset s) ss"

definition part_ok :: "Partition \<Rightarrow> bytes list list \<Rightarrow> bool" where
  "part_ok p bss \<longleftrightarrow> list_all2 seg_ok (orderedSegments p) bss \<and> chained (orderedSegments p)
     \<and> (\<forall>bs \<in> set (butlast bss). bs \<noteq> [])
     \<and> (\<forall>s \<in> set (orderedSegments p). sg_maxSegmentBytes s = p_maxSegmentBytes p
          \<and> sg_indexInterval s = p_indexInterval p)
     \<and> p_nextOffset p = sg_nextOffset (p_activeSegment p) \<and> p_highWatermark p = p_nextOffset p"

text \<open>The batches of a partition and its first offset.\<close>

definition log_start :: "Partition \<Rightarrow> int" where
  "log_start p = sg_baseOffset (hd (orderedSegments p))"

lemma seg_ok_next: "seg_ok s bs \<Longrightarrow> sg_nextOffset s = log_end (sg_baseOffset s) bs"
  by (simp add: seg_ok_def)

lemma seg_ok_log: "seg_ok s bs \<Longrightarrow> log_ok (sg_baseOffset s) bs"
  by (simp add: seg_ok_def log_small_def)

lemma seg_ok_base_le: "seg_ok s bs \<Longrightarrow> sg_baseOffset s \<le> sg_nextOffset s"
  using log_end_ge [OF seg_ok_log] seg_ok_next by simp

lemma chained_Cons:
  "chained (s # ss) \<longleftrightarrow> (ss \<noteq> [] \<longrightarrow> sg_baseOffset (hd ss) = sg_nextOffset s) \<and> chained ss"
  by (cases ss) (auto simp: chained_def)

lemma chained_append:
  "chained (ss @ ts) \<longleftrightarrow> chained ss \<and> chained ts
     \<and> (ss \<noteq> [] \<longrightarrow> ts \<noteq> [] \<longrightarrow> sg_baseOffset (hd ts) = sg_nextOffset (last ss))"
  by (auto simp: chained_def successively_append_iff)

lemma chained_single [simp]: "chained [s]"
  by (simp add: chained_def)

lemma chain_log:
  assumes "list_all2 seg_ok ss bss" and "chained ss" and "ss \<noteq> []"
  shows "log_ok (sg_baseOffset (hd ss)) (concat bss)
    \<and> log_end (sg_baseOffset (hd ss)) (concat bss) = sg_nextOffset (last ss)"
  using assms
proof (induction ss bss rule: list_all2_induct)
  case (Cons s ss bs bss)
  show ?case
  proof (cases "ss = []")
    case True
    with Cons show ?thesis by (simp add: seg_ok_log seg_ok_next)
  next
    case False
    with Cons show ?thesis
      by (simp add: chained_Cons log_ok_append log_end_append seg_ok_log seg_ok_next [symmetric])
  qed
qed simp

lemma orderedSegments_not_Nil [simp]: "orderedSegments p \<noteq> []"
  by (simp add: orderedSegments_def)

lemma last_orderedSegments [simp]: "last (orderedSegments p) = p_activeSegment p"
  by (simp add: orderedSegments_def)

lemma part_ok_log:
  assumes "part_ok p bss"
  shows "log_ok (log_start p) (concat bss)" "p_nextOffset p = log_end (log_start p) (concat bss)"
  using assms chain_log [of "orderedSegments p" bss] by (simp_all add: part_ok_def log_start_def)

lemma part_ok_active:
  assumes "part_ok p bss"
  obtains bss' bs where "bss = bss' @ [bs]" "list_all2 seg_ok (p_closedSegments p) bss'"
    "seg_ok (p_activeSegment p) bs" "\<forall>bs \<in> set bss'. bs \<noteq> []"
proof -
  from assms have l: "list_all2 seg_ok (p_closedSegments p @ [p_activeSegment p]) bss"
    by (simp add: part_ok_def orderedSegments_def)
  then obtain bss' bs where b: "bss = bss' @ [bs]" by (cases bss rule: rev_cases) auto
  with l have "list_all2 seg_ok (p_closedSegments p) bss'" "seg_ok (p_activeSegment p) bs"
    by (simp_all add: list_all2_append2 list_all2_Cons2) (auto simp: append_eq_append_conv2 Cons_eq_append_conv)
  with b assms show ?thesis by (intro that) (auto simp: part_ok_def)
qed

subsection \<open>Append\<close>

lemma chain_next_le:
  assumes "list_all2 seg_ok ss bss" and "chained ss"
  shows "\<forall>s \<in> set ss. sg_nextOffset s \<le> sg_nextOffset (last ss)"
  using assms
proof (induction ss bss rule: list_all2_induct)
  case (Cons t ss bs bss)
  show ?case
  proof (cases "ss = []")
    case False
    have "sg_nextOffset t = sg_baseOffset (hd ss)" using Cons.prems(1) False by (simp add: chained_Cons)
    also have "\<dots> \<le> sg_nextOffset (hd ss)"
      using Cons(2) False by (cases ss; cases bss) (auto dest: seg_ok_base_le)
    finally have "sg_nextOffset t \<le> sg_nextOffset (hd ss)" .
    moreover have "\<forall>s \<in> set ss. sg_nextOffset s \<le> sg_nextOffset (last ss)"
      using Cons.IH Cons.prems by (simp add: chained_Cons)
    moreover have "hd ss \<in> set ss" using False by simp
    ultimately show ?thesis using False by (auto intro: order_trans)
  qed (use Cons in simp)
qed simp

lemma seg_ok_nonempty: "seg_ok s bs \<Longrightarrow> bs \<noteq> [] \<Longrightarrow> sg_baseOffset s < sg_nextOffset s"
  using log_end_grows [OF seg_ok_log] seg_ok_next by simp

lemma seg_ok_size: "seg_ok s bs \<Longrightarrow> sg_size s = 0 \<longleftrightarrow> bs = []"
proof -
  assume s: "seg_ok s bs"
  have "concat bs \<noteq> []" if "bs \<noteq> []"
  proof -
    from that obtain b bs' where "bs = b # bs'" by (cases bs) auto
    moreover have "wf_batch b" using seg_ok_log [OF s] calculation by simp
    ultimately show ?thesis using wf_batch_long [of b] by auto
  qed
  with s show ?thesis by (auto simp: seg_ok_def)
qed

lemma bases_below_next:
  assumes ok: "part_ok p bss" and size: "sg_size (p_activeSegment p) > 0" and s: "s \<in> set (orderedSegments p)"
  shows "sg_baseOffset s < p_nextOffset p"
proof -
  from ok obtain bss' bs where b: "bss = bss' @ [bs]" "list_all2 seg_ok (p_closedSegments p) bss'"
    "seg_ok (p_activeSegment p) bs" "\<forall>bs \<in> set bss'. bs \<noteq> []"
    by (rule part_ok_active)
  have "sg_baseOffset s < sg_nextOffset s"
  proof (cases "s = p_activeSegment p")
    case True
    with b(3) size seg_ok_size [OF b(3)] show ?thesis by (auto intro: seg_ok_nonempty)
  next
    case False
    with s have "s \<in> set (p_closedSegments p)" by (simp add: orderedSegments_def)
    with b(2) obtain cs where "cs \<in> set bss'" "seg_ok s cs"
      by (metis in_set_conv_nth list_all2_conv_all_nth)
    with b(4) show ?thesis by (auto intro: seg_ok_nonempty)
  qed
  also have "\<dots> \<le> p_nextOffset p"
    using ok s chain_next_le [of "orderedSegments p" bss] by (simp add: part_ok_def)
  finally show ?thesis .
qed

lemma part_roll_ok:
  assumes ok: "part_ok p bss" and full: "seg_full (p_activeSegment p)" and m: "0 < p_maxSegmentBytes p"
    and range: "p_nextOffset p < 2 ^ 62"
  shows "\<exists>p'. part_roll p = (Inr (), p') \<and> part_ok p' (bss @ [[]])
    \<and> p_nextOffset p' = p_nextOffset p \<and> sg_baseOffset (p_activeSegment p') = p_nextOffset p
    \<and> log_start p' = log_start p \<and> p_maxSegmentBytes p' = p_maxSegmentBytes p
    \<and> p_idempotence p' = p_idempotence p"
proof -
  let ?a = "p_activeSegment p" and ?n = "p_nextOffset p"
  from ok obtain bss' bs where b: "bss = bss' @ [bs]" "list_all2 seg_ok (p_closedSegments p) bss'"
    "seg_ok ?a bs" "\<forall>bs \<in> set bss'. bs \<noteq> []"
    by (rule part_ok_active)
  have a: "sg_maxSegmentBytes ?a = p_maxSegmentBytes p" "?n = sg_nextOffset ?a" "chained (orderedSegments p)"
    using ok by (simp_all add: part_ok_def orderedSegments_def)
  have size: "sg_size ?a > 0" using full m a(1) by (simp add: seg_full_def)
  then have bs: "bs \<noteq> []" using seg_ok_size [OF b(3)] by simp
  have "?n \<notin> fst ` set (part_files p)"
    using bases_below_next [OF ok size] by (fastforce simp: part_files_def)
  then have none: "map_of (part_files p) ?n = None" by (simp add: map_of_eq_None_iff)
  have "0 \<le> ?n" using a(2) b(3) seg_ok_base_le [OF b(3)] by (simp add: seg_ok_def log_small_def)
  from openSegment_fresh [OF this range] obtain seg where
    seg: "openSegment no_files ?n (p_maxSegmentBytes p) (p_indexInterval p) = Inr seg"
    "seg_ok seg []" "sg_baseOffset seg = ?n" "sg_maxSegmentBytes seg = p_maxSegmentBytes p"
    "sg_indexInterval seg = p_indexInterval p"
    by blast
  define p' where "p' = p\<lparr>p_closedSegments := p_closedSegments p @ [?a], p_activeSegment := seg\<rparr>"
  have "part_roll p = (Inr (), p')" using none seg(1) by (simp add: part_roll_def p'_def)
  moreover have segs: "orderedSegments p' = orderedSegments p @ [seg]"
    by (simp add: orderedSegments_def p'_def)
  moreover have "part_ok p' (bss @ [[]])"
  proof -
    have "list_all2 seg_ok (orderedSegments p @ [seg]) (bss @ [[]])"
      using ok seg(2) by (intro list_all2_appendI) (simp_all add: part_ok_def)
    moreover have "chained (orderedSegments p @ [seg])"
      using a seg(3) by (simp add: chained_append)
    moreover have "\<forall>cs \<in> set (butlast (bss @ [[]])). cs \<noteq> []" using b bs by (simp add: butlast_append)
    moreover have "sg_nextOffset seg = ?n" using seg_ok_next [OF seg(2)] seg(3) by simp
    ultimately show ?thesis
      using ok segs seg(4,5) unfolding part_ok_def segs by (simp add: p'_def)
  qed
  moreover have "log_start p' = log_start p" unfolding log_start_def segs by simp
  ultimately show ?thesis using seg(3) by (simp add: p'_def)
qed

lemma seg_append_keeps:
  "seg_append s raw = Inr (n, raw', s') \<Longrightarrow>
     sg_maxSegmentBytes s' = sg_maxSegmentBytes s \<and> sg_indexInterval s' = sg_indexInterval s"
  by (auto simp: seg_append_def Let_def res_bind_def split: sum.splits if_splits option.splits)

text \<open>A batch the active segment (or the one opened in its place) has room for.\<close>

definition fits :: "Partition \<Rightarrow> bytes \<Rightarrow> bool" where
  "fits p raw \<longleftrightarrow> wf_batch raw \<and> raw ! 16 = 2 \<and> p_nextOffset p < 2 ^ 62
     \<and> p_maxSegmentBytes p + int (length raw) < 2 ^ 31
     \<and> (if seg_full (p_activeSegment p) then batch_delta raw + 1 < 2 ^ 31
        else p_nextOffset p + batch_delta raw + 1 - sg_baseOffset (p_activeSegment p) < 2 ^ 31)"

lemma append_active:
  assumes ok: "part_ok p bss" and raw: "wf_batch raw" "raw ! 16 = 2"
    and room: "p_nextOffset p + batch_delta raw + 1 - sg_baseOffset (p_activeSegment p) < 2 ^ 31"
    "sg_size (p_activeSegment p) + length raw < 2 ^ 31"
    and notfull: "\<not> seg_full (p_activeSegment p)"
  shows "\<exists>p' bss'. part_Append p raw = (Inr (p_nextOffset p, set_base (p_nextOffset p) raw), p')
    \<and> part_ok p' bss' \<and> concat bss' = concat bss @ [set_base (p_nextOffset p) raw]
    \<and> p_nextOffset p' = p_nextOffset p + batch_delta raw + 1 \<and> log_start p' = log_start p
    \<and> p_maxSegmentBytes p' = p_maxSegmentBytes p \<and> p_idempotence p' = p_idempotence p"
proof -
  let ?a = "p_activeSegment p" and ?n = "p_nextOffset p" and ?b = "set_base (p_nextOffset p) raw"
  from ok obtain bss' bs where b: "bss = bss' @ [bs]" "list_all2 seg_ok (p_closedSegments p) bss'"
    "seg_ok ?a bs" "\<forall>bs \<in> set bss'. bs \<noteq> []"
    by (rule part_ok_active)
  have n: "?n = sg_nextOffset ?a" using ok by (simp add: part_ok_def)
  from segment_append [OF b(3) raw] room n obtain a' where
    a': "seg_append ?a raw = Inr (?n, ?b, a')" "seg_ok a' (bs @ [?b])"
    "sg_nextOffset a' = ?n + batch_delta raw + 1" "sg_baseOffset a' = sg_baseOffset ?a"
    by auto
  define p' where "p' = p\<lparr>p_activeSegment := a', p_nextOffset := sg_nextOffset a', p_highWatermark := sg_nextOffset a'\<rparr>"
  have "part_Append p raw = (Inr (?n, ?b), p')"
    using notfull a'(1) by (simp add: part_Append_def p'_def)
  moreover have segs: "orderedSegments p' = p_closedSegments p @ [a']"
    by (simp add: orderedSegments_def p'_def)
  moreover have "part_ok p' (bss' @ [bs @ [?b]])"
  proof -
    have "list_all2 seg_ok (p_closedSegments p @ [a']) (bss' @ [bs @ [?b]])"
      using b a' by (intro list_all2_appendI) simp_all
    moreover have "chained (p_closedSegments p @ [a'])"
      using ok a'(4) by (simp add: part_ok_def orderedSegments_def chained_append)
    moreover have "\<forall>s \<in> set (p_closedSegments p @ [a']). sg_maxSegmentBytes s = p_maxSegmentBytes p
          \<and> sg_indexInterval s = p_indexInterval p"
      using ok seg_append_keeps [OF a'(1)] by (auto simp: part_ok_def orderedSegments_def)
    ultimately show ?thesis
      using b unfolding part_ok_def segs by (simp add: p'_def)
  qed
  moreover have "log_start p' = log_start p"
    unfolding log_start_def segs using a'(4) by (cases "p_closedSegments p") (simp_all add: orderedSegments_def)
  ultimately show ?thesis using b(1) a'(3) by (intro exI [of _ p'] exI [of _ "bss' @ [bs @ [?b]]"]) (simp add: p'_def)
qed

lemma partition_append_ok:
  assumes ok: "part_ok p bss" and m: "0 < p_maxSegmentBytes p" and fits: "fits p raw"
  shows "\<exists>p' bss'. part_Append p raw = (Inr (p_nextOffset p, set_base (p_nextOffset p) raw), p')
    \<and> part_ok p' bss' \<and> concat bss' = concat bss @ [set_base (p_nextOffset p) raw]
    \<and> p_nextOffset p' = p_nextOffset p + batch_delta raw + 1 \<and> log_start p' = log_start p
    \<and> p_maxSegmentBytes p' = p_maxSegmentBytes p \<and> p_idempotence p' = p_idempotence p"
proof (cases "seg_full (p_activeSegment p)")
  case False
  have "sg_maxSegmentBytes (p_activeSegment p) = p_maxSegmentBytes p"
    using ok by (simp add: part_ok_def orderedSegments_def)
  with False fits show ?thesis
    by (intro append_active [OF ok]) (auto simp: fits_def seg_full_def)
next
  case True
  from part_roll_ok [OF ok True m] fits obtain p1 where
    p1: "part_roll p = (Inr (), p1)" "part_ok p1 (bss @ [[]])" "p_nextOffset p1 = p_nextOffset p"
    "sg_baseOffset (p_activeSegment p1) = p_nextOffset p" "log_start p1 = log_start p"
    "p_maxSegmentBytes p1 = p_maxSegmentBytes p" "p_idempotence p1 = p_idempotence p"
    by (auto simp: fits_def)
  from p1(2) obtain bss' bs where "bss @ [[]] = bss' @ [bs]" "seg_ok (p_activeSegment p1) bs"
    by (rule part_ok_active)
  then have a1: "sg_maxSegmentBytes (p_activeSegment p1) = p_maxSegmentBytes p" "seg_ok (p_activeSegment p1) []"
    using p1 by (simp_all add: part_ok_def orderedSegments_def)
  then have size: "sg_size (p_activeSegment p1) = 0" using seg_ok_size by blast
  then have notfull: "\<not> seg_full (p_activeSegment p1)" using a1 m by (simp add: seg_full_def)
  have "part_Append p raw = part_Append p1 raw"
    using True p1(1) notfull by (simp add: part_Append_def)
  moreover have "\<exists>p' bss'. part_Append p1 raw = (Inr (p_nextOffset p1, set_base (p_nextOffset p1) raw), p')
    \<and> part_ok p' bss' \<and> concat bss' = concat (bss @ [[]]) @ [set_base (p_nextOffset p1) raw]
    \<and> p_nextOffset p' = p_nextOffset p1 + batch_delta raw + 1 \<and> log_start p' = log_start p1
    \<and> p_maxSegmentBytes p' = p_maxSegmentBytes p1 \<and> p_idempotence p' = p_idempotence p1"
    using True fits p1 size m
    by (intro append_active [OF p1(2)] notfull) (auto simp: fits_def)
  ultimately show ?thesis using p1 by simp
qed

subsection \<open>Read\<close>

lemma take_bytes_append:
  "take_bytes m (xs @ ys) = take_bytes m xs @ take_bytes (m - int (length (concat (take_bytes m xs)))) ys"
  by (induction m xs rule: take_bytes.induct) (auto simp: take_bytes_nonpos algebra_simps)

lemma length_take_bytes:
  assumes "0 < m" and "\<forall>b \<in> set bs. int (length b) \<le> L" and "0 \<le> L"
  shows "int (length (concat (take_bytes m bs))) \<le> m - 1 + L"
  using assms
proof (induction m bs rule: take_bytes.induct)
  case (2 m b bs)
  show ?case
  proof (cases "0 < m - int (length b)")
    case True
    with 2 show ?thesis by simp
  next
    case False
    with 2 show ?thesis by (simp add: take_bytes_nonpos)
  qed
qed simp

lemma filter_all_after:
  assumes "list_all2 seg_ok ss bss" and "chained ss" and "ss \<noteq> [] \<longrightarrow> start \<le> sg_baseOffset (hd ss)"
  shows "filter (\<lambda>b. start \<le> batch_last b) (concat bss) = concat bss"
proof (cases "ss = []")
  case False
  then have "log_ok (sg_baseOffset (hd ss)) (concat bss)" using chain_log assms by blast
  from log_ok_members [OF this] have "start \<le> batch_last b" if "b \<in> set (concat bss)" for b
    using that assms(3) False batch_last_ge [of b] by fastforce
  then show ?thesis by (intro filter_True) blast
qed (use assms in simp)

lemma read_segments_ok:
  assumes "list_all2 seg_ok ss bss" and "chained ss"
    and "ss \<noteq> [] \<longrightarrow> sg_baseOffset (hd ss) \<le> start \<and> start \<le> sg_nextOffset (hd ss)"
    and "\<forall>b \<in> set (concat bss). int (length b) \<le> L" and "0 \<le> L" and "m + L < 2 ^ 31" and "0 < m"
    and "int (length out) \<le> m - 1 + L"
  shows "read_segments ss start m out
    = Inr (out @ concat (take_bytes (m - int (length out)) (filter (\<lambda>b. start \<le> batch_last b) (concat bss))))"
  using assms
proof (induction ss bss arbitrary: start out rule: list_all2_induct)
  case (Cons s ss bs bss)
  have s32_out: "s32 (int (length out)) = int (length out)"
    using Cons.prems by (intro s32_id) simp_all
  show ?case
  proof (cases "int (length out) < m")
    case False
    then show ?thesis using s32_out by (simp add: take_bytes_nonpos)
  next
    case True
    let ?k = "m - int (length out)"
    let ?data = "concat (take_bytes ?k (filter (\<lambda>b. start \<le> batch_last b) bs))"
    have s: "sg_baseOffset s \<le> start" "start \<le> sg_nextOffset s" "\<not> sg_remote s"
      "sg_nextOffset s - sg_baseOffset s < 2 ^ 31"
      using Cons.prems(2) Cons.hyps(1) by (auto simp: seg_ok_def log_small_def)
    have k: "s32 ?k = ?k"
      using Cons.prems True by (intro s32_id) simp_all
    have data: "seg_read s start ?k = Inr ?data"
      using s by (intro segment_read [OF Cons.hyps(1)]) simp_all
    have next_ok: "ss \<noteq> [] \<longrightarrow> sg_baseOffset (hd ss) = sg_nextOffset s" and ch: "chained ss"
      using Cons.prems(1) by (simp_all add: chained_Cons)
    have up: "ss \<noteq> [] \<longrightarrow> sg_nextOffset s \<le> sg_nextOffset (hd ss)"
      using Cons.hyps(2) next_ok by (cases ss; cases bss) (auto dest: seg_ok_base_le)
    have len: "int (length ?data) \<le> ?k - 1 + L"
      using Cons.prems True by (intro length_take_bytes) auto
    have rest: "filter (\<lambda>b. sg_nextOffset s \<le> batch_last b) (concat bss) = concat bss"
      "filter (\<lambda>b. start \<le> batch_last b) (concat bss) = concat bss"
      using next_ok s(2) by (auto intro!: filter_all_after [OF Cons.hyps(2) ch])
    have "read_segments ss (sg_nextOffset s) m (out @ ?data)
      = Inr ((out @ ?data) @ concat (take_bytes (m - int (length (out @ ?data)))
          (filter (\<lambda>b. sg_nextOffset s \<le> batch_last b) (concat bss))))"
      using Cons.prems len next_ok up by (intro Cons.IH ch) auto
    with True data k s s32_out rest show ?thesis
      by (simp add: take_bytes_append diff_diff_eq)
  qed
qed simp

text \<open>
  The contract of a partition read: the batches that reach the start offset, whole and in
  order, until the byte budget is used up.
\<close>

definition read_spec :: "bytes list \<Rightarrow> int \<Rightarrow> int \<Rightarrow> bytes" where
  "read_spec bs start maxBytes = concat (take_bytes maxBytes (filter (\<lambda>b. start \<le> batch_last b) bs))"

lemma readLocked_ok:
  assumes ok: "part_ok p bss" and start: "log_start p \<le> start" "start < p_nextOffset p"
    and small: "\<forall>b \<in> set (concat bss). maxBytes + int (length b) < 2 ^ 31" and m: "0 < maxBytes"
  shows "readLocked p start maxBytes = Inr (read_spec (concat bss) start maxBytes, p_highWatermark p)"
proof -
  define ss where "ss = orderedSegments p"
  define P where "P = (\<lambda>s :: Segment. \<not> start < sg_nextOffset s)"
  have all: "list_all2 seg_ok ss bss" and ch: "chained ss" and last_ss: "sg_nextOffset (last ss) = p_nextOffset p"
    using ok by (simp_all add: part_ok_def ss_def)
  have split: "ss = takeWhile P ss @ dropWhile P ss" by simp
  with all obtain bpre brest where bss: "bss = bpre @ brest" "list_all2 seg_ok (takeWhile P ss) bpre"
    "list_all2 seg_ok (dropWhile P ss) brest"
    by (metis list_all2_append1)
  have ne: "dropWhile P ss \<noteq> []"
  proof -
    have "last ss \<in> set ss" by (simp add: ss_def del: last_orderedSegments)
    moreover have "\<not> P (last ss)" using start(2) last_ss by (simp add: P_def)
    ultimately show ?thesis by (auto simp: dropWhile_eq_Nil_conv)
  qed
  have ch2: "chained (takeWhile P ss)" "chained (dropWhile P ss)"
    "takeWhile P ss \<noteq> [] \<longrightarrow> sg_baseOffset (hd (dropWhile P ss)) = sg_nextOffset (last (takeWhile P ss))"
    using ch ne split by (metis chained_append)+
  have hd_P: "start < sg_nextOffset (hd (dropWhile P ss))"
    using hd_dropWhile [OF ne] by (simp add: P_def)
  have base: "sg_baseOffset (hd (dropWhile P ss)) \<le> start"
  proof (cases "takeWhile P ss = []")
    case True
    then have "dropWhile P ss = ss" using split by simp
    then show ?thesis using start(1) by (simp add: log_start_def ss_def)
  next
    case False
    then have "P (last (takeWhile P ss))" by (metis last_in_set set_takeWhileD)
    with ch2(3) False show ?thesis by (simp add: P_def)
  qed
  have before: "filter (\<lambda>b. start \<le> batch_last b) (concat bpre) = []"
  proof (cases "takeWhile P ss = []")
    case False
    have "P (last (takeWhile P ss))" using False by (metis last_in_set set_takeWhileD)
    with chain_log [OF bss(2) ch2(1) False] show ?thesis
      by (intro filter_before) (auto simp: P_def)
  qed (use bss(2) in simp)
  define L where "L = 2 ^ 31 - 1 - maxBytes"
  have L: "\<forall>b \<in> set (concat brest). int (length b) \<le> L" "0 \<le> L"
  proof -
    have "set (concat brest) \<subseteq> set (concat bss)" using bss(1) by auto
    with small show "\<forall>b \<in> set (concat brest). int (length b) \<le> L" unfolding L_def by fastforce
    have "concat bss \<noteq> []"
    proof
      assume "concat bss = []"
      with start part_ok_log(2) [OF ok] show False by simp
    qed
    then obtain b where "b \<in> set (concat bss)" by (metis ex_in_conv set_empty)
    with small have "maxBytes + int (length b) < 2 ^ 31" by blast
    then show "0 \<le> L" by (simp add: L_def)
  qed
  have "read_segments (dropWhile P ss) start maxBytes []
      = Inr ([] @ concat (take_bytes (maxBytes - int (length ([] :: bytes)))
          (filter (\<lambda>b. start \<le> batch_last b) (concat brest))))"
    using base hd_P L m by (intro read_segments_ok [OF bss(3) ch2(2)]) (auto simp: L_def)
  with before bss(1) show ?thesis
    unfolding readLocked_def Let_def read_spec_def ss_def [symmetric] P_def [symmetric] by simp
qed

subsection \<open>Reopening\<close>

lemma open_all_ok:
  assumes "list_all2 seg_ok ss bss" and "\<forall>s \<in> set ss. map_of dir (sg_baseOffset s) = Some (files_of s)"
    and "\<forall>s \<in> set ss. sg_indexInterval s = i"
  shows "\<exists>ss'. open_all dir m i (map sg_baseOffset ss) = Inr ss' \<and> list_all2 seg_ok ss' bss
    \<and> map sg_baseOffset ss' = map sg_baseOffset ss \<and> map sg_nextOffset ss' = map sg_nextOffset ss
    \<and> (\<forall>s \<in> set ss'. sg_maxSegmentBytes s = m \<and> sg_indexInterval s = i)"
  using assms
proof (induction ss bss rule: list_all2_induct)
  case (Cons s ss bs bss)
  then obtain ss' where IH: "open_all dir m i (map sg_baseOffset ss) = Inr ss'" "list_all2 seg_ok ss' bss"
    "map sg_baseOffset ss' = map sg_baseOffset ss" "map sg_nextOffset ss' = map sg_nextOffset ss"
    "\<forall>s \<in> set ss'. sg_maxSegmentBytes s = m \<and> sg_indexInterval s = i"
    by auto
  from Cons.hyps(1) obtain idx where s: "log_small (sg_baseOffset s) bs" "index_ok idx (sg_baseOffset s) bs"
    "ix_interval idx = i" "files_of s = \<lparr>sf_log = Some (concat bs @ []), sf_index = Some (ix_file idx), sf_remote = None\<rparr>"
    using Cons.prems(2) by (auto simp: seg_ok_def files_of_def)
  from openSegment_batches [OF s(1) disjI1 s(2,3), of "[]" m] obtain s' where
    s': "openSegment (files_of s) (sg_baseOffset s) m i = Inr s'" "seg_ok s' bs" "sg_baseOffset s' = sg_baseOffset s"
    "sg_maxSegmentBytes s' = m" "sg_indexInterval s' = i"
    unfolding s(4) by auto
  have "sg_nextOffset s' = sg_nextOffset s" using seg_ok_next [OF s'(2)] seg_ok_next [OF Cons.hyps(1)] s'(3) by simp
  with IH s' Cons.prems show ?case by (intro exI [of _ "s' # ss'"]) simp
qed simp

lemma chained_map:
  assumes "map sg_baseOffset ss' = map sg_baseOffset ss" and "map sg_nextOffset ss' = map sg_nextOffset ss" and "chained ss"
  shows "chained ss'"
proof -
  have len: "length ss' = length ss" using assms(1) by (metis length_map)
  have "sg_baseOffset (ss' ! i) = sg_baseOffset (ss ! i) \<and> sg_nextOffset (ss' ! i) = sg_nextOffset (ss ! i)"
    if "i < length ss" for i
    using that len assms(1,2) by (metis nth_map)
  with assms(3) len show ?thesis by (simp add: chained_def successively_conv_nth)
qed

lemma sorted_bases:
  assumes "list_all2 seg_ok ss bss" and "chained ss" and "\<forall>bs \<in> set (butlast bss). bs \<noteq> []"
  shows "sorted_wrt (<) (map sg_baseOffset ss)"
  using assms
proof (induction ss bss rule: list_all2_induct)
  case (Cons s ss bs bss)
  show ?case
  proof (cases "ss = []")
    case False
    then have ne: "bss \<noteq> []" using Cons.hyps(2) by auto
    have "bs \<noteq> []" using Cons.prems(2) ne by simp
    then have "sg_baseOffset s < sg_nextOffset s" by (rule seg_ok_nonempty [OF Cons.hyps(1)])
    moreover have "sg_nextOffset s = sg_baseOffset (hd ss)" "chained ss"
      using Cons.prems(1) False by (simp_all add: chained_Cons)
    moreover have sorted: "sorted_wrt (<) (map sg_baseOffset ss)"
      using Cons.IH Cons.prems ne calculation by auto
    ultimately show ?thesis using False by (cases ss) auto
  qed simp
qed simp

lemma part_recover_ok:
  assumes ok: "part_ok p bss"
  shows "\<exists>p'. part_recover (part_files p) (p_maxSegmentBytes p) (p_indexInterval p) = Inr p'
    \<and> part_ok p' bss \<and> log_start p' = log_start p \<and> p_nextOffset p' = p_nextOffset p"
proof -
  let ?ss = "orderedSegments p" and ?dir = "part_files p"
  have p: "list_all2 seg_ok ?ss bss" "chained ?ss" "\<forall>bs \<in> set (butlast bss). bs \<noteq> []"
    "\<forall>s \<in> set ?ss. sg_indexInterval s = p_indexInterval p"
    using ok by (simp_all add: part_ok_def)
  have sorted: "sorted_wrt (<) (map sg_baseOffset ?ss)" by (rule sorted_bases [OF p(1-3)])
  then have distinct: "distinct (map sg_baseOffset ?ss)" by (simp add: strict_sorted_iff)
  have logs: "has_segment_file (files_of s)" if "s \<in> set ?ss" for s
    using that p(1) by (auto simp: has_segment_file_def files_of_def seg_ok_def in_set_conv_nth list_all2_conv_all_nth)
  have "map fst (filter (\<lambda>(_, f). has_segment_file f) ?dir) = map sg_baseOffset ?ss"
    using logs by (simp add: part_files_def filter_map comp_def)
  moreover have "sort (map sg_baseOffset ?ss) = map sg_baseOffset ?ss"
    using sorted by (intro sorted_sort_id strict_sorted_imp_sorted)
  ultimately have bases: "dir_bases ?dir = map sg_baseOffset ?ss"
    using distinct by (simp add: dir_bases_def distinct_remdups_id)
  have "map_of ?dir (sg_baseOffset s) = Some (files_of s)" if "s \<in> set ?ss" for s
    using that distinct by (intro map_of_is_SomeI) (auto simp: part_files_def comp_def)
  with open_all_ok [OF p(1) _ p(4), of ?dir "p_maxSegmentBytes p"] obtain ss' where
    ss': "open_all ?dir (p_maxSegmentBytes p) (p_indexInterval p) (map sg_baseOffset ?ss) = Inr ss'"
    "list_all2 seg_ok ss' bss" "map sg_baseOffset ss' = map sg_baseOffset ?ss"
    "map sg_nextOffset ss' = map sg_nextOffset ?ss"
    "\<forall>s \<in> set ss'. sg_maxSegmentBytes s = p_maxSegmentBytes p \<and> sg_indexInterval s = p_indexInterval p"
    by auto
  have ne: "ss' \<noteq> []" using ss'(3) by auto
  have last: "sg_nextOffset (last ss') = p_nextOffset p"
    using ss'(4) ne ok by (metis last_map last_orderedSegments orderedSegments_not_Nil part_ok_def)
  define p' where "p' = \<lparr>p_closedSegments = butlast ss', p_activeSegment = last ss', p_nextOffset = sg_nextOffset (last ss'),
      p_highWatermark = sg_nextOffset (last ss'), p_maxSegmentBytes = p_maxSegmentBytes p,
      p_indexInterval = p_indexInterval p, p_idempotence = [], p_compacting = False, p_lastCompactMs = 0,
      p_bytesAtCompact = 0\<rparr>"
  have segs: "orderedSegments p' = ss'" using ne by (simp add: orderedSegments_def p'_def)
  have "part_recover ?dir (p_maxSegmentBytes p) (p_indexInterval p) = Inr p'"
    using ss'(1) ne by (simp add: part_recover_def bases p'_def)
  moreover have "part_ok p' bss"
    using ss' p chained_map [OF ss'(3,4) p(2)] unfolding part_ok_def segs by (simp add: p'_def)
  moreover have "log_start p' = log_start p"
    unfolding log_start_def segs using ss'(3) ne by (metis hd_map orderedSegments_not_Nil)
  ultimately show ?thesis using last by (auto simp: p'_def)
qed

end
