(* ===== verification/Batch_Log.thy ===== *)
theory Batch_Log
  imports Partition_Refine
begin

text \<open>
  The contract between the log and the request handlers: a state that stands for a list
  of batches, an append that adds one and a read.  What a client of the log relies on is
  proved once from the contract; segments and partitions both satisfy it.
\<close>

subsection \<open>The contract\<close>

text \<open>What a producer gets back for a list of batches: each stamped with its offset.\<close>

fun stamped :: "int \<Rightarrow> bytes list \<Rightarrow> bytes list" where
  "stamped n [] = []"
| "stamped n (raw # raws) = set_base n raw # stamped (n + batch_delta raw + 1) raws"

locale batch_log =
  fixes holds :: "'s \<Rightarrow> bytes list \<Rightarrow> bool"
    and start :: "'s \<Rightarrow> int" and fin :: "'s \<Rightarrow> int"
    and can :: "'s \<Rightarrow> bytes \<Rightarrow> bool"
    and app :: "'s \<Rightarrow> bytes \<Rightarrow> (int \<times> bytes) res \<times> 's"
    and rd :: "'s \<Rightarrow> int \<Rightarrow> int \<Rightarrow> bytes res"
  assumes log_law: "holds s bs \<Longrightarrow> log_ok (start s) bs \<and> fin s = log_end (start s) bs"
    and app_law: "holds s bs \<Longrightarrow> can s raw \<Longrightarrow>
      \<exists>s'. app s raw = (Inr (fin s, set_base (fin s) raw), s') \<and> holds s' (bs @ [set_base (fin s) raw])
        \<and> fin s' = fin s + batch_delta raw + 1 \<and> start s' = start s"
    and rd_law: "holds s bs \<Longrightarrow> start s \<le> ofs \<Longrightarrow> ofs < fin s \<Longrightarrow> 0 < m \<Longrightarrow>
      \<forall>b \<in> set bs. m + int (length b) < 2 ^ 31 \<Longrightarrow> rd s ofs m = Inr (read_spec bs ofs m)"
begin

primrec app_all :: "'s \<Rightarrow> bytes list \<Rightarrow> 's" where
  "app_all s [] = s"
| "app_all s (raw # raws) = app_all (snd (app s raw)) raws"

primrec can_all :: "'s \<Rightarrow> bytes list \<Rightarrow> bool" where
  "can_all s [] \<longleftrightarrow> True"
| "can_all s (raw # raws) \<longleftrightarrow> can s raw \<and> can_all (snd (app s raw)) raws"

lemma app_all_holds:
  assumes "holds s bs" and "can_all s raws"
  shows "holds (app_all s raws) (bs @ stamped (fin s) raws) \<and> start (app_all s raws) = start s"
  using assms
proof (induction raws arbitrary: s bs)
  case (Cons raw raws)
  from app_law [OF Cons.prems(1)] Cons.prems(2) obtain s' where
    s': "app s raw = (Inr (fin s, set_base (fin s) raw), s')" "holds s' (bs @ [set_base (fin s) raw])"
    "fin s' = fin s + batch_delta raw + 1" "start s' = start s"
    by auto
  with Cons.IH [OF s'(2)] Cons.prems(2) show ?case by simp
qed simp

lemma old_batches_end:
  assumes "holds s bs" and "b \<in> set bs"
  shows "batch_last b < fin s"
  using log_law [OF assms(1)] log_ok_members [of "start s" bs b] assms(2) by simp

lemma read_back:
  assumes "holds s bs" and "can s raw" and "app s raw = (Inr (n, raw'), s')"
    and "0 < m" and "\<forall>b \<in> set (raw' # bs). m + int (length b) < 2 ^ 31"
  shows "rd s' n m = Inr raw'"
proof -
  from app_law [OF assms(1,2)] assms(3) have a: "n = fin s" "raw' = set_base (fin s) raw"
    "holds s' (bs @ [raw'])" "start s' = start s"
    by auto
  have log: "log_ok (start s) (bs @ [raw'])" "fin s = log_end (start s) bs" "fin s' = log_end (start s) (bs @ [raw'])"
    using log_law [OF a(3)] log_law [OF assms(1)] a(4) by simp_all
  then have b: "wf_batch raw'" "batch_base raw' = n" "start s \<le> n"
    using a(1) log_end_ge [of "start s" bs] by (auto simp: log_ok_append)
  have "n \<le> batch_last raw'" using batch_last_ge [OF b(1)] b(2) by simp
  moreover have "n < fin s'" using log calculation by (simp add: log_end_append)
  moreover have "filter (\<lambda>b. n \<le> batch_last b) bs = []"
    using old_batches_end [OF assms(1)] a(1) by (fastforce simp: filter_empty_conv)
  ultimately show ?thesis
    using rd_law [OF a(3), of n m] assms(4,5) a(4) b(3) by (simp add: read_spec_def)
qed

end

subsection \<open>Segments\<close>

definition seg_can :: "Segment \<Rightarrow> bytes \<Rightarrow> bool" where
  "seg_can s raw \<longleftrightarrow> wf_batch raw \<and> raw ! 16 = 2
     \<and> sg_nextOffset s + batch_delta raw + 1 - sg_baseOffset s < 2 ^ 31 \<and> sg_size s + length raw < 2 ^ 31"

definition seg_app :: "Segment \<Rightarrow> bytes \<Rightarrow> (int \<times> bytes) res \<times> Segment" where
  "seg_app s raw = (case seg_append s raw of Inl e \<Rightarrow> (Inl e, s) | Inr (n, raw', s') \<Rightarrow> (Inr (n, raw'), s'))"

interpretation seg_log: batch_log seg_ok sg_baseOffset sg_nextOffset seg_can seg_app seg_read
proof
  fix s bs
  assume s: "seg_ok s bs"
  show "log_ok (sg_baseOffset s) bs \<and> sg_nextOffset s = log_end (sg_baseOffset s) bs"
    using seg_ok_log [OF s] seg_ok_next [OF s] by simp
  fix raw
  assume "seg_can s raw"
  with segment_append [OF s, of raw]
  show "\<exists>s'. seg_app s raw = (Inr (sg_nextOffset s, set_base (sg_nextOffset s) raw), s')
      \<and> seg_ok s' (bs @ [set_base (sg_nextOffset s) raw])
      \<and> sg_nextOffset s' = sg_nextOffset s + batch_delta raw + 1 \<and> sg_baseOffset s' = sg_baseOffset s"
    by (auto simp: seg_can_def seg_app_def)
next
  fix s bs ofs m
  assume "seg_ok s bs" and "sg_baseOffset s \<le> ofs" and "ofs < sg_nextOffset s"
  then show "seg_read s ofs m = Inr (read_spec bs ofs m)"
    unfolding read_spec_def by (intro segment_read) (auto simp: seg_ok_def log_small_def)
qed

subsection \<open>Partitions\<close>

definition part_holds :: "Partition \<Rightarrow> bytes list \<Rightarrow> bool" where
  "part_holds p bs \<longleftrightarrow> (\<exists>bss. part_ok p bss \<and> concat bss = bs) \<and> 0 < p_maxSegmentBytes p"

definition part_fetch :: "Partition \<Rightarrow> int \<Rightarrow> int \<Rightarrow> bytes res" where
  "part_fetch p ofs m = res_bind (fst (part_Read None p ofs m)) (\<lambda>(out, _). Inr out)"

lemma part_ok_local:
  assumes "part_ok p bss" and "s \<in> set (orderedSegments p)"
  shows "\<not> sg_remote s" and "0 \<le> sg_baseOffset s"
  using assms by (auto simp: part_ok_def seg_ok_def log_small_def in_set_conv_nth list_all2_conv_all_nth)

lemma part_Read_ok:
  assumes "part_ok p bss" and "log_start p \<le> ofs" and "ofs < p_nextOffset p" and "0 < m"
    and "\<forall>b \<in> set (concat bss). m + int (length b) < 2 ^ 31"
  shows "part_Read fetch p ofs m = (Inr (read_spec (concat bss) ofs m, p_highWatermark p), p)"
proof -
  have "0 \<le> log_start p"
    unfolding log_start_def by (rule part_ok_local(2) [OF assms(1)]) (rule list.set_sel(1), simp)
  then have "\<not> ofs < 0" using assms(2) by simp
  moreover have "p_highWatermark p = p_nextOffset p" using assms(1) by (simp add: part_ok_def)
  moreover have "\<not> (\<exists>s \<in> set (orderedSegments p). ofs < sg_nextOffset s \<and> sg_remote s)"
    using part_ok_local(1) [OF assms(1)] by blast
  ultimately show ?thesis
    using readLocked_ok [OF assms(1-3,5,4)] assms(3) by (auto simp: part_Read_def Let_def)
qed

interpretation part_log: batch_log part_holds log_start p_nextOffset fits part_Append part_fetch
proof
  fix p bs
  assume p: "part_holds p bs"
  then obtain bss where bss: "part_ok p bss" "concat bss = bs" "0 < p_maxSegmentBytes p"
    by (auto simp: part_holds_def)
  show "log_ok (log_start p) bs \<and> p_nextOffset p = log_end (log_start p) bs"
    using part_ok_log [OF bss(1)] bss(2) by simp
  fix raw
  assume "fits p raw"
  from partition_append_ok [OF bss(1,3) this] bss(2,3)
  show "\<exists>p'. part_Append p raw = (Inr (p_nextOffset p, set_base (p_nextOffset p) raw), p')
      \<and> part_holds p' (bs @ [set_base (p_nextOffset p) raw])
      \<and> p_nextOffset p' = p_nextOffset p + batch_delta raw + 1 \<and> log_start p' = log_start p"
    unfolding part_holds_def by fastforce
next
  fix p bs ofs m
  assume "part_holds p bs" and "log_start p \<le> ofs" and "ofs < p_nextOffset p" and "0 < m"
    and "\<forall>b \<in> set bs. m + int (length b) < 2 ^ 31"
  then show "part_fetch p ofs m = Inr (read_spec bs ofs m)"
    using part_Read_ok [of p _ ofs m None] by (auto simp: part_holds_def part_fetch_def)
qed

subsection \<open>Properties of a partition\<close>

text \<open>
  C2.  Append extends the log.  On a partition that holds the batches \<open>bs\<close>, appending a
  batch that fits assigns it the next offset and gives a partition that holds \<open>bs\<close> followed
  by that batch stamped with its offset; the next offset moves past its last record.  A
  full active segment is replaced by a new one on the way without any of this changing.
\<close>

theorem partition_append:
  assumes "part_holds p bs" and "fits p raw"
  shows "\<exists>p'. part_Append p raw = (Inr (p_nextOffset p, set_base (p_nextOffset p) raw), p')
    \<and> part_holds p' (bs @ [set_base (p_nextOffset p) raw])
    \<and> p_nextOffset p' = p_nextOffset p + batch_delta raw + 1 \<and> log_start p' = log_start p"
  using assms by (rule part_log.app_law)

text \<open>
  C3.  Read refines the log.  From any offset between the start of the log and the high
  watermark, a read with a positive byte budget returns exactly the batches that reach the
  offset, in order and whole, until the budget is used up, whatever segments they are in;
  the partition does not change.
\<close>

theorem partition_read:
  assumes "part_ok p bss" and "log_start p \<le> ofs" and "ofs < p_nextOffset p" and "0 < m"
    and "\<forall>b \<in> set (concat bss). m + int (length b) < 2 ^ 31"
  shows "part_Read fetch p ofs m = (Inr (read_spec (concat bss) ofs m, p_highWatermark p), p)"
  using assms by (rule part_Read_ok)

text \<open>
  C1.  What a producer was told is what a consumer gets: a read from the offset that an
  append returned gives back exactly the batch that was appended, stamped with its offset.
\<close>

theorem produce_then_fetch:
  assumes "part_holds p bs" and "fits p raw" and "part_Append p raw = (Inr (n, raw'), p')"
    and "0 < m" and "\<forall>b \<in> set (raw' # bs). m + int (length b) < 2 ^ 31"
  shows "part_fetch p' n m = Inr raw'"
  using assms by (rule part_log.read_back)

text \<open>
  C4.  Reopening the directory that a partition leaves behind gives a partition that holds
  the same batches in the same segments, with the same first and next offset.
\<close>

theorem partition_reopen:
  assumes "part_ok p bss"
  shows "\<exists>p'. part_recover (part_files p) (p_maxSegmentBytes p) (p_indexInterval p) = Inr p'
    \<and> part_ok p' bss \<and> log_start p' = log_start p \<and> p_nextOffset p' = p_nextOffset p"
  using assms by (rule part_recover_ok)

text \<open>
  A partition can be stuck for good.  A segment takes offsets up to 2147483647 past
  its base, and only its size in bytes makes it roll.  Once its offsets have reached that
  limit while it is not full, every batch with a forward offset range is refused, and the
  refusal leaves the partition as it was, so every later one is refused as well.
\<close>

theorem partition_wedged:
  assumes "part_ok p bss" and "\<not> seg_full (p_activeSegment p)"
    and "p_nextOffset p - sg_baseOffset (p_activeSegment p) = 2147483647"
    and "ParseRecordBatchHeader raw = Inr h" and "0 \<le> sint (bh_LastOffsetDelta h)"
  shows "part_Append p raw = (Inl SegmentOffsetOverflow, p)"
proof -
  let ?a = "p_activeSegment p" and ?d = "sint (bh_LastOffsetDelta h)"
  from assms(1) obtain bs where a: "seg_ok ?a bs" by (rule part_ok_active)
  then have "0 \<le> sg_baseOffset ?a" "sg_baseOffset ?a < 2 ^ 62" by (simp_all add: seg_ok_def log_small_def)
  moreover have n: "p_nextOffset p = sg_nextOffset ?a" using assms(1) by (simp add: part_ok_def)
  moreover have "?d < 2 ^ 31" using sint32_bounds [of "bh_LastOffsetDelta h"] by simp
  ultimately have "s64 (sg_nextOffset ?a + ?d + 1) = sg_nextOffset ?a + ?d + 1"
    "s64 (sg_nextOffset ?a + ?d + 1 - sg_baseOffset ?a) = sg_nextOffset ?a + ?d + 1 - sg_baseOffset ?a"
    using assms(3,5) by (intro s64_small; simp)+
  then show ?thesis
    using assms(2-5) n by (simp add: part_Append_def seg_append_def)
qed


subsection \<open>Concrete partitions\<close>

definition sample_partition :: "Segment \<Rightarrow> int \<Rightarrow> Partition" where
  "sample_partition s m = \<lparr>p_closedSegments = [], p_activeSegment = s\<lparr>sg_maxSegmentBytes := m\<rparr>,
     p_nextOffset = sg_nextOffset s, p_highWatermark = sg_nextOffset s, p_maxSegmentBytes = m,
     p_indexInterval = sg_indexInterval s, p_idempotence = [], p_compacting = False,
     p_lastCompactMs = 0, p_bytesAtCompact = 0\<rparr>"

lemma sample_partition_ok: "seg_ok s bs \<Longrightarrow> part_ok (sample_partition s m) [bs]"
  by (simp add: part_ok_def sample_partition_def orderedSegments_def seg_ok_def)

lemma sample_partition_holds: "seg_ok s bs \<Longrightarrow> 0 < m \<Longrightarrow> part_holds (sample_partition s m) bs"
  using sample_partition_ok [of s bs m] by (auto simp: part_holds_def sample_partition_def)

lemma sample_start: "log_start (sample_partition s m) = sg_baseOffset s"
  by (simp add: log_start_def sample_partition_def orderedSegments_def)

lemma sample_fits: "fits (sample_partition empty_segment 1000) sample_raw" "fits (sample_partition two_batches 100) sample_raw"
  using sample_raw_wf by (simp_all add: fits_def sample_partition_def empty_segment_def two_batches_def seg_full_def)

lemma sample_lengths: "length (set_base n sample_raw) = 61"
  using sample_raw_wf by (simp add: set_base_fields)

lemma sample_append:
  "\<exists>p'. part_Append (sample_partition empty_segment 1000) sample_raw = (Inr (0, set_base 0 sample_raw), p')"
  using partition_append_ok [OF sample_partition_ok [OF empty_segment_ok] _ sample_fits(1)]
  by (auto simp: sample_partition_def empty_segment_def)

theorem partition_append_witness:
  "\<exists>p'. part_Append (sample_partition two_batches 100) sample_raw = (Inr (12, set_base 12 sample_raw), p')
    \<and> part_holds p' [set_base 10 sample_raw, set_base 11 sample_raw, set_base 12 sample_raw]
    \<and> p_nextOffset p' = 13 \<and> log_start p' = 10"
  using partition_append [OF sample_partition_holds [OF two_batches_ok] sample_fits(2)] sample_raw_wf(4)
  by (simp add: sample_start) (simp add: sample_partition_def two_batches_def)

theorem partition_read_witness:
  "part_Read None (sample_partition two_batches 100) 10 61
    = (Inr (set_base 10 sample_raw, 12), sample_partition two_batches 100)"
proof -
  have "batch_last (set_base 10 sample_raw) = 10" "batch_last (set_base 11 sample_raw) = 11" by code_simp+
  then show ?thesis
    using partition_read [OF sample_partition_ok [OF two_batches_ok, of 100], of 10 61 None]
    by (simp add: sample_start sample_lengths read_spec_def)
      (simp add: sample_partition_def two_batches_def sample_lengths)
qed

theorem produce_then_fetch_witness:
  "\<exists>p'. part_Append (sample_partition empty_segment 1000) sample_raw = (Inr (0, set_base 0 sample_raw), p')
    \<and> part_fetch p' 0 1 = Inr (set_base 0 sample_raw)"
proof -
  from sample_append obtain p' where
    p': "part_Append (sample_partition empty_segment 1000) sample_raw = (Inr (0, set_base 0 sample_raw), p')" ..
  then show ?thesis
    using produce_then_fetch [OF sample_partition_holds [OF empty_segment_ok] sample_fits(1) p', of 1]
    by (simp add: sample_lengths)
qed

theorem partition_reopen_witness:
  "\<exists>p'. part_recover [(10, \<lparr>sf_log = Some (set_base 10 sample_raw @ set_base 11 sample_raw),
          sf_index = Some [0, 0, 0, 1, 0, 0, 0, 61], sf_remote = None\<rparr>)] 100 1 = Inr p'
    \<and> part_ok p' [[set_base 10 sample_raw, set_base 11 sample_raw]] \<and> log_start p' = 10 \<and> p_nextOffset p' = 12"
  using partition_reopen [OF sample_partition_ok [OF two_batches_ok, of 100]]
  by (simp add: sample_start) (simp add: sample_partition_def two_batches_def part_files_def files_of_def orderedSegments_def)

definition wide_raw :: bytes where
  "wide_raw = replicate 8 0 @ [0, 0, 0, 49] @ replicate 4 0 @ [2] @ replicate 6 0 @ [127, 255, 255, 254] @ replicate 34 0"

lemma wide_raw_wf: "wf_batch wide_raw" "wide_raw ! 16 = 2" "length wide_raw = 61" "batch_delta wide_raw = 2147483646"
  by code_simp+

lemma seg_append_sizes:
  "seg_append s raw = Inr (n, raw', s') \<Longrightarrow> sg_baseOffset s' = sg_baseOffset s
     \<and> sg_size s' = sg_size s + length raw' \<and> sg_maxSegmentBytes s' = sg_maxSegmentBytes s"
  by (auto simp: seg_append_def Let_def res_bind_def split: sum.splits if_splits option.splits)

theorem partition_wedged_witness:
  "\<exists>p. part_Append (sample_partition empty_segment 1000) wide_raw = (Inr (0, set_base 0 wide_raw), p)
    \<and> part_Append p sample_raw = (Inl SegmentOffsetOverflow, p)"
proof -
  let ?p = "sample_partition empty_segment 1000"
  have f: "fits ?p wide_raw" and n: "p_nextOffset ?p = 0"
    using wide_raw_wf by (simp_all add: fits_def sample_partition_def empty_segment_def seg_full_def)
  from partition_append_ok [OF sample_partition_ok [OF empty_segment_ok] _ f] obtain p bss where
    p: "part_Append ?p wide_raw = (Inr (0, set_base 0 wide_raw), p)" "part_ok p bss" "p_nextOffset p = 2147483647"
    using n wide_raw_wf(4) by (auto simp: sample_partition_def)
  then have "seg_append (p_activeSegment ?p) wide_raw = Inr (0, set_base 0 wide_raw, p_activeSegment p)"
    by (auto simp: part_Append_def sample_partition_def empty_segment_def seg_full_def split: sum.splits)
  from seg_append_sizes [OF this] have "sg_baseOffset (p_activeSegment p) = 0" "\<not> seg_full (p_activeSegment p)"
    using wide_raw_wf by (simp_all add: sample_partition_def empty_segment_def seg_full_def set_base_fields)
  with p sample_raw_wf(4) have "part_Append p sample_raw = (Inl SegmentOffsetOverflow, p)"
    by (intro partition_wedged [OF p(2) _ _ wf_batch_header [OF sample_raw_wf(1,2)]]) (simp_all add: batch_delta_def)
  with p(1) show ?thesis by blast
qed


end
