(* ===== verification/Idempotence.thy ===== *)
theory Idempotence
  imports Batch_Log "HOL-Library.AList"
begin

text \<open>
  Idempotent producers: the sequence tracker of a partition
  (\<^verbatim>\<open>src/internal/storage/idempotence.go\<close>, and \<^verbatim>\<open>AppendIdempotentSynced\<close> of \<^verbatim>\<open>partition.go\<close>) and
  the manager that hands out producer ids and epochs (\<^verbatim>\<open>src/internal/coordinator/producer.go\<close>).
  The Go maps are association lists; the tracker runs the append it is given on a state of
  any type.
\<close>

subsection \<open>The sequence tracker\<close>

definition ValidateAndAppend ::
  "tracker \<Rightarrow> int64 \<Rightarrow> int16 \<Rightarrow> int32 \<Rightarrow> ('s \<Rightarrow> int res \<times> 's) \<Rightarrow> 's \<Rightarrow> int res \<times> tracker \<times> 's" where
  "ValidateAndAppend t pid epoch seq appendFn s =
     (if sint pid < 0 then (case appendFn s of (r, s') \<Rightarrow> (r, t, s'))
      else case map_of t pid of
        None \<Rightarrow>
          (case appendFn s of
             (Inl e, s') \<Rightarrow> (Inl e, t, s')
           | (Inr ofs, s') \<Rightarrow>
               (Inr ofs, AList.update pid \<lparr>LastSequence = seq, LastOffset = ofs, LastEpoch = epoch\<rparr> t, s'))
      | Some state \<Rightarrow>
          if sint epoch < sint (LastEpoch state) then (Inl ProducerEpochRegression, t, s)
          else if seq = LastSequence state + 1 then
            (case appendFn s of
               (Inl e, s') \<Rightarrow> (Inl e, t, s')
             | (Inr ofs, s') \<Rightarrow>
                 (Inr ofs, AList.update pid \<lparr>LastSequence = seq, LastOffset = ofs, LastEpoch = epoch\<rparr> t, s'))
          else if sint seq \<le> sint (LastSequence state) then (Inr (LastOffset state), t, s)
          else (Inl ErrOutOfOrderSequence, t, s))"

definition append_fn :: "int \<Rightarrow> bytes \<Rightarrow> bool \<Rightarrow> Partition \<Rightarrow> int res \<times> Partition" where
  "append_fn now raw sync p = (case AppendSynced now p raw sync of (r, p') \<Rightarrow> (map_sum id fst r, p'))"

definition AppendIdempotentSynced ::
  "int \<Rightarrow> Partition \<Rightarrow> int64 \<Rightarrow> int16 \<Rightarrow> int32 \<Rightarrow> bytes \<Rightarrow> bool \<Rightarrow> int res \<times> Partition" where
  "AppendIdempotentSynced now p pid epoch baseSeq raw sync =
     (case ValidateAndAppend (p_idempotence p) pid epoch baseSeq (append_fn now raw sync) p of
        (r, t, p') \<Rightarrow> (r, p'\<lparr>p_idempotence := t\<rparr>))"

subsection \<open>Producer ids\<close>

record producerState =
  transactionalID :: gostring
  ps_epoch :: int16

record ProducerIDManager =
  byID :: "(int64 \<times> producerState) list"
  byTxnID :: "(gostring \<times> int64) list"
  lastPID :: int64

definition NewProducerIDManager :: ProducerIDManager where
  "NewProducerIDManager = \<lparr>byID = [], byTxnID = [], lastPID = 1\<rparr>"

definition fresh_pid :: "ProducerIDManager \<Rightarrow> gostring option \<Rightarrow> int64 \<times> int16 \<times> ProducerIDManager" where
  "fresh_pid m txn =
     (let pid = lastPID m + 1
      in case txn of
           Some tid \<Rightarrow>
             if tid \<noteq> []
             then (pid, 0, m\<lparr>lastPID := pid, byID := AList.update pid \<lparr>transactionalID = tid, ps_epoch = 0\<rparr> (byID m),
                             byTxnID := AList.update tid pid (byTxnID m)\<rparr>)
             else (pid, 0, m\<lparr>lastPID := pid, byID := AList.update pid \<lparr>transactionalID = [], ps_epoch = 0\<rparr> (byID m)\<rparr>)
         | None \<Rightarrow> (pid, 0, m\<lparr>lastPID := pid, byID := AList.update pid \<lparr>transactionalID = [], ps_epoch = 0\<rparr> (byID m)\<rparr>))"

definition NextPid :: "ProducerIDManager \<Rightarrow> gostring option \<Rightarrow> (int64 \<times> int16 \<times> ProducerIDManager) res" where
  "NextPid m txn =
     (case (case txn of Some tid \<Rightarrow> if tid \<noteq> [] then map_of (byTxnID m) tid else None | None \<Rightarrow> None) of
        Some pid \<Rightarrow>
          (case map_of (byID m) pid of
             None \<Rightarrow> Inl Panic
           | Some st \<Rightarrow>
               let e = ps_epoch st + 1
               in Inr (pid, e, m\<lparr>byID := AList.update pid (st\<lparr>ps_epoch := e\<rparr>) (byID m)\<rparr>))
      | None \<Rightarrow> Inr (fresh_pid m txn))"

definition ValidatePid :: "ProducerIDManager \<Rightarrow> gostring \<Rightarrow> int64 \<Rightarrow> int16 \<Rightarrow> bool" where
  "ValidatePid m txn pid epoch =
     (case map_of (byID m) pid of
        None \<Rightarrow> False
      | Some st \<Rightarrow> if txn \<noteq> [] \<and> transactionalID st \<noteq> txn then False else ps_epoch st = epoch)"

subsection \<open>Facts on the tracker\<close>

lemma map_of_update: "map_of (AList.update k v t) k' = (if k' = k then Some v else map_of t k')"
  by (simp add: update_conv')

lemma seq_step_irreflexive: "(s :: int32) \<noteq> s + 1"
  by (metis add_cancel_left_right one_neq_zero)

text \<open>A producer is untouched by what other producers do.\<close>

lemma ValidateAndAppend_others:
  "ValidateAndAppend t pid e s f x = (r, t', x') \<Longrightarrow> pid \<noteq> pid' \<Longrightarrow> map_of t' pid' = map_of t pid'"
  by (auto simp: ValidateAndAppend_def map_of_update split: if_splits option.splits sum.splits prod.splits)

text \<open>After a success the tracker answers the same request again without running the append.\<close>

lemma ValidateAndAppend_answered:
  assumes "ValidateAndAppend t pid epoch seq f s = (Inr n, t', s')" and "0 \<le> sint pid"
  obtains st where "map_of t' pid = Some st" "LastOffset st = n" "\<not> sint epoch < sint (LastEpoch st)"
    "seq \<noteq> LastSequence st + 1" "sint seq \<le> sint (LastSequence st)"
proof -
  let ?new = "\<lparr>LastSequence = seq, LastOffset = n, LastEpoch = epoch\<rparr>"
  from assms have "map_of t' pid = Some ?new \<or> (\<exists>st. map_of t' pid = Some st \<and> LastOffset st = n
      \<and> \<not> sint epoch < sint (LastEpoch st) \<and> seq \<noteq> LastSequence st + 1 \<and> sint seq \<le> sint (LastSequence st))"
    by (auto simp: ValidateAndAppend_def map_of_update split: if_splits option.splits sum.splits prod.splits)
  then show ?thesis using that [of ?new] that seq_step_irreflexive by auto
qed

lemma ValidateAndAppend_retry:
  assumes "ValidateAndAppend t pid epoch seq f s = (Inr n, t', s')" and "0 \<le> sint pid"
    and "map_of t2 pid = map_of t' pid"
  shows "ValidateAndAppend t2 pid epoch seq g s2 = (Inr n, t2, s2)"
proof -
  from ValidateAndAppend_answered [OF assms(1,2)] obtain st where "map_of t' pid = Some st" "LastOffset st = n"
    "\<not> sint epoch < sint (LastEpoch st)" "seq \<noteq> LastSequence st + 1" "sint seq \<le> sint (LastSequence st)" .
  with assms(2,3) show ?thesis by (simp add: ValidateAndAppend_def)
qed

lemma part_Append_idempotence: "p_idempotence (snd (part_Append p raw)) = p_idempotence p"
  by (auto simp: part_Append_def part_roll_def Let_def split: sum.splits prod.splits)

lemma append_fn_idempotence: "p_idempotence (snd (append_fn now raw sync p)) = p_idempotence p"
  using part_Append_idempotence [of p raw]
  by (auto simp: append_fn_def AppendSynced_def part_Sync_def split: sum.splits prod.splits)

lemma idempotence_same: "p_idempotence p = t \<Longrightarrow> p\<lparr>p_idempotence := t\<rparr> = p"
  by (cases p) simp

subsection \<open>Properties\<close>

text \<open>The requests of several producers, one after the other.\<close>

record send_request =
  sr_pid :: int64
  sr_epoch :: int16
  sr_seq :: int32
  sr_raw :: bytes
  sr_sync :: bool

definition send :: "int \<Rightarrow> Partition \<Rightarrow> send_request \<Rightarrow> int res \<times> Partition" where
  "send now p r = AppendIdempotentSynced now p (sr_pid r) (sr_epoch r) (sr_seq r) (sr_raw r) (sr_sync r)"

definition send_all :: "int \<Rightarrow> Partition \<Rightarrow> send_request list \<Rightarrow> Partition" where
  "send_all now = foldl (\<lambda>p r. snd (send now p r))"

lemma send_others:
  "sr_pid r \<noteq> pid \<Longrightarrow> map_of (p_idempotence (snd (send now p r))) pid = map_of (p_idempotence p) pid"
  by (auto simp: send_def AppendIdempotentSynced_def split: prod.splits dest: ValidateAndAppend_others)

lemma send_all_others:
  "\<forall>r \<in> set rs. sr_pid r \<noteq> pid \<Longrightarrow> map_of (p_idempotence (send_all now p rs)) pid = map_of (p_idempotence p) pid"
  by (induction rs arbitrary: p) (simp_all add: send_all_def send_others)

text \<open>
  C9.  A retried request takes effect once.  After a batch of an idempotent producer was
  accepted, and whatever other producers sent in between, sending it again with the same
  producer id, epoch and sequence number returns the offset of the first time and leaves
  the partition as it is.
\<close>

theorem idempotent_retry:
  assumes "send now p r = (Inr n, p')" and "0 \<le> sint (sr_pid r)"
    and "\<forall>x \<in> set others. sr_pid x \<noteq> sr_pid r"
  shows "send later (send_all now p' others) r = (Inr n, send_all now p' others)"
proof -
  let ?q = "send_all now p' others"
  from assms(1) obtain t q where
    v: "ValidateAndAppend (p_idempotence p) (sr_pid r) (sr_epoch r) (sr_seq r)
          (append_fn now (sr_raw r) (sr_sync r)) p = (Inr n, t, q)" and p': "p' = q\<lparr>p_idempotence := t\<rparr>"
    by (auto simp: send_def AppendIdempotentSynced_def split: prod.splits)
  have "map_of (p_idempotence ?q) (sr_pid r) = map_of t (sr_pid r)"
    using send_all_others [OF assms(3)] p' by simp
  then show ?thesis
    by (simp add: send_def AppendIdempotentSynced_def idempotence_same ValidateAndAppend_retry [OF v assms(2)])
qed

text \<open>A base sequence number beyond the next one is refused and changes nothing.\<close>

lemma next_batch_out_of_order:
  assumes "send now p r = (Inr n, p')" and "0 \<le> sint (sr_pid r)" and "map_of (p_idempotence p) (sr_pid r) = None"
    and "sr_pid r' = sr_pid r" and "sr_epoch r' = sr_epoch r" and "sint (sr_seq r) + 1 < sint (sr_seq r')"
  shows "send later p' r' = (Inl ErrOutOfOrderSequence, p')"
proof -
  from assms(1-3) have "map_of (p_idempotence p') (sr_pid r)
      = Some \<lparr>LastSequence = sr_seq r, LastOffset = n, LastEpoch = sr_epoch r\<rparr>"
    by (auto simp: send_def AppendIdempotentSynced_def ValidateAndAppend_def map_of_update
        split: prod.splits sum.splits)
  moreover have "sint (sr_seq r + 1) = sint (sr_seq r) + 1"
    using assms(6) sint32_bounds [of "sr_seq r'"] by (intro sint_succ) simp
  then have "sr_seq r' \<noteq> sr_seq r + 1" and "\<not> sint (sr_seq r') \<le> sint (sr_seq r)"
    using assms(6) by (auto)
  ultimately show ?thesis
    using assms(2,4,5)
    by (simp add: send_def AppendIdempotentSynced_def ValidateAndAppend_def idempotence_same)
qed

text \<open>
  A restarted producer loses data.  A producer that comes back with its transactional
  id gets the same producer id with the next epoch and starts again at sequence number 0.
  On a partition that has already taken a batch of it with a sequence number of at least 0,
  its first batch is acknowledged with an old offset and is not stored.
\<close>

theorem new_epoch_batch_dropped:
  assumes "NextPid m (Some txn) = Inr (pid, epoch, m')" and "map_of (byTxnID m) txn = Some pid" and "txn \<noteq> []"
    and "map_of (byID m) pid = Some st" and "sint (ps_epoch st) < 32767"
    and "map_of (p_idempotence p) pid = Some state" and "LastEpoch state = ps_epoch st" and "0 \<le> sint pid"
    and "0 \<le> sint (LastSequence state)"
  shows "epoch = LastEpoch state + 1 \<and> sint (LastEpoch state) < sint epoch
    \<and> AppendIdempotentSynced now p pid epoch 0 raw sync = (Inr (LastOffset state), p)"
proof -
  have e: "epoch = ps_epoch st + 1" using assms(1-4) by (simp add: NextPid_def Let_def)
  moreover have "sint (ps_epoch st + 1) = sint (ps_epoch st) + 1"
    using assms(5) by (intro sint_succ) simp
  moreover have "LastSequence state + 1 \<noteq> 0"
  proof
    assume "LastSequence state + 1 = 0"
    then have "LastSequence state = -1" by (simp add: eq_neg_iff_add_eq_0)
    with assms(9) show False by simp
  qed
  ultimately show ?thesis
    using assms(6-9)
    by (auto simp: AppendIdempotentSynced_def ValidateAndAppend_def idempotence_same)
qed

subsection \<open>Producer ids are handed out once\<close>

definition pm_ok :: "ProducerIDManager \<Rightarrow> bool" where
  "pm_ok m \<longleftrightarrow> (\<forall>pid st. map_of (byID m) pid = Some st \<longrightarrow> sint pid \<le> sint (lastPID m))
     \<and> (\<forall>tid pid. map_of (byTxnID m) tid = Some pid \<longrightarrow>
          (\<exists>st. map_of (byID m) pid = Some st \<and> transactionalID st = tid))"

lemma pm_ok_fresh:
  assumes "pm_ok m" and "sint (lastPID m) + 1 < 2 ^ 63"
  shows "map_of (byID m) (lastPID m + 1) = None" and "sint (lastPID m + 1) = sint (lastPID m) + 1"
proof -
  show s: "sint (lastPID m + 1) = sint (lastPID m) + 1" using assms(2) by (intro sint_succ) simp
  have "\<not> sint (lastPID m + 1) \<le> sint (lastPID m)" unfolding s by simp
  then show "map_of (byID m) (lastPID m + 1) = None"
    using assms(1) unfolding pm_ok_def by (metis option.exhaust)
qed


subsection \<open>Concrete producers\<close>

definition sample_send :: "int64 \<Rightarrow> int32 \<Rightarrow> send_request" where
  "sample_send pid seq = \<lparr>sr_pid = pid, sr_epoch = 0, sr_seq = seq, sr_raw = sample_raw, sr_sync = False\<rparr>"

lemma sample_send_ok:
  "\<exists>p'. send 1 (sample_partition empty_segment 1000) (sample_send 5 seq) = (Inr 0, p')"
  using sample_append
  by (auto simp: send_def sample_send_def AppendIdempotentSynced_def ValidateAndAppend_def append_fn_def
      AppendSynced_def sample_partition_def)

theorem idempotent_retry_witness:
  "\<exists>p'. send 1 (sample_partition empty_segment 1000) (sample_send 5 0) = (Inr 0, p')
    \<and> send 2 (send_all 1 p' [sample_send 6 0]) (sample_send 5 0) = (Inr 0, send_all 1 p' [sample_send 6 0])"
proof -
  from sample_send_ok [of 0] obtain p' where
    p': "send 1 (sample_partition empty_segment 1000) (sample_send 5 0) = (Inr 0, p')" ..
  with idempotent_retry [OF p', of "[sample_send 6 0]" 2] show ?thesis
    by (simp add: sample_send_def)
qed

definition sample_manager :: ProducerIDManager where
  "sample_manager = \<lparr>byID = [(2, \<lparr>transactionalID = [97], ps_epoch = 0\<rparr>)], byTxnID = [([97], 2)], lastPID = 2\<rparr>"

theorem new_epoch_batch_dropped_witness:
  "AppendIdempotentSynced 1
      ((sample_partition empty_segment 1000)\<lparr>p_idempotence := [(2, \<lparr>LastSequence = 7, LastOffset = 40, LastEpoch = 0\<rparr>)]\<rparr>)
      2 1 0 sample_raw True
    = (Inr 40, (sample_partition empty_segment 1000)\<lparr>p_idempotence := [(2, \<lparr>LastSequence = 7, LastOffset = 40, LastEpoch = 0\<rparr>)]\<rparr>)"
  using new_epoch_batch_dropped [of sample_manager "[97]" 2 1 _ "\<lparr>transactionalID = [97], ps_epoch = 0\<rparr>"
      "(sample_partition empty_segment 1000)\<lparr>p_idempotence := [(2, \<lparr>LastSequence = 7, LastOffset = 40, LastEpoch = 0\<rparr>)]\<rparr>"
      "\<lparr>LastSequence = 7, LastOffset = 40, LastEpoch = 0\<rparr>" 1 sample_raw True]
  by (simp add: sample_manager_def NextPid_def Let_def)


end
