(* ===== verification/Compression.thy ===== *)
theory Compression
  imports Prelude
begin

text \<open>
  The record compression of \<^verbatim>\<open>src/pkg/protocol/compression.go\<close>: the LZ4 block format in the
  frame the broker uses, the Snappy variant, and the dispatch on the codec bits.  Gzip is
  \<^verbatim>\<open>compress/gzip\<close> of the Go library and a parameter here.  A decoder works on the input that
  is left instead of an index into it; the hash table of an encoder is a function.
\<close>

unbundle bit_operations_syntax

subsection \<open>Shared parts of the two formats\<close>

text \<open>Appending \<open>n\<close> bytes that start at position \<open>start\<close> of the output, one at a time.\<close>

fun copy_loop :: "bytes \<Rightarrow> nat \<Rightarrow> nat \<Rightarrow> bytes" where
  "copy_loop dst start 0 = dst"
| "copy_loop dst start (Suc n) = copy_loop (dst @ [dst ! start]) (Suc start) n"

text \<open>How far two positions agree, counted from \<open>k\<close>.\<close>

function match_len :: "bytes \<Rightarrow> nat \<Rightarrow> nat \<Rightarrow> int \<Rightarrow> nat \<Rightarrow> nat" where
  "match_len src cand i limit k =
     (if i + k < length src \<and> src ! (cand + k) = src ! (i + k) \<and> int k < limit
      then match_len src cand i limit (Suc k) else k)"
  by auto
termination by (relation "measure (\<lambda>(src, cand, i, limit, k). length src - k)") auto

declare match_len.simps [simp del]

definition word4 :: "bytes \<Rightarrow> nat \<Rightarrow> 32 word" where
  "word4 src i = ucast (src ! i) OR push_bit 8 (ucast (src ! (i + 1)))
     OR push_bit 16 (ucast (src ! (i + 2))) OR push_bit 24 (ucast (src ! (i + 3)))"

definition match_at :: "bytes \<Rightarrow> int \<Rightarrow> nat \<Rightarrow> bool" where
  "match_at src cand i \<longleftrightarrow> 0 \<le> cand \<and> cand + 4 \<le> int i \<and> int i - cand \<le> 65535
     \<and> src ! nat cand = src ! i \<and> src ! (nat cand + 1) = src ! (i + 1)
     \<and> src ! (nat cand + 2) = src ! (i + 2) \<and> src ! (nat cand + 3) = src ! (i + 3)"

lemma match_len_ge: "k \<le> match_len src cand i limit k"
proof (induction src cand i limit k rule: match_len.induct)
  case (1 src cand i limit k)
  then show ?case by (subst match_len.simps) (auto dest: Suc_leD)
qed

text \<open>
  The loop both encoders run: look the next four bytes up in the hash table, and either
  write the literals since the last match together with the match found, or go on.
\<close>

function lz_loop ::
  "(bytes \<Rightarrow> nat \<Rightarrow> 32 word) \<Rightarrow> int \<Rightarrow> (bytes \<Rightarrow> nat \<Rightarrow> nat \<Rightarrow> bytes)
    \<Rightarrow> bytes \<Rightarrow> nat \<Rightarrow> nat \<Rightarrow> (32 word \<Rightarrow> int32) \<Rightarrow> bytes \<Rightarrow> bytes \<times> nat" where
  "lz_loop hash limit emit src i litStart table out =
     (if i + 4 \<le> length src then
        let pos = hash src i; cand = sint (table pos); table' = table(pos := of_nat i)
        in if match_at src cand i
           then let m = match_len src (nat cand) i limit 4
                in lz_loop hash limit emit src (i + m) (i + m) table'
                     (out @ emit (take (i - litStart) (drop litStart src)) (i - nat cand) m)
           else lz_loop hash limit emit src (i + 1) litStart table' out
      else (out, litStart))"
  by auto
termination
proof (relation "measure (\<lambda>(hash, limit, emit, src, i, litStart, table, out). length src - i)", goal_cases)
  case (2 hash limit emit src i litStart table out pos cand table' m)
  have "4 \<le> m" using match_len_ge [of 4 src "nat cand" i limit] 2 by simp
  with 2 show ?case by simp
qed auto

declare lz_loop.simps [simp del]

subsection \<open>LZ4\<close>

definition lz4_pos :: "bytes \<Rightarrow> nat \<Rightarrow> 32 word" where
  "lz4_pos src i =
     (let h0 = word4 src i; h1 = h0 XOR drop_bit 16 h0; h2 = h1 * 0x9e3779b1; h3 = h2 XOR drop_bit 16 h2
      in h3 AND 0x3fff)"

function len_ext :: "nat \<Rightarrow> bytes" where
  "len_ext rest = (if 255 \<le> rest then 255 # len_ext (rest - 255) else [of_nat rest])"
  by auto
termination by (relation "measure id") auto

declare len_ext.simps [simp del]

definition lz4_literals :: "bytes \<Rightarrow> bytes" where
  "lz4_literals lits = (if 15 \<le> length lits then len_ext (length lits - 15) else []) @ lits"

definition lz4_token :: "nat \<Rightarrow> nat \<Rightarrow> byte" where
  "lz4_token litLen matchLen =
     of_nat ((if 15 \<le> litLen then push_bit 4 15 else push_bit 4 litLen)
       OR (if 19 \<le> matchLen then 15 else matchLen - 4))"

definition lz4_sequence :: "bytes \<Rightarrow> nat \<Rightarrow> nat \<Rightarrow> bytes" where
  "lz4_sequence lits ofs matchLen =
     lz4_token (length lits) matchLen # lz4_literals lits @ [of_nat ofs, of_nat (drop_bit 8 ofs)]
       @ (if 19 \<le> matchLen then len_ext (matchLen - 19) else [])"

definition lz4_last :: "bytes \<Rightarrow> bytes" where
  "lz4_last lits =
     of_nat (if 15 \<le> length lits then push_bit 4 15 else push_bit 4 (length lits)) # lz4_literals lits"

definition lz4BlockEncode :: "bytes \<Rightarrow> bytes" where
  "lz4BlockEncode src =
     (case lz_loop lz4_pos 65550 lz4_sequence src 0 0 (\<lambda>_. -1) [] of (out, litStart) \<Rightarrow> out @ lz4_last (drop litStart src))"

definition lz4BlockCompress :: "bytes \<Rightarrow> bytes" where
  "lz4BlockCompress src =
     (if src = [] then []
      else let block = lz4BlockEncode src
           in PutUint32 0x184D2204 @ PutUint32 (of_nat (length block)) @ PutUint32 (of_nat (length src)) @ block)"

fun read_len :: "go_error \<Rightarrow> bytes \<Rightarrow> nat \<Rightarrow> (nat \<times> bytes) res" where
  "read_len e [] acc = Inl e"
| "read_len e (b # rest) acc = (if b \<noteq> 255 then Inr (acc + unat b, rest) else read_len e rest (acc + unat b))"

definition lz4_read_len :: "go_error \<Rightarrow> nat \<Rightarrow> bytes \<Rightarrow> (nat \<times> bytes) res" where
  "lz4_read_len e nibble rest = (if nibble = 15 then read_len e rest nibble else Inr (nibble, rest))"

lemma read_len_shorter: "read_len e src acc = Inr (n, rest) \<Longrightarrow> length rest \<le> length src"
  by (induction src arbitrary: acc) (auto split: if_splits intro: le_SucI)

lemma lz4_read_len_shorter: "lz4_read_len e n src = Inr (m, rest) \<Longrightarrow> length rest \<le> length src"
  by (auto simp: lz4_read_len_def split: if_splits dest: read_len_shorter)

function lz4_decode_loop :: "bytes \<Rightarrow> bytes \<Rightarrow> bytes res" where
  "lz4_decode_loop [] dst = Inr dst"
| "lz4_decode_loop (token # r0) dst =
     (case lz4_read_len Lz4LiteralLengthOverrun (unat (drop_bit 4 token)) r0 of
        Inl e \<Rightarrow> Inl e
      | Inr (litLen, r1) \<Rightarrow>
          if litLen > length r1 then Inl Lz4LiteralOverrun
          else let dst1 = dst @ take litLen r1; r2 = drop litLen r1
               in (case r2 of
                     [] \<Rightarrow> Inr dst1
                   | [_] \<Rightarrow> Inl Lz4OffsetOverrun
                   | lo # hi # r3 \<Rightarrow>
                       (case lz4_read_len Lz4MatchLengthOverrun (unat (token AND 0x0f)) r3 of
                          Inl e \<Rightarrow> Inl e
                        | Inr (m, r4) \<Rightarrow>
                            let ofs = unat lo OR push_bit 8 (unat hi)
                            in if ofs = 0 \<or> ofs > length dst1 then Inl Lz4InvalidOffset
                               else lz4_decode_loop r4 (copy_loop dst1 (length dst1 - ofs) (m + 4)))))"
  by pat_completeness auto
termination
proof (relation "measure (\<lambda>(src, dst). length src)", goal_cases)
  case (2 token r0 dst _ litLen r1 dst1 r2 lo r2' hi r3 _ m r4 ofs)
  have "length r4 \<le> length r3" "length r1 \<le> length r0"
    using 2 by (auto dest: lz4_read_len_shorter)
  moreover have "lo # hi # r3 = drop litLen r1" using 2 by simp
  then have "length (lo # hi # r3) = length r1 - litLen" by (metis length_drop)
  ultimately show ?case by simp
qed simp

definition lz4BlockDecode :: "bytes \<Rightarrow> nat \<Rightarrow> bytes res" where
  "lz4BlockDecode src uncompLen =
     res_bind (lz4_decode_loop src []) (\<lambda>dst.
       Inr (if length dst > uncompLen then take uncompLen dst else dst))"

definition lz4BlockDecompress :: "bytes \<Rightarrow> bytes res" where
  "lz4BlockDecompress src =
     (if src = [] then Inr []
      else if length src < 12 then Inl Lz4FrameTooShort
      else if Uint32 src \<noteq> 0x184D2204 then Inl Lz4BadMagic
      else let compLen = unat (Uint32 (drop 4 src)); uncompLen = unat (Uint32 (drop 8 src))
           in if compLen \<noteq> length src - 12 then Inl Lz4LengthMismatch
              else let block = drop 12 src;
                       block' = (if length block + 4 = compLen \<and> uncompLen = compLen + 4 then take (compLen - 4) block else block)
                   in res_bind (lz4BlockDecode block' uncompLen) (\<lambda>out.
                        if length out \<noteq> uncompLen then Inl Lz4SizeMismatch else Inr out))"

text \<open>A copy reproduces the bytes of the source that the match found.\<close>

lemma copy_take:
  assumes "c < i" and "i + n \<le> length src" and "\<forall>k < n. src ! (c + k) = src ! (i + k)"
  shows "copy_loop (take i src) c n = take (i + n) src"
  using assms
proof (induction n arbitrary: c i)
  case (Suc n)
  have "take i src @ [take i src ! c] = take (Suc i) src"
    using Suc.prems(1,2) Suc.prems(3) [rule_format, of 0] by (simp add: take_Suc_conv_app_nth)
  moreover have "copy_loop (take (Suc i) src) (Suc c) n = take (Suc i + n) src"
  proof (rule Suc.IH)
    show "\<forall>k < n. src ! (Suc c + k) = src ! (Suc i + k)"
      using Suc.prems(3) by (metis Suc_less_eq add_Suc add_Suc_right)
  qed (use Suc.prems in auto)
  ultimately show ?case by simp
qed simp

lemma match_len_spec:
  assumes "\<forall>j < k. src ! (c + j) = src ! (i + j)" and "i + k \<le> length src"
  shows "(\<forall>j < match_len src c i limit k. src ! (c + j) = src ! (i + j)) \<and> i + match_len src c i limit k \<le> length src"
  using assms
proof (induction src c i limit k rule: match_len.induct)
  case (1 src c i limit k)
  show ?case
  proof (cases "i + k < length src \<and> src ! (c + k) = src ! (i + k) \<and> int k < limit")
    case True
    with "1.prems" have "\<forall>j < Suc k. src ! (c + j) = src ! (i + j)" and "i + Suc k \<le> length src"
      by (auto simp: less_Suc_eq)
    with "1.IH" [OF True] have "(\<forall>j < match_len src c i limit (Suc k). src ! (c + j) = src ! (i + j))
        \<and> i + match_len src c i limit (Suc k) \<le> length src"
      by simp
    with True show ?thesis unfolding match_len.simps [of src c i limit k] by simp
  next
    case False
    with "1.prems" show ?thesis unfolding match_len.simps [of src c i limit k] by auto
  qed
qed

lemma match_len_le: "int k \<le> limit \<Longrightarrow> int (match_len src c i limit k) \<le> limit"
proof (induction src c i limit k rule: match_len.induct)
  case (1 src c i limit k)
  then show ?case unfolding match_len.simps [of src c i limit k] by auto
qed

text \<open>
  What a decoder has to do for the loop to be right: undo one emitted sequence, for the
  literal counts, distances and match lengths that \<open>fine\<close> allows.
\<close>

locale lz_format =
  fixes limit :: int and emit :: "bytes \<Rightarrow> nat \<Rightarrow> nat \<Rightarrow> bytes"
    and dec :: "bytes \<Rightarrow> bytes \<Rightarrow> bytes res"
    and fine :: "nat \<Rightarrow> nat \<Rightarrow> bool"
  assumes limit: "4 \<le> limit"
    and emit: "fine (length lits) ofs \<Longrightarrow> 4 \<le> m \<Longrightarrow> int m \<le> limit \<Longrightarrow> 0 < ofs \<Longrightarrow> ofs \<le> 65535 \<Longrightarrow>
      ofs \<le> length (dst @ lits) \<Longrightarrow>
      dec (emit lits ofs m @ rest) dst = dec rest (copy_loop (dst @ lits) (length (dst @ lits) - ofs) m)"
begin

lemma emit_match:
  assumes "match_at src cand i" and "i + 4 \<le> length src" and "litStart \<le> i"
    and "fine (i - litStart) (i - nat cand)"
  defines "m \<equiv> match_len src (nat cand) i limit 4"
  shows "dec (emit (take (i - litStart) (drop litStart src)) (i - nat cand) m @ rest) (take litStart src)
      = dec rest (take (i + m) src)"
    and "i + m \<le> length src" and "4 \<le> m"
proof -
  let ?c = "nat cand" and ?lits = "take (i - litStart) (drop litStart src)"
  have c: "?c + 4 \<le> i" "i - ?c \<le> 65535" using assms(1) by (auto simp: match_at_def)
  have "\<forall>j < 4. src ! (?c + j) = src ! (i + j)"
    using assms(1) by (auto simp: match_at_def less_Suc_eq numeral_eq_Suc)
  from match_len_spec [OF this assms(2), of limit]
  have spec: "\<forall>j < m. src ! (?c + j) = src ! (i + j)" "i + m \<le> length src" by (simp_all add: m_def)
  show m: "4 \<le> m" unfolding m_def by (rule match_len_ge)
  show "i + m \<le> length src" by (rule spec)
  have lits: "take litStart src @ ?lits = take i src"
    using assms(3) by (metis le_add_diff_inverse take_add)
  have len: "length ?lits = i - litStart" using assms(2) by simp
  have "int m \<le> limit" unfolding m_def using match_len_le limit by simp
  then have "dec (emit ?lits (i - ?c) m @ rest) (take litStart src)
      = dec rest (copy_loop (take i src) (length (take i src) - (i - ?c)) m)"
    using c m assms(2,4) len by (subst emit) (simp_all add: lits flip: length_append)
  also have "length (take i src) - (i - ?c) = ?c" using c assms(2) by simp
  also have "copy_loop (take i src) ?c m = take (i + m) src" using c spec by (intro copy_take) auto
  finally show "dec (emit ?lits (i - ?c) m @ rest) (take litStart src) = dec rest (take (i + m) src)" .
qed

text \<open>
  What the encoder has written so far decodes to the source up to the first byte that is
  still to be written as a literal.
\<close>

lemma loop_decodes:
  assumes "\<forall>l ofs. l + 4 \<le> length src \<and> ofs + 4 \<le> length src \<longrightarrow> fine l ofs"
    and "\<And>rest. dec (out @ rest) [] = dec rest (take litStart src)"
    and "litStart \<le> i" and "i \<le> length src"
    and "lz_loop hash limit emit src i litStart table out = (out', lit')"
  shows "(\<forall>rest. dec (out' @ rest) [] = dec rest (take lit' src)) \<and> lit' \<le> length src"
  using assms(2-)
proof (induction "length src - i" arbitrary: i litStart table out rule: less_induct)
  case less
  define cand where "cand = sint (table (hash src i))"
  define table' where "table' = table(hash src i := of_nat i)"
  define m where "m = match_len src (nat cand) i limit 4"
  let ?seq = "emit (take (i - litStart) (drop litStart src)) (i - nat cand) m"
  have loop: "lz_loop hash limit emit src i litStart table out =
     (if i + 4 \<le> length src then
        if match_at src cand i then lz_loop hash limit emit src (i + m) (i + m) table' (out @ ?seq)
        else lz_loop hash limit emit src (i + 1) litStart table' out
      else (out, litStart))"
    unfolding lz_loop.simps [of hash limit emit src i litStart table out] Let_def cand_def table'_def m_def ..
  consider (stop) "\<not> i + 4 \<le> length src" | (match) "i + 4 \<le> length src" "match_at src cand i"
    | (skip) "i + 4 \<le> length src" "\<not> match_at src cand i" by blast
  then show ?case
  proof cases
    case stop
    with less.prems loop show ?thesis by auto
  next
    case skip
    have "lz_loop hash limit emit src (i + 1) litStart table' out = (out', lit')"
      using loop skip less.prems(4) by simp
    from less.hyps [OF _ less.prems(1) _ _ this] show ?thesis using less.prems(2) skip(1) by simp
  next
    case match
    have "fine (i - litStart) (i - nat cand)" using match(1) by (intro assms(1) [rule_format]) linarith
    note step = emit_match [OF match(2,1) less.prems(2) this, folded m_def]
    have "dec ((out @ ?seq) @ rest) [] = dec rest (take (i + m) src)" for rest
      using less.prems(1) [of "?seq @ rest"] step(1) by simp
    moreover have "lz_loop hash limit emit src (i + m) (i + m) table' (out @ ?seq) = (out', lit')"
      using loop match less.prems(4) by simp
    ultimately show ?thesis
      using less.hyps [of "i + m" "out @ ?seq" "i + m" table'] step(2,3) match(1) by simp
  qed
qed

lemma whole_decodes:
  assumes "\<forall>l ofs. l + 4 \<le> length src \<and> ofs + 4 \<le> length src \<longrightarrow> fine l ofs"
    and "lz_loop hash limit emit src 0 0 table [] = (out, lit)"
  shows "dec (out @ rest) [] = dec rest (take lit src)" and "lit \<le> length src"
  using loop_decodes [OF assms(1) _ _ _ assms(2)] by simp_all

end

subsection \<open>LZ4 decodes what it encodes\<close>

lemma read_len_ext: "read_len e (len_ext n @ rest) acc = Inr (acc + n, rest)"
proof (induction n arbitrary: acc rule: len_ext.induct)
  case (1 n)
  show ?case
  proof (cases "255 \<le> n")
    case True
    then show ?thesis using 1 [of "acc + 255"] by (subst len_ext.simps) simp
  next
    case False
    then have u: "unat (of_nat n :: byte) = n" by (simp add: unat_of_nat)
    have "(of_nat n :: byte) \<noteq> 255"
    proof
      assume "(of_nat n :: byte) = 255"
      then have "unat (of_nat n :: byte) = 255" by simp
      with u False show False by simp
    qed
    with u False show ?thesis by (subst len_ext.simps) simp
  qed
qed

lemma nibble_sum: "b < 16 \<Longrightarrow> push_bit 4 a OR b = 16 * a + (b :: nat)"
proof -
  assume "b < 16"
  then have b: "take_bit 4 b = b" by (simp add: take_bit_nat_eq_self)
  have "push_bit 4 a AND take_bit 4 b = 0" by (auto simp: bit_eq_iff bit_simps)
  then have "push_bit 4 a OR b = push_bit 4 a + b" unfolding b by (simp add: disjunctive_add_eq_or)
  then show ?thesis by (simp add: push_bit_eq_mult)
qed

lemma nibbles:
  assumes "a < 16" and "b < 16"
  shows "unat (drop_bit 4 (of_nat (push_bit 4 a OR b) :: byte)) = a"
    and "unat ((of_nat (push_bit 4 a OR b) :: byte) AND 0x0f) = b"
proof -
  let ?w = "of_nat (push_bit 4 a OR b) :: byte"
  have u: "unat ?w = 16 * a + b" using assms by (simp add: nibble_sum unat_of_nat del: of_nat_add of_nat_mult)
  show "unat (drop_bit 4 ?w) = a"
    using assms(2) unfolding unat_drop_bit_eq u by (simp add: drop_bit_eq_div)
  have "?w AND 0x0f = take_bit 4 ?w" by (simp add: take_bit_eq_mask mask_eq_exp_minus_1)
  then have "unat (?w AND 0x0f) = take_bit 4 (unat ?w)" by (simp only: unsigned_take_bit_eq)
  then show "unat (?w AND 0x0f) = b" using assms(2) unfolding u by (simp add: take_bit_eq_mod)
qed

lemma offset_bytes: "ofs < 65536 \<Longrightarrow> unat (of_nat ofs :: byte) OR push_bit 8 (unat (of_nat (drop_bit 8 ofs) :: byte)) = ofs"
proof -
  assume "ofs < 65536"
  then have "take_bit 16 ofs = ofs" by (simp add: take_bit_nat_eq_self)
  moreover have "take_bit 8 ofs OR push_bit 8 (take_bit 8 (drop_bit 8 ofs)) = take_bit 16 ofs"
    by (auto simp: bit_eq_iff bit_simps)
  ultimately show ?thesis by (simp add: unsigned_of_nat)
qed

text \<open>The literals of a sequence, with the length that does not fit the nibble.\<close>

lemma read_literals:
  "lz4_read_len e (min 15 (length lits)) (lz4_literals lits @ rest) = Inr (length lits, lits @ rest)"
proof (cases "15 \<le> length lits")
  case True
  then show ?thesis by (simp add: lz4_read_len_def lz4_literals_def min_def read_len_ext)
qed (simp add: lz4_read_len_def lz4_literals_def)

lemma read_match:
  "4 \<le> m \<Longrightarrow> lz4_read_len e (min 15 (m - 4)) ((if 19 \<le> m then len_ext (m - 19) else []) @ rest) = Inr (m - 4, rest)"
proof (cases "19 \<le> m")
  case True
  then have "min 15 (m - 4) = 15" by simp
  then show ?thesis using True by (simp add: lz4_read_len_def read_len_ext)
qed (auto simp: lz4_read_len_def)

lemma token_nibbles:
  assumes "4 \<le> m"
  shows "unat (drop_bit 4 (lz4_token l m)) = min 15 l" and "unat (lz4_token l m AND 0x0f) = min 15 (m - 4)"
proof -
  have "lz4_token l m = of_nat (push_bit 4 (min 15 l) OR min 15 (m - 4))"
    using assms by (auto simp: lz4_token_def min_def)
  then show "unat (drop_bit 4 (lz4_token l m)) = min 15 l" and "unat (lz4_token l m AND 0x0f) = min 15 (m - 4)"
    using nibbles [of "min 15 l" "min 15 (m - 4)"] by simp_all
qed

lemma decode_sequence:
  assumes m: "4 \<le> m" and o: "0 < ofs" "ofs < 65536" "ofs \<le> length (dst @ lits)"
  shows "lz4_decode_loop (lz4_sequence lits ofs m @ rest) dst
    = lz4_decode_loop rest (copy_loop (dst @ lits) (length (dst @ lits) - ofs) m)"
  using m o by (simp add: lz4_sequence_def token_nibbles read_literals read_match offset_bytes)

lemma decode_last: "lz4_decode_loop (lz4_last lits) dst = Inr (dst @ lits)"
proof -
  have "lz4_last lits = of_nat (push_bit 4 (min 15 (length lits)) OR 0) # lz4_literals lits"
    by (auto simp: lz4_last_def min_def)
  then show ?thesis
    using nibbles(1) [of "min 15 (length lits)" 0] read_literals [of _ lits "[]"] by simp
qed

interpretation lz4: lz_format 65550 lz4_sequence lz4_decode_loop "\<lambda>_ _. True"
  by unfold_locales (simp_all add: decode_sequence)

lemma lz4_block_roundtrip: "lz4_decode_loop (lz4BlockEncode src) [] = Inr src"
proof -
  obtain out lit where e: "lz_loop lz4_pos 65550 lz4_sequence src 0 0 (\<lambda>_. -1) [] = (out, lit)" by fastforce
  from lz4.whole_decodes [OF _ this] show ?thesis by (simp add: lz4BlockEncode_def e decode_last)
qed

lemma PutUint32_not_Nil [simp]: "PutUint32 w \<noteq> []"
  by (metis length_PutUint(2) list.size(3) zero_neq_numeral)

lemma lz4_frame_roundtrip:
  assumes "length src < 2 ^ 32" and "length (lz4BlockEncode src) < 2 ^ 32"
  shows "lz4BlockDecompress (lz4BlockCompress src) = Inr src"
proof (cases "src = []")
  case False
  have "unat (of_nat n :: 32 word) = n" if "n < 2 ^ 32" for n using that by (simp add: unat_of_nat)
  with assms False show ?thesis
    by (simp add: lz4BlockCompress_def lz4BlockDecompress_def Let_def lz4BlockDecode_def lz4_block_roundtrip)
qed (simp add: lz4BlockCompress_def lz4BlockDecompress_def)

text \<open>
  C25.  LZ4 gives back what it was given: decompressing a compressed block returns the
  original bytes, for every input whose lengths fit the frame's 32-bit fields.
\<close>

theorem lz4_roundtrip:
  assumes "length src < 2 ^ 32" and "length (lz4BlockEncode src) < 2 ^ 32"
  shows "lz4BlockDecompress (lz4BlockCompress src) = Inr src"
  using assms by (rule lz4_frame_roundtrip)

theorem lz4_roundtrip_witness:
  "lz4BlockDecompress (lz4BlockCompress [1, 2, 3, 4, 1, 2, 3, 4, 1, 2]) = Inr [1, 2, 3, 4, 1, 2, 3, 4, 1, 2]
    \<and> lz4BlockEncode [1, 2, 3, 4, 1, 2, 3, 4, 1, 2] = [66, 1, 2, 3, 4, 4, 0, 0]"
proof -
  have "lz4BlockEncode [1, 2, 3, 4, 1, 2, 3, 4, 1, 2] = [66, 1, 2, 3, 4, 4, 0, 0]" by code_simp
  then show ?thesis using lz4_roundtrip [of "[1, 2, 3, 4, 1, 2, 3, 4, 1, 2]"] by simp
qed

end
