(* ===== verification/Snappy.thy ===== *)
theory Snappy
  imports Compression
begin

text \<open>
  The Snappy variant of \<^verbatim>\<open>src/pkg/protocol/compression.go\<close> and the dispatch on the codec of a
  batch.  The block decoder works on the input that is left.
\<close>

subsection \<open>Encoder\<close>

definition appendSnappyLiteral :: "bytes \<Rightarrow> bytes" where
  "appendSnappyLiteral src =
     (let n = int (length src)
      in (if n < 60 then [push_bit 2 (of_int (n - 1))]
          else if n < 256 then [push_bit 2 60, of_int (n - 1)]
          else if n < 65536 then [push_bit 2 61, of_int (n - 1), of_int (drop_bit 8 (n - 1))]
          else [push_bit 2 62, of_int (n - 1), of_int (drop_bit 8 (n - 1)), of_int (drop_bit 16 (n - 1)),
                of_int (drop_bit 24 (n - 1))]) @ src)"

definition snappy_pos :: "bytes \<Rightarrow> nat \<Rightarrow> 32 word" where
  "snappy_pos src i = drop_bit 15 (word4 src i * 0x1e35a7bd) AND 0x3fff"

definition snappy_copy_tag :: "nat \<Rightarrow> nat \<Rightarrow> bytes" where
  "snappy_copy_tag offset matchLen =
     (let ofs = offset - 1
      in if ofs \<le> 511 \<and> matchLen < 12
         then [push_bit 2 (of_nat (matchLen - 4)) OR 1 OR push_bit 5 (of_nat (drop_bit 8 ofs)), of_nat ofs]
         else [push_bit 2 (of_nat (matchLen - 1)) OR 2, of_nat ofs, of_nat (drop_bit 8 ofs)])"

definition snappy_emit :: "bytes \<Rightarrow> nat \<Rightarrow> nat \<Rightarrow> bytes" where
  "snappy_emit lits offset matchLen =
     (if lits \<noteq> [] then appendSnappyLiteral lits else []) @ snappy_copy_tag offset matchLen"

definition snappyBlockEncode :: "bytes \<Rightarrow> bytes" where
  "snappyBlockEncode src =
     (case lz_loop snappy_pos 64 snappy_emit src 0 0 (\<lambda>_. -1) [] of
        (out, litStart) \<Rightarrow> out @ (let lits = drop litStart src in if lits \<noteq> [] then appendSnappyLiteral lits else []))"

definition snappyEncode :: "bytes \<Rightarrow> bytes" where
  "snappyEncode src =
     (if length src \<le> 4 then PutUint32 (of_nat (length src)) @ appendSnappyLiteral src
      else let encoded = snappyBlockEncode src in PutUint32 (of_nat (length encoded)) @ encoded)"

subsection \<open>Decoder\<close>

definition snappyCopy :: "bytes \<Rightarrow> nat \<Rightarrow> nat \<Rightarrow> bytes res" where
  "snappyCopy dst offset n =
     (if offset = 0 \<or> offset > length dst then Inl SnappyInvalidOffset
      else Inr (copy_loop dst (length dst - offset) n))"

fun le_bytes :: "bytes \<Rightarrow> nat" where
  "le_bytes [] = 0"
| "le_bytes (b # bs) = unat b OR push_bit 8 (le_bytes bs)"

definition snappy_literal :: "nat \<Rightarrow> bytes \<Rightarrow> (bytes \<times> bytes) res" where
  "snappy_literal len0 rest =
     (let n = len0 - 59
      in if 60 \<le> len0 \<and> n > length rest then Inl SnappyLiteralLengthOverrun
         else let (len, rest') = (if 60 \<le> len0 then (le_bytes (take n rest) + 1, drop n rest) else (len0 + 1, rest))
              in if len > length rest' then Inl SnappyLiteralOverrun
                 else Inr (take len rest', drop len rest'))"

definition snappy_back :: "byte \<Rightarrow> bytes \<Rightarrow> (nat \<times> nat \<times> bytes) res" where
  "snappy_back tag rest =
     (if tag AND 3 = 1 then
        (case rest of
           lo # r \<Rightarrow> Inr ((unat lo OR push_bit 3 (unat (tag AND 0xe0))) + 1, 4 + unat (drop_bit 2 tag), r)
         | [] \<Rightarrow> Inl SnappyCopyOverrun)
      else let k = (if tag AND 3 = 2 then 2 else 4)
           in if k > length rest then Inl SnappyCopyOverrun
              else Inr (le_bytes (take k rest) + 1, 1 + unat (drop_bit 2 tag), drop k rest))"

lemma snappy_literal_shorter: "snappy_literal n rest = Inr (lits, r) \<Longrightarrow> length r \<le> length rest"
  by (auto simp: snappy_literal_def Let_def split: if_splits)

lemma snappy_back_shorter: "snappy_back tag rest = Inr (o', n, r) \<Longrightarrow> length r \<le> length rest"
  by (auto simp: snappy_back_def Let_def split: if_splits list.splits)

function snappyBlockDecode :: "bytes \<Rightarrow> bytes \<Rightarrow> bytes res" where
  "snappyBlockDecode [] dst = Inr dst"
| "snappyBlockDecode (tag # rest) dst =
     (if tag AND 3 = 0 then
        (case snappy_literal (unat (drop_bit 2 tag)) rest of
           Inl e \<Rightarrow> Inl e
         | Inr (lits, r) \<Rightarrow> snappyBlockDecode r (dst @ lits))
      else
        (case snappy_back tag rest of
           Inl e \<Rightarrow> Inl e
         | Inr (offset, n, r) \<Rightarrow>
             (case snappyCopy dst offset n of Inl e \<Rightarrow> Inl e | Inr dst' \<Rightarrow> snappyBlockDecode r dst')))"
  by pat_completeness auto
termination
  by (relation "measure (\<lambda>(src, dst). length src)")
    (auto dest: snappy_literal_shorter snappy_back_shorter intro: le_imp_less_Suc)

definition snappyDecode :: "bytes \<Rightarrow> bytes res" where
  "snappyDecode src =
     (if length src < 4 then (if src = [] then Inr [] else Inl SnappyMissingPrefix)
      else if unat (Uint32 src) \<noteq> length src - 4 then Inl SnappyLengthMismatch
      else snappyBlockDecode (drop 4 src) [])"

subsection \<open>The codec of a batch\<close>

definition CompressionCodec :: "int16 \<Rightarrow> int16" where
  "CompressionCodec attr = attr AND 7"

definition CompressRecordBatch ::
  "(bytes \<Rightarrow> bytes res) \<Rightarrow> bytes \<Rightarrow> int16 \<Rightarrow> int16 \<Rightarrow> (bytes \<times> int16) res" where
  "CompressRecordBatch gzip records codec attr =
     (let clear = attr AND NOT 7
      in if codec = 0 then Inr (records, clear)
         else if codec = 1 then res_bind (gzip records) (\<lambda>out. Inr (out, clear OR 1))
         else if codec = 2 then Inr (snappyEncode records, clear OR 2)
         else if codec = 3 then Inr (lz4BlockCompress records, clear OR 3)
         else Inl ErrUnsupportedCompression)"

definition DecompressRecordBatch :: "(bytes \<Rightarrow> bytes res) \<Rightarrow> bytes \<Rightarrow> int16 \<Rightarrow> bytes res" where
  "DecompressRecordBatch gunzip records attr =
     (let codec = CompressionCodec attr
      in if codec = 0 then Inr records
         else if codec = 1 then gunzip records
         else if codec = 2 then snappyDecode records
         else if codec = 3 then lz4BlockDecompress records
         else Inl ErrUnsupportedCompression)"

subsection \<open>Literals and near copies decode\<close>

lemma tag_table:
  "list_all (\<lambda>k. list_all (\<lambda>j. (push_bit 2 (of_nat k :: byte) OR j) AND 3 = j
     \<and> unat (drop_bit 2 (push_bit 2 (of_nat k :: byte) OR j)) = k) [0, 1, 2]) [0..<64]"
  by code_simp

lemma tag_fields:
  assumes "k < 64" and "j \<in> {0, 1, 2}"
  shows "(push_bit 2 (of_nat k :: byte) OR j) AND 3 = j" and "unat (drop_bit 2 (push_bit 2 (of_nat k :: byte) OR j)) = k"
  using tag_table assms unfolding list_all_iff set_upt by fastforce+

lemma near_tag: "j < 8 \<Longrightarrow> (push_bit 2 (of_nat j) OR 1 :: byte) AND 0xe0 = 0"
proof -
  have "list_all (\<lambda>j. (push_bit 2 (of_nat j) OR 1 :: byte) AND 0xe0 = 0) [0..<8]" by code_simp
  then show "j < 8 \<Longrightarrow> (push_bit 2 (of_nat j) OR 1 :: byte) AND 0xe0 = 0"
    unfolding list_all_iff set_upt by simp
qed

lemma far_tag:
  fixes j defines "t \<equiv> push_bit 2 (of_nat j :: byte) OR 1 OR push_bit 5 1"
  assumes "j < 8"
  shows "t AND 3 = 1" and "unat (drop_bit 2 t) = j + 8" and "unat (t AND 0xe0) = 32"
proof -
  have "list_all (\<lambda>j. let t = push_bit 2 (of_nat j :: byte) OR 1 OR push_bit 5 1
      in t AND 3 = 1 \<and> unat (drop_bit 2 t) = j + 8 \<and> unat (t AND 0xe0) = 32) [0..<8]" by code_simp
  then have "t AND 3 = 1 \<and> unat (drop_bit 2 t) = j + 8 \<and> unat (t AND 0xe0) = 32"
    using assms(2) unfolding list_all_iff set_upt Let_def t_def by (auto simp del: drop_bit_push_bit drop_bit_or)
  then show "t AND 3 = 1" and "unat (drop_bit 2 t) = j + 8" and "unat (t AND 0xe0) = 32" by simp_all
qed

lemma le_two: "k < 65536 \<Longrightarrow> le_bytes [of_nat k, of_nat (drop_bit 8 k)] = k"
  using offset_bytes [of k] by simp

lemma le_one: "k < 256 \<Longrightarrow> le_bytes [of_nat k] = k"
  by (simp add: unat_of_nat)

lemma appendSnappyLiteral_nat:
  assumes "lits \<noteq> []"
  defines "k \<equiv> length lits - 1"
  shows "appendSnappyLiteral lits =
    (if k < 59 then [push_bit 2 (of_nat k)]
     else if k < 255 then [push_bit 2 60, of_nat k]
     else if k < 65535 then [push_bit 2 61, of_nat k, of_nat (drop_bit 8 k)]
     else [push_bit 2 62, of_nat k, of_nat (drop_bit 8 k), of_nat (drop_bit 16 k), of_nat (drop_bit 24 k)]) @ lits"
proof -
  have "int (length lits) - 1 = int k" using assms by (cases lits) simp_all
  then show ?thesis
    using assms by (auto simp: appendSnappyLiteral_def Let_def drop_bit_of_nat simp del: of_nat_diff)
qed

lemma literal_short:
  "k < 60 \<Longrightarrow> snappyBlockDecode (push_bit 2 (of_nat k) # rest) dst
     = (if k + 1 > length rest then Inl SnappyLiteralOverrun else snappyBlockDecode (drop (k + 1) rest) (dst @ take (k + 1) rest))"
  using tag_fields [of k 0] by (simp add: snappy_literal_def Let_def)

lemma literal_long:
  assumes "60 \<le> t" and "t < 64" and "length ext = t - 59"
  shows "snappyBlockDecode (push_bit 2 (of_nat t) # ext @ rest) dst
     = (if le_bytes ext + 1 > length rest then Inl SnappyLiteralOverrun
        else snappyBlockDecode (drop (le_bytes ext + 1) rest) (dst @ take (le_bytes ext + 1) rest))"
  using tag_fields [of t 0] assms by (simp add: snappy_literal_def Let_def)

lemma decode_literal:
  assumes "lits \<noteq> []" and "length lits < 65536"
  shows "snappyBlockDecode (appendSnappyLiteral lits @ rest) dst = snappyBlockDecode rest (dst @ lits)"
proof -
  define k where "k = length lits - 1"
  have len: "length lits = k + 1" and k: "k < 65535" using assms by (cases lits; simp add: k_def)+
  consider "k < 59" | "59 \<le> k" "k < 255" | "255 \<le> k" "k < 65535" using k by linarith
  then show ?thesis
  proof cases
    case 1
    then show ?thesis using assms(1) len by (simp add: appendSnappyLiteral_nat literal_short del: snappyBlockDecode.simps)
  next
    case 2
    then show ?thesis
      using assms(1) len literal_long [of 60 "[of_nat k]" "lits @ rest" dst] le_one [of k]
      by (simp add: appendSnappyLiteral_nat del: snappyBlockDecode.simps le_bytes.simps)
  next
    case 3
    then show ?thesis
      using assms(1) len literal_long [of 61 "[of_nat k, of_nat (drop_bit 8 k)]" "lits @ rest" dst] le_two [of k]
      by (simp add: appendSnappyLiteral_nat del: snappyBlockDecode.simps le_bytes.simps)
  qed
qed

lemma decode_two_byte:
  assumes "t AND 3 = 1" and "unat (drop_bit 2 t) = n" and "(unat lo OR push_bit 3 (unat (t AND 0xe0))) + 1 = ofs"
    and "ofs \<le> length dst"
  shows "snappyBlockDecode (t # lo # rest) dst = snappyBlockDecode rest (copy_loop dst (length dst - ofs) (4 + n))"
  using assms by (auto simp: snappy_back_def snappyCopy_def)

lemma decode_three_byte:
  assumes "t AND 3 = 2" and "unat (drop_bit 2 t) = n" and "le_bytes [lo, hi] + 1 = ofs" and "ofs \<le> length dst"
  shows "snappyBlockDecode (t # lo # hi # rest) dst = snappyBlockDecode rest (copy_loop dst (length dst - ofs) (1 + n))"
  using assms by (auto simp: snappy_back_def snappyCopy_def Let_def simp del: le_bytes.simps)

text \<open>A short match at a distance of at most 256, and any match written with three bytes.\<close>

lemma decode_copy:
  assumes m: "4 \<le> m" "m \<le> 64" and ofs: "0 < ofs" "ofs \<le> length dst" "ofs \<le> 65535"
    and near: "m < 12 \<longrightarrow> ofs \<le> 256 \<or> 512 < ofs"
  shows "snappyBlockDecode (snappy_copy_tag ofs m @ rest) dst = snappyBlockDecode rest (copy_loop dst (length dst - ofs) m)"
proof (cases "ofs - 1 \<le> 511 \<and> m < 12")
  case True
  then have "ofs - 1 < 256" using near ofs by auto
  then have k: "unat (of_nat (ofs - 1) :: byte) = ofs - 1" "drop_bit 8 (ofs - 1) = 0"
    by (simp_all add: unat_of_nat drop_bit_eq_div)
  define t :: byte where "t = push_bit 2 (of_nat (m - 4)) OR 1"
  have "t AND 3 = 1" "unat (drop_bit 2 t) = m - 4" "t AND 0xe0 = 0"
    unfolding t_def using True m tag_fields [of "m - 4" 1] near_tag [of "m - 4"] by auto
  with decode_two_byte [of t "m - 4" "of_nat (ofs - 1)" ofs dst rest] k ofs m
  have "snappyBlockDecode (t # of_nat (ofs - 1) # rest) dst = snappyBlockDecode rest (copy_loop dst (length dst - ofs) m)"
    by (simp del: snappyBlockDecode.simps of_nat_diff)
  with True k show ?thesis by (simp add: snappy_copy_tag_def Let_def t_def del: snappyBlockDecode.simps of_nat_diff)
next
  case False
  define t :: byte where "t = push_bit 2 (of_nat (m - 1)) OR 2"
  have "t AND 3 = 2" "unat (drop_bit 2 t) = m - 1"
    unfolding t_def using m tag_fields [of "m - 1" 2] by auto
  with decode_three_byte [of t "m - 1" "of_nat (ofs - 1)" "of_nat (drop_bit 8 (ofs - 1))" ofs dst rest]
    le_two [of "ofs - 1"] ofs m
  have "snappyBlockDecode (t # of_nat (ofs - 1) # of_nat (drop_bit 8 (ofs - 1)) # rest) dst
      = snappyBlockDecode rest (copy_loop dst (length dst - ofs) m)"
    by (simp del: snappyBlockDecode.simps le_bytes.simps of_nat_diff)
  with False show ?thesis by (auto simp: snappy_copy_tag_def Let_def t_def simp del: snappyBlockDecode.simps of_nat_diff)
qed

interpretation snappy: lz_format 64 snappy_emit snappyBlockDecode "\<lambda>l ofs. l < 65536 \<and> ofs \<le> 256"
proof
  fix lits dst rest :: bytes and ofs m
  assume "length lits < 65536 \<and> ofs \<le> 256" and "4 \<le> m" and "int m \<le> 64" and "0 < ofs"
    and "ofs \<le> 65535" and "ofs \<le> length (dst @ lits)"
  then show "snappyBlockDecode (snappy_emit lits ofs m @ rest) dst
      = snappyBlockDecode rest (copy_loop (dst @ lits) (length (dst @ lits) - ofs) m)"
    using decode_copy [of m ofs "dst @ lits" rest] by (cases "lits = []") (simp_all add: snappy_emit_def decode_literal)
qed simp

lemma snappy_block_roundtrip:
  assumes "length src \<le> 260"
  shows "snappyBlockDecode (snappyBlockEncode src) [] = Inr src"
proof -
  obtain out lit where e: "lz_loop snappy_pos 64 snappy_emit src 0 0 (\<lambda>_. -1) [] = (out, lit)" by fastforce
  have "\<forall>l ofs. l + 4 \<le> length src \<and> ofs + 4 \<le> length src \<longrightarrow> l < 65536 \<and> ofs \<le> 256" using assms by auto
  note dec = snappy.whole_decodes [OF this e]
  show ?thesis
  proof (cases "drop lit src = []")
    case True
    with dec(1) [of "[]"] show ?thesis by (simp add: snappyBlockEncode_def e)
  next
    case False
    with dec(1) [of "appendSnappyLiteral (drop lit src)"] decode_literal [OF False, of "[]" "take lit src"] assms
    show ?thesis by (simp add: snappyBlockEncode_def e)
  qed
qed

text \<open>
  Snappy gives back sources of 5 to 260 bytes, and nothing shorter: what it writes for
  a source of at most four bytes is always refused by its own decoder, because the prefix
  counts the source instead of the block.
\<close>

theorem snappy_roundtrip:
  assumes "length src \<le> 260" and "length (snappyBlockEncode src) < 2 ^ 32"
  shows "snappyDecode (snappyEncode src) = (if length src \<le> 4 then Inl SnappyLengthMismatch else Inr src)"
proof (cases "length src \<le> 4")
  case True
  have "length (appendSnappyLiteral src) = length src + 1" using True by (simp add: appendSnappyLiteral_def Let_def)
  with True show ?thesis by (simp add: snappyEncode_def snappyDecode_def unat_of_nat)
next
  case False
  with assms show ?thesis
    by (simp add: snappyEncode_def snappyDecode_def Let_def unat_of_nat snappy_block_roundtrip)
qed

text \<open>
  A short match more than 256 bytes back is decoded wrongly: the decoder reads the two
  distance bits of the tag as part of the length, so it copies eight bytes too many.
\<close>

theorem snappy_far_match:
  assumes "4 \<le> m" and "m < 12" and "256 < ofs" and "ofs \<le> 512" and "ofs \<le> length dst"
  shows "snappyBlockDecode (snappy_copy_tag ofs m) dst = Inr (copy_loop dst (length dst - ofs) (m + 8))"
proof -
  have j: "m - 4 < 8" using assms(1,2) by auto
  have d: "drop_bit 8 (ofs - 1) = 1" using assms(3,4) by (simp add: drop_bit_eq_div)
  define t :: byte where "t = push_bit 2 (of_nat (m - 4)) OR 1 OR push_bit 5 1"
  note t = far_tag [OF j, folded t_def]
  have "unat (of_nat (ofs - 1) :: byte) OR push_bit 3 (32 :: nat) = ofs - 1"
    using offset_bytes [of "ofs - 1"] assms(3,4) d by (simp add: push_bit_eq_mult)
  then have o: "(unat (of_nat (ofs - 1) :: byte) OR push_bit 3 (unat (t AND 0xe0))) + 1 = ofs"
    unfolding t(3) using assms(3) by simp
  have "snappy_copy_tag ofs m = [t, of_nat (ofs - 1)]"
    using assms(2-4) d by (simp add: snappy_copy_tag_def t_def Let_def)
  then show ?thesis
    using decode_two_byte [OF t(1,2) o assms(5), of "[]"] assms(1) by (simp add: add.commute del: snappyBlockDecode.simps(2))
qed

theorem snappy_roundtrip_witness:
  "snappyDecode (snappyEncode [1, 2, 3, 4, 1, 2, 3, 4, 1, 2]) = Inr [1, 2, 3, 4, 1, 2, 3, 4, 1, 2]
    \<and> snappyDecode (snappyEncode [1, 2, 3]) = Inl SnappyLengthMismatch"
proof -
  have "length (snappyBlockEncode [1, 2, 3, 4, 1, 2, 3, 4, 1, 2]) = 7" "length (snappyBlockEncode [1, 2, 3]) = 4"
    by code_simp+
  then show ?thesis
    using snappy_roundtrip [of "[1, 2, 3, 4, 1, 2, 3, 4, 1, 2]"] snappy_roundtrip [of "[1, 2, 3]"] by simp
qed

theorem snappy_far_match_witness:
  "snappyBlockDecode (snappy_copy_tag 300 4) (replicate 300 7) = Inr (copy_loop (replicate 300 7) 0 12)"
  using snappy_far_match [of 4 300 "replicate 300 7"] by simp

end
