(* ===== verification/Produce_Path.thy ===== *)
theory Produce_Path
  imports Idempotence Snappy
begin

text \<open>
  The way of a message into the log: the client's producer builds a batch
  (\<^verbatim>\<open>src/pkg/client/producer.go\<close>), the broker's handler unpacks it when it is compressed and
  appends it (\<^verbatim>\<open>src/internal/handler/handler.go\<close>).  The clock is a parameter.  Go iterates over
  the headers of a message in any order; a message here has them as a list.
\<close>

subsection \<open>The producer of the client\<close>

record Message =
  msg_Key :: "bytes option"
  msg_Value :: "bytes option"
  msg_Headers :: "RecordHeader list"

record Producer =
  producerID :: int64
  producerEpoch :: int16
  sequence :: int32
  idempotent :: bool

definition message_record :: "nat \<Rightarrow> Message \<Rightarrow> Record" where
  "message_record i m = \<lparr>rec_Attributes = 0, TimestampDelta = 0, OffsetDelta = of_nat i,
     Key = msg_Key m, Value = msg_Value m, Headers = msg_Headers m\<rparr>"

definition producer_batch :: "int64 \<Rightarrow> Producer \<Rightarrow> Message list \<Rightarrow> RecordBatch" where
  "producer_batch now p msgs =
     \<lparr>BaseOffset = 0, PartitionLeaderEpoch = 0, Magic = 0, CRC = 0, rb_Attributes = 0, LastOffsetDelta = 0,
      BaseTimestamp = now, MaxTimestamp = now,
      ProducerID = (if idempotent p then producerID p else -1),
      ProducerEpoch = (if idempotent p then producerEpoch p else -1),
      BaseSequence = (if idempotent p then sequence p else -1),
      Records = map2 message_record [0..<length msgs] msgs\<rparr>"

definition encodeBatch :: "int64 \<Rightarrow> Producer \<Rightarrow> Message list \<Rightarrow> bytes res \<times> Producer" where
  "encodeBatch now p msgs =
     (res_bind (EncodeRecordBatch (producer_batch now p msgs)) (\<lambda>(raw, _). Inr raw),
      if idempotent p then p\<lparr>sequence := sequence p + of_nat (length msgs)\<rparr> else p)"

subsection \<open>The handler\<close>

fun rebuild_loop :: "nat \<Rightarrow> bytes \<Rightarrow> Record list res" where
  "rebuild_loop 0 rest = Inr []"
| "rebuild_loop (Suc k) rest =
     (if rest = [] then Inr []
      else case Varint rest of
             None \<Rightarrow> Inr []
           | Some (len, n) \<Rightarrow>
               (if sint len < 0 \<or> s64 (int n + sint len) > int (length rest) then Inr []
                else if s64 (int n + sint len) < 0 then Inl Panic
                else let m = nat (s64 (int n + sint len))
                     in (case DecodeRecordBytes (take m rest) of
                           Inl e \<Rightarrow> (if e = Panic then Inl Panic else Inr [])
                         | Inr (rec, _) \<Rightarrow> res_bind (rebuild_loop k (drop m rest)) (\<lambda>rs. Inr (rec # rs)))))"

definition rebuildBatch :: "bytes \<Rightarrow> bytes \<Rightarrow> bytes res" where
  "rebuildBatch raw records =
     (if length records < 4 then Inr raw
      else let count = Uint32 (slice 57 61 raw)
           in if sint count < 0 then Inl Panic
              else res_bind (rebuild_loop (nat (sint count)) records) (\<lambda>decoded.
                     if decoded = [] then Inr raw
                     else res_bind (EncodeRecordBatch
                            \<lparr>BaseOffset = 0, PartitionLeaderEpoch = Uint32 (slice 12 16 raw), Magic = 0, CRC = 0,
                             rb_Attributes = Uint16 (slice 21 23 raw) AND NOT 7,
                             LastOffsetDelta = Uint32 (slice 23 27 raw),
                             BaseTimestamp = Uint64 (slice 27 35 raw), MaxTimestamp = Uint64 (slice 35 43 raw),
                             ProducerID = Uint64 (slice 43 51 raw), ProducerEpoch = Uint16 (slice 51 53 raw),
                             BaseSequence = Uint32 (slice 53 57 raw), Records = decoded\<rparr>)
                            (\<lambda>(out, _). Inr out)))"

definition unpack_batch :: "(bytes \<Rightarrow> bytes res) \<Rightarrow> bytes \<Rightarrow> bytes res" where
  "unpack_batch gunzip raw =
     (let attr = Uint16 (slice 21 23 raw)
      in if CompressionCodec attr \<noteq> 0
         then res_bind (DecompressRecordBatch gunzip (drop 61 raw) attr) (rebuildBatch raw)
         else Inr raw)"

definition appendToPartition ::
  "(bytes \<Rightarrow> bytes res) \<Rightarrow> int \<Rightarrow> Partition \<Rightarrow> bytes \<Rightarrow> bool \<Rightarrow> int res \<times> Partition" where
  "appendToPartition gunzip now p raw0 sync =
     (if length raw0 < 61 then (Inl BatchTooShort, p)
      else case unpack_batch gunzip raw0 of
             Inl e \<Rightarrow> (Inl e, p)
           | Inr raw \<Rightarrow>
               (case DecodeRecordBatch raw of
                  Inl e \<Rightarrow> (Inl e, p)
                | Inr batch \<Rightarrow>
                    if 0 \<le> sint (ProducerID batch)
                    then AppendIdempotentSynced now p (ProducerID batch) (ProducerEpoch batch) (BaseSequence batch) raw sync
                    else append_fn now raw sync p))"

subsection \<open>From messages to the log and back\<close>

lemma filled_fields [simp]:
  "rb_Attributes (filled b) = rb_Attributes b" "ProducerID (filled b) = ProducerID b"
  "ProducerEpoch (filled b) = ProducerEpoch b" "BaseSequence (filled b) = BaseSequence b"
  "PartitionLeaderEpoch (filled b) = PartitionLeaderEpoch b" "BaseTimestamp (filled b) = BaseTimestamp b"
  "MaxTimestamp (filled b) = MaxTimestamp b"
  by (simp_all add: filled_def encode_batch_def Let_def)

text \<open>The last offset delta the encoder leaves, as a number.\<close>

lemma encode_batch_wf:
  assumes "batch_fits b" and "0 \<le> sint (LastOffsetDelta (filled b))"
  shows "wf_batch (fst (encode_batch b))" and "fst (encode_batch b) ! 16 = 2"
  using assms
  by (simp_all add: wf_batch_def batch_length_field_def batch_delta_def encoded_fields length_encode_batch
      batch_length RecordMagic_def)

lemma batch_delta_encode: "batch_delta (fst (encode_batch b)) = sint (LastOffsetDelta (filled b))"
  by (simp add: batch_delta_def encoded_fields)

lemma decode_set_base:
  assumes "61 \<le> length raw" and "DecodeRecordBatch raw = Inr b"
  shows "DecodeRecordBatch (set_base n raw) = Inr (b\<lparr>BaseOffset := word_of_int n\<rparr>)"
proof -
  have s: "slice a c (set_base n raw) = slice a c raw" if "8 \<le> a" for a c
    using that assms(1) by (simp add: set_base_def slice_def)
  moreover have "slice 0 8 (set_base n raw) = PutUint64 (word_of_int n)" by (simp add: set_base_def slice_def)
  moreover have "set_base n raw ! 16 = raw ! 16" "drop 61 (set_base n raw) = drop 61 raw"
    using assms(1) by (simp_all add: set_base_def nth_append)
  ultimately show ?thesis
    using assms(2) assms(1)
    by (auto simp: DecodeRecordBatch_def Let_def set_base_fields res_bind_eq_Inr split: if_splits)
qed

text \<open>A synced append satisfies the contract of the log as well.\<close>

lemma seg_ok_sync: "seg_ok (seg_sync now s) bs \<longleftrightarrow> seg_ok s bs"
  by (simp add: seg_sync_def seg_ok_def split: option.splits)

lemma seg_sync_keeps [simp]:
  "sg_baseOffset (seg_sync now s) = sg_baseOffset s" "sg_nextOffset (seg_sync now s) = sg_nextOffset s"
  "sg_maxSegmentBytes (seg_sync now s) = sg_maxSegmentBytes s" "sg_indexInterval (seg_sync now s) = sg_indexInterval s"
  by (simp_all add: seg_sync_def split: option.splits)

lemma chained_last: "chained (xs @ [s]) \<longleftrightarrow> chained xs \<and> (xs \<noteq> [] \<longrightarrow> sg_baseOffset s = sg_nextOffset (last xs))"
  by (simp add: chained_append)

lemma list_all2_snoc: "list_all2 P (xs @ [x]) ys \<longleftrightarrow> (\<exists>ys' y. ys = ys' @ [y] \<and> list_all2 P xs ys' \<and> P x y)"
proof
  assume "list_all2 P (xs @ [x]) ys"
  then show "\<exists>ys' y. ys = ys' @ [y] \<and> list_all2 P xs ys' \<and> P x y" by (auto simp: list_all2_append1 list_all2_Cons1)
qed (auto intro: list_all2_appendI)

lemma part_Sync_ok: "part_ok p bss \<Longrightarrow> part_ok (part_Sync now p) bss"
  by (simp add: part_Sync_def part_ok_def orderedSegments_def list_all2_snoc seg_ok_sync chained_last)

lemma part_Sync_keeps [simp]:
  "p_nextOffset (part_Sync now p) = p_nextOffset p" "p_maxSegmentBytes (part_Sync now p) = p_maxSegmentBytes p"
  "log_start (part_Sync now p) = log_start p" "p_idempotence (part_Sync now p) = p_idempotence p"
  by (auto simp: part_Sync_def log_start_def orderedSegments_def hd_append)

lemma part_Sync_holds: "part_holds p bs \<Longrightarrow> part_holds (part_Sync now p) bs"
  by (auto simp: part_holds_def intro: part_Sync_ok)

interpretation synced_log: batch_log part_holds log_start p_nextOffset fits
  "\<lambda>p raw. AppendSynced now p raw sync" part_fetch for now sync
proof
  fix p bs raw
  assume "part_holds p bs" and "fits p raw"
  from part_log.app_law [OF this]
  show "\<exists>p'. AppendSynced now p raw sync = (Inr (p_nextOffset p, set_base (p_nextOffset p) raw), p')
      \<and> part_holds p' (bs @ [set_base (p_nextOffset p) raw])
      \<and> p_nextOffset p' = p_nextOffset p + batch_delta raw + 1 \<and> log_start p' = log_start p"
    by (auto simp: AppendSynced_def part_Sync_holds)
qed (rule part_log.log_law part_log.rd_law, assumption+)+

text \<open>Room in a partition for \<open>k\<close> records in \<open>n\<close> bytes.\<close>

definition room :: "Partition \<Rightarrow> int \<Rightarrow> int \<Rightarrow> bool" where
  "room p k n \<longleftrightarrow> p_nextOffset p < 2 ^ 62 \<and> p_maxSegmentBytes p + n < 2 ^ 31
     \<and> (if seg_full (p_activeSegment p) then k < 2 ^ 31
        else p_nextOffset p + k - sg_baseOffset (p_activeSegment p) < 2 ^ 31)"

lemma fits_room:
  "wf_batch raw \<Longrightarrow> raw ! 16 = 2 \<Longrightarrow> room p (batch_delta raw + 1) (int (length raw)) \<Longrightarrow> fits p raw"
  by (auto simp: fits_def room_def split: if_splits)

text \<open>The batch of a producer.\<close>

lemma map_indexed: "map (\<lambda>x. f (snd x)) (zip [0..<length ms] ms) = map f ms"
proof -
  have "map (\<lambda>x. f (snd x)) (zip [0..<length ms] ms) = map f (map snd (zip [0..<length ms] ms))"
    by (simp only: map_map comp_def)
  also have "\<dots> = map f ms" by (simp only: map_snd_zip length_upt minus_nat.diff_0)
  finally show ?thesis .
qed

lemma producer_batch_records:
  "length (Records (producer_batch now q msgs)) = length msgs"
  "map Value (Records (producer_batch now q msgs)) = map msg_Value msgs"
  "map Key (Records (producer_batch now q msgs)) = map msg_Key msgs"
  "map Headers (Records (producer_batch now q msgs)) = map msg_Headers msgs"
  by (simp_all add: producer_batch_def message_record_def comp_def case_prod_beta map_indexed)

lemma stored_record_fields [simp]:
  "Value (stored_record r) = Value r" "Headers (stored_record r) = Headers r"
  "Key (stored_record r) = Some (obytes (Key r))"
  by (simp_all add: stored_record_def)

lemma producer_batch_delta:
  assumes "batch_fits (producer_batch now q msgs)" and "msgs \<noteq> []"
  shows "sint (LastOffsetDelta (filled (producer_batch now q msgs))) = int (length msgs) - 1"
proof -
  have "length msgs < 2 ^ 31"
    using batch_fits_parts(1) [OF assms(1)] by (simp add: short_list_def producer_batch_records)
  then have "sint (of_nat (length msgs - 1) :: int32) = int (length msgs - 1)"
    by (intro sint_of_nat_small) simp
  moreover have "LastOffsetDelta (filled (producer_batch now q msgs)) = of_nat (length msgs - 1)"
    using assms(2) by (simp add: filled_def encode_batch_def Let_def producer_batch_def)
  ultimately show ?thesis using assms(2) by (cases msgs) simp_all
qed

lemma producer_batch_wf:
  assumes "batch_fits (producer_batch now q msgs)" and "msgs \<noteq> []"
    and "room p (int (length msgs)) (int (length (fst (encode_batch (producer_batch now q msgs)))))"
  shows "fits p (fst (encode_batch (producer_batch now q msgs)))"
  using assms producer_batch_delta [OF assms(1,2)] encode_batch_wf [OF assms(1)] assms(2)
  by (intro fits_room) (auto simp: batch_delta_encode Suc_le_eq)

lemma appendToPartition_plain:
  assumes "batch_fits b" and "CompressionCodec (rb_Attributes b) = 0"
  shows "appendToPartition gunzip now p (fst (encode_batch b)) sync =
    (if 0 \<le> sint (ProducerID b)
     then AppendIdempotentSynced now p (ProducerID b) (ProducerEpoch b) (BaseSequence b) (fst (encode_batch b)) sync
     else append_fn now (fst (encode_batch b)) sync p)"
  using assms
  by (simp add: appendToPartition_def unpack_batch_def length_encode_batch encoded_fields decode_encode_batch)

lemma part_Read_of_fetch:
  assumes "part_holds p bs" and "log_start p \<le> ofs" and "ofs < p_nextOffset p" and "0 < m"
    and "\<forall>b \<in> set bs. m + int (length b) < 2 ^ 31" and "part_fetch p ofs m = Inr out"
  shows "part_Read fetch p ofs m = (Inr (out, p_nextOffset p), p)"
proof -
  from assms(1) obtain bss where bss: "part_ok p bss" "concat bss = bs" by (auto simp: part_holds_def)
  then have r: "part_Read f p ofs m = (Inr (read_spec bs ofs m, p_highWatermark p), p)" for f
    using part_Read_ok [OF bss(1) assms(2-4)] assms(5) by simp
  moreover have "p_highWatermark p = p_nextOffset p" using bss(1) by (simp add: part_ok_def)
  ultimately show ?thesis using assms(6) by (simp add: part_fetch_def)
qed

text \<open>The batch of a producer, appended and read back from the offset it got.\<close>

lemma producer_append_read:
  assumes "part_holds p bs" and "\<not> idempotent q" and "msgs \<noteq> []"
    and "batch_fits (producer_batch now q msgs)"
    and "room p (int (length msgs)) (int (length (fst (encode_batch (producer_batch now q msgs)))))"
    and "0 < m" and "m + int (length (fst (encode_batch (producer_batch now q msgs)))) < 2 ^ 31"
    and "\<forall>b \<in> set bs. m + int (length b) < 2 ^ 31"
  defines "raw \<equiv> fst (encode_batch (producer_batch now q msgs))" and "n \<equiv> p_nextOffset p"
  shows "encodeBatch now q msgs = (Inr raw, q)"
    and "\<exists>p'. appendToPartition gunzip clock p raw sync = (Inr n, p') \<and> part_holds p' (bs @ [set_base n raw])
      \<and> n < p_nextOffset p' \<and> part_fetch p' n m = Inr (set_base n raw)
      \<and> (\<forall>fetch. part_Read fetch p' n m = (Inr (set_base n raw, p_nextOffset p'), p'))"
    and "\<exists>batch. DecodeRecordBatch (set_base n raw) = Inr batch \<and> BaseOffset batch = word_of_int n
      \<and> map Value (Records batch) = map msg_Value msgs \<and> map Headers (Records batch) = map msg_Headers msgs
      \<and> map Key (Records batch) = map (Some \<circ> obytes \<circ> msg_Key) msgs"
    and "length (set_base n raw) = length raw"
proof -
  let ?b = "producer_batch now q msgs"
  show len: "length (set_base n raw) = length raw" by (simp add: set_base_fields length_encode_batch raw_def)
  show "encodeBatch now q msgs = (Inr raw, q)"
    using assms(2) by (simp add: encodeBatch_def EncodeRecordBatch_fits [OF assms(4)] case_prod_beta raw_def)
  have fits: "fits p raw" unfolding raw_def by (rule producer_batch_wf [OF assms(4,3,5)])
  from synced_log.app_law [OF assms(1) fits, of clock sync] obtain p' where
    p': "AppendSynced clock p raw sync = (Inr (n, set_base n raw), p')" "part_holds p' (bs @ [set_base n raw])"
    "p_nextOffset p' = n + batch_delta raw + 1" "log_start p' = log_start p" unfolding n_def by blast
  have big: "\<forall>b \<in> set (set_base n raw # bs). m + int (length b) < 2 ^ 31" using assms(7,8) len by (simp add: raw_def)
  have f: "part_fetch p' n m = Inr (set_base n raw)"
    by (rule synced_log.read_back [OF assms(1) fits p'(1) assms(6) big])
  have d: "batch_delta raw = int (length msgs) - 1"
    using producer_batch_delta [OF assms(4,3)] by (simp add: raw_def batch_delta_encode)
  have "log_start p \<le> n"
    using synced_log.log_law [OF assms(1)] log_end_ge [of "log_start p" bs] by (simp add: n_def)
  then have "part_Read fetch p' n m = (Inr (set_base n raw, p_nextOffset p'), p')" for fetch
    using part_Read_of_fetch [OF p'(2) _ _ assms(6) _ f] big p'(3,4) d assms(3) by simp
  moreover have "appendToPartition gunzip clock p raw sync = (Inr n, p')"
    using assms(2) appendToPartition_plain [OF assms(4)] p'(1)
    by (simp add: producer_batch_def CompressionCodec_def append_fn_def raw_def)
  ultimately show "\<exists>p'. appendToPartition gunzip clock p raw sync = (Inr n, p') \<and> part_holds p' (bs @ [set_base n raw])
      \<and> n < p_nextOffset p' \<and> part_fetch p' n m = Inr (set_base n raw)
      \<and> (\<forall>fetch. part_Read fetch p' n m = (Inr (set_base n raw, p_nextOffset p'), p'))"
    using p'(2,3) d assms(3) f by auto
  have "DecodeRecordBatch (set_base n raw)
      = Inr ((filled ?b)\<lparr>Records := map stored_record (Records ?b), BaseOffset := word_of_int n\<rparr>)"
    using decode_set_base [OF _ decode_encode_batch [OF assms(4)]] by (simp add: length_encode_batch raw_def)
  moreover have "map (\<lambda>r. Some (obytes (Key r))) (Records ?b) = map (Some \<circ> obytes) (map Key (Records ?b))" by simp
  ultimately show "\<exists>batch. DecodeRecordBatch (set_base n raw) = Inr batch \<and> BaseOffset batch = word_of_int n
      \<and> map Value (Records batch) = map msg_Value msgs \<and> map Headers (Records batch) = map msg_Headers msgs
      \<and> map Key (Records batch) = map (Some \<circ> obytes \<circ> msg_Key) msgs"
    by (simp add: producer_batch_records comp_def)
qed

text \<open>
  C5.  Messages come back.  A producer encodes messages as a batch, the broker appends it,
  and a fetch from the offset the broker returned gives a batch that decodes to the same
  messages in the same order, with that offset as its base offset; a nil key comes back as
  an empty key.
\<close>

theorem produce_consume:
  assumes "part_holds p bs" and "\<not> idempotent q" and "msgs \<noteq> []"
    and "batch_fits (producer_batch now q msgs)"
    and "room p (int (length msgs)) (int (length (fst (encode_batch (producer_batch now q msgs)))))"
    and "0 < m" and "m + int (length (fst (encode_batch (producer_batch now q msgs)))) < 2 ^ 31"
    and "\<forall>b \<in> set bs. m + int (length b) < 2 ^ 31"
  shows "\<exists>raw p' stored batch. encodeBatch now q msgs = (Inr raw, q)
    \<and> appendToPartition gunzip clock p raw sync = (Inr (p_nextOffset p), p')
    \<and> part_fetch p' (p_nextOffset p) m = Inr stored \<and> DecodeRecordBatch stored = Inr batch
    \<and> BaseOffset batch = word_of_int (p_nextOffset p)
    \<and> map Value (Records batch) = map msg_Value msgs \<and> map Headers (Records batch) = map msg_Headers msgs
    \<and> map Key (Records batch) = map (Some \<circ> obytes \<circ> msg_Key) msgs"
  using producer_append_read [OF assms] by blast

text \<open>
  C32.  The client's idempotent producer stalls.  It advances its sequence number by the
  number of records of a batch, while the broker expects the next batch to carry the next
  number: after a first batch of two or more messages has been accepted, the batch after it
  is refused as out of order, and so would be every retry of it.
\<close>

theorem idempotent_client_stalls:
  assumes "part_holds p bs" and "idempotent q" and "0 \<le> sint (producerID q)"
    and "map_of (p_idempotence p) (producerID q) = None" and "2 \<le> length msgs"
    and "sint (sequence q) + int (length msgs) < 2 ^ 31"
    and "batch_fits (producer_batch now q msgs)" and "batch_fits (producer_batch now q1 msgs')"
    and "room p (int (length msgs)) (int (length (fst (encode_batch (producer_batch now q msgs)))))"
    and "encodeBatch now q msgs = (Inr raw, q1)" and "encodeBatch now q1 msgs' = (Inr raw', q2)"
  shows "\<exists>p1. appendToPartition gunzip clock p raw sync = (Inr (p_nextOffset p), p1)
    \<and> appendToPartition gunzip later p1 raw' sync = (Inl ErrOutOfOrderSequence, p1)"
proof -
  let ?b = "producer_batch now q msgs" and ?b' = "producer_batch now q1 msgs'"
  let ?r = "\<lparr>sr_pid = producerID q, sr_epoch = producerEpoch q, sr_seq = sequence q, sr_raw = fst (encode_batch ?b), sr_sync = sync\<rparr>"
  let ?r' = "\<lparr>sr_pid = producerID q, sr_epoch = producerEpoch q, sr_seq = sequence q1, sr_raw = fst (encode_batch ?b'), sr_sync = sync\<rparr>"
  have q1: "q1 = q\<lparr>sequence := sequence q + of_nat (length msgs)\<rparr>" and raw: "raw = fst (encode_batch ?b)"
    using assms(2,7,10) by (auto simp: encodeBatch_def EncodeRecordBatch_fits case_prod_beta)
  have raw': "raw' = fst (encode_batch ?b')"
    using assms(8,11) by (auto simp: encodeBatch_def EncodeRecordBatch_fits case_prod_beta)
  have pid: "ProducerID ?b = producerID q" "ProducerEpoch ?b = producerEpoch q" "BaseSequence ?b = sequence q"
      "rb_Attributes ?b = 0" "ProducerID ?b' = producerID q" "ProducerEpoch ?b' = producerEpoch q"
      "BaseSequence ?b' = sequence q1" "rb_Attributes ?b' = 0"
    using assms(2) q1 by (simp_all add: producer_batch_def)
  have app: "appendToPartition gunzip t x raw sync = send t x ?r" "appendToPartition gunzip t x raw' sync = send t x ?r'" for t x
    using assms(3,7,8) by (simp_all add: raw raw' appendToPartition_plain pid CompressionCodec_def send_def)
  have "fits p raw" unfolding raw using assms(5) by (intro producer_batch_wf assms) auto
  from synced_log.app_law [OF assms(1) this, of clock sync] raw
  have "\<exists>p1. send clock p ?r = (Inr (p_nextOffset p), p1)"
    using assms(3,4) by (auto simp: send_def AppendIdempotentSynced_def ValidateAndAppend_def append_fn_def)
  then obtain p1 where p1: "send clock p ?r = (Inr (p_nextOffset p), p1)" ..
  have "sequence q + of_nat (length msgs) = word_of_int (sint (sequence q) + int (length msgs))" by simp
  moreover have "sint (word_of_int (sint (sequence q) + int (length msgs)) :: int32) = sint (sequence q) + int (length msgs)"
    using assms(6) sint32_bounds [of "sequence q"]
    by (simp add: signed_of_int signed_take_bit_int_eq_self del: of_int_add)
  ultimately have "sint (sequence q1) = sint (sequence q) + int (length msgs)" unfolding q1 by simp
  then have "send later p1 ?r' = (Inl ErrOutOfOrderSequence, p1)"
    using assms(3,4,5) by (intro next_batch_out_of_order [OF p1]) simp_all
  with p1 show ?thesis by (auto simp: app)
qed

subsection \<open>Compressed batches\<close>

lemma EncodeRecord_stored: "EncodeRecord (stored_record r) = EncodeRecord r"
  by (simp add: EncodeRecord_def record_body_def stored_record_def olen_def obytes_def split: option.splits)

lemma batch_records_stored [simp]: "batch_records (b\<lparr>Records := map stored_record rs\<rparr>) = concat (map EncodeRecord rs)"
  by (simp add: batch_records_def EncodeRecord_stored comp_def)

lemma rebuild_loop_EncodeRecord:
  assumes "\<forall>rec \<in> set rs. record_fits rec"
  shows "rebuild_loop (length rs) (concat (map EncodeRecord rs)) = Inr (map stored_record rs)"
  using assms
proof (induction rs)
  case (Cons rec rs)
  let ?e = "EncodeRecord rec" and ?rest = "concat (map EncodeRecord rs)"
  let ?l = "of_nat (length (record_body rec)) :: int64"
  have len: "length (record_body rec) < 2 ^ 63 - 10" using Cons.prems by (simp add: record_fits_def)
  then have v: "sint ?l = int (length (record_body rec))" by (intro sint64_of_nat) simp
  have n: "int (length (PutVarint ?l)) + sint ?l = int (length ?e)" by (simp add: EncodeRecord_def v)
  have "s64 (int (length ?e)) = int (length ?e)"
    using len length_PutVarint [of ?l] by (intro s64_id) (simp_all add: EncodeRecord_def)
  moreover have "Varint (?e @ ?rest) = Some (?l, length (PutVarint ?l))"
    using Varint_Put [of ?l "record_body rec @ ?rest"] by (simp add: EncodeRecord_def)
  moreover have "DecodeRecordBytes ?e = Inr (stored_record rec, int (length ?e))"
    using decodeRecord_EncodeRecord [of rec "[]"] Cons.prems by (simp add: DecodeRecordBytes_def)
  ultimately show ?case
    using Cons n v by (simp add: EncodeRecord_nonempty Let_def)
qed simp

text \<open>The batch a client sends when it compresses the records: same header, other attributes.\<close>

definition with_records :: "RecordBatch \<Rightarrow> bytes \<Rightarrow> int16 \<Rightarrow> bytes" where
  "with_records b recs attr =
     (let raw = fst (encode_batch b) in take 21 raw @ PutUint16 attr @ slice 23 61 raw @ recs)"

lemma slice_take: "c \<le> n \<Longrightarrow> slice a c (take n xs) = slice a c xs"
  by (simp add: slice_def drop_take min_def)

lemma slice_slice: "k \<le> a \<Longrightarrow> c \<le> d \<Longrightarrow> slice (a - k) (c - k) (slice k d xs) = slice a c xs"
  by (simp add: slice_def drop_take min_def)

lemma with_records_fields:
  fixes b recs attr defines "z \<equiv> with_records b recs attr" and "raw \<equiv> fst (encode_batch b)"
  shows "length z = 61 + length recs" and "drop 61 z = recs" and "Uint16 (slice 21 23 z) = attr"
    and "c \<le> 21 \<Longrightarrow> slice a c z = slice a c raw"
    and "23 \<le> a \<Longrightarrow> c \<le> 61 \<Longrightarrow> slice a c z = slice a c raw"
proof -
  have len: "61 \<le> length raw" by (simp add: raw_def length_encode_batch)
  have z: "z = take 21 raw @ PutUint16 attr @ slice 23 61 raw @ recs"
    by (simp add: z_def raw_def with_records_def Let_def)
  have s: "length (slice 23 61 raw) = 38" using len by (simp add: slice_def)
  show "length z = 61 + length recs" "drop 61 z = recs" "Uint16 (slice 21 23 z) = attr"
    using len s by (simp_all add: z slice_def)
  show "c \<le> 21 \<Longrightarrow> slice a c z = slice a c raw"
    using len by (simp add: z slice_take)
  show "23 \<le> a \<Longrightarrow> c \<le> 61 \<Longrightarrow> slice a c z = slice a c raw"
    using len s by (simp add: z slice_slice)
qed

lemma encode_batch_again:
  "fst (encode_batch (b\<lparr>Magic := m, CRC := c, LastOffsetDelta := LastOffsetDelta (filled b),
      Records := map stored_record (Records b)\<rparr>)) = fst (encode_batch b)"
  by (simp add: encode_batch_def filled_def Let_def batch_prefix_def batch_after_crc_def EncodeRecord_stored comp_def)

lemma codec_bits:
  fixes attr :: int16
  assumes "attr AND 7 = 0"
  shows "(attr OR 3) AND 7 = 3" and "(attr OR 3) AND NOT 7 = attr" and "attr AND NOT 7 = attr"
proof -
  have masks: "(7 :: int16) = mask 3" "(3 :: int16) = mask 2" by (simp_all add: mask_eq_exp_minus_1)
  have high: "3 \<le> n" if "bit attr n" for n
    using assms that unfolding masks by (metis bit_0_eq bit_and_iff bit_mask_iff bot_apply bot_bool_def bit_imp_le_length not_le possible_bit_word)
  show "(attr OR 3) AND 7 = 3" "(attr OR 3) AND NOT 7 = attr" "attr AND NOT 7 = attr"
    unfolding masks by (auto simp: bit_eq_iff bit_simps not_less dest: high)
qed

lemma record_body_length: "4 \<le> length (record_body r)"
proof -
  have "1 \<le> length (PutVarint x)" for x by (simp add: PutVarint_def Suc_le_eq)
  from this [of "TimestampDelta r"] this [of "scast (OffsetDelta r)"] this [of "of_nat (olen (Key r))"]
  show ?thesis by (simp add: record_body_def)
qed


subsection \<open>Concrete messages\<close>

definition sample_producer :: "bool \<Rightarrow> Producer" where
  "sample_producer i = \<lparr>producerID = 5, producerEpoch = 0, sequence = 0, idempotent = i\<rparr>"

definition sample_messages :: "Message list" where
  "sample_messages = [\<lparr>msg_Key = None, msg_Value = Some [1, 2], msg_Headers = []\<rparr>,
     \<lparr>msg_Key = Some [107], msg_Value = None, msg_Headers = []\<rparr>]"

lemma sample_producer_batch:
  "batch_records (producer_batch 0 q sample_messages) = [16, 0, 0, 0, 0, 4, 1, 2, 0, 14, 0, 0, 2, 2, 107, 1, 0]"
  by (simp add: producer_batch_def sample_messages_def message_record_def batch_records_def EncodeRecord_def
      record_body_def appendVarintBytes_def olen_def obytes_def PutVarint_def PutUvarint_def put_uvarint_small zigzag_def upt_rec)

lemma sample_messages_fit:
  "batch_fits (producer_batch 0 q sample_messages)"
  "length (fst (encode_batch (producer_batch 0 q sample_messages))) = 78"
  by (simp_all add: batch_fits_def length_encode_batch sample_producer_batch)

lemma sample_room: "room (sample_partition empty_segment 1000) 2 78" "length sample_messages = 2"
  by (simp_all add: room_def sample_partition_def empty_segment_def seg_full_def sample_messages_def)

theorem produce_consume_witness:
  "\<exists>raw p' stored batch. encodeBatch 0 (sample_producer False) sample_messages = (Inr raw, sample_producer False)
    \<and> appendToPartition Inr 7 (sample_partition empty_segment 1000) raw True = (Inr 0, p')
    \<and> part_fetch p' 0 1 = Inr stored \<and> DecodeRecordBatch stored = Inr batch
    \<and> map Value (Records batch) = [Some [1, 2], None] \<and> map Key (Records batch) = [Some [], Some [107]]"
proof -
  let ?p = "sample_partition empty_segment 1000" and ?q = "sample_producer False"
  have "p_nextOffset ?p = 0" "sample_messages \<noteq> []" "\<not> idempotent ?q"
    by (simp_all add: sample_partition_def empty_segment_def sample_messages_def sample_producer_def)
  with produce_consume [of ?p "[]" ?q sample_messages 0 1 Inr 7 True] sample_messages_fit [of ?q] sample_room
    sample_partition_holds [OF empty_segment_ok, of 1000]
  have "\<exists>raw p' stored batch. encodeBatch 0 ?q sample_messages = (Inr raw, ?q)
    \<and> appendToPartition Inr 7 ?p raw True = (Inr 0, p') \<and> part_fetch p' 0 1 = Inr stored \<and> DecodeRecordBatch stored = Inr batch
    \<and> map Value (Records batch) = map msg_Value sample_messages
    \<and> map Key (Records batch) = map (Some \<circ> obytes \<circ> msg_Key) sample_messages" by auto
  then show ?thesis by (simp add: sample_messages_def obytes_def)
qed

theorem idempotent_client_stalls_witness:
  "\<exists>raw raw' q1 q2 p1. encodeBatch 0 (sample_producer True) sample_messages = (Inr raw, q1)
    \<and> encodeBatch 0 q1 sample_messages = (Inr raw', q2)
    \<and> appendToPartition Inr 7 (sample_partition empty_segment 1000) raw True = (Inr 0, p1)
    \<and> appendToPartition Inr 8 p1 raw' True = (Inl ErrOutOfOrderSequence, p1)"
proof -
  let ?q = "sample_producer True" and ?p = "sample_partition empty_segment 1000"
  obtain raw q1 where e: "encodeBatch 0 ?q sample_messages = (Inr raw, q1)"
    by (simp add: encodeBatch_def EncodeRecordBatch_fits sample_messages_fit case_prod_beta)
  obtain raw' q2 where e': "encodeBatch 0 q1 sample_messages = (Inr raw', q2)"
    by (simp add: encodeBatch_def EncodeRecordBatch_fits sample_messages_fit case_prod_beta)
  have "\<exists>p1. appendToPartition Inr 7 ?p raw True = (Inr (p_nextOffset ?p), p1)
    \<and> appendToPartition Inr 8 p1 raw' True = (Inl ErrOutOfOrderSequence, p1)"
    by (rule idempotent_client_stalls [OF sample_partition_holds [OF empty_segment_ok] _ _ _ _ _
          sample_messages_fit(1) sample_messages_fit(1) _ e e'])
      (simp_all add: sample_messages_fit sample_room, simp_all add: sample_producer_def sample_partition_def)
  moreover have "p_nextOffset ?p = 0" by (simp add: sample_partition_def empty_segment_def)
  ultimately show ?thesis using e e' by auto
qed


end
