(* ===== verification/Retention.thy ===== *)
theory Retention
  imports Batch_Log
begin

text \<open>
  Retention (\<^verbatim>\<open>src/internal/storage/retention.go\<close>): old closed segments are removed from the
  front, first by age and then by size.  The modification time of a segment's file is the
  parameter \<open>mtime\<close> (None when the file cannot be examined), the clock another.  Removing a
  segment that lives in the object store also returns the keys to delete there.
\<close>

subsection \<open>Plan and enforcement\<close>

record Retention =
  RetentionTime :: int
  RetentionBytes :: int

fun time_plan :: "(Segment \<Rightarrow> int option) \<Rightarrow> int \<Rightarrow> nat \<Rightarrow> Segment list \<Rightarrow> int \<Rightarrow> nat list \<times> int" where
  "time_plan mtime cutoff i [] tot = ([], tot)"
| "time_plan mtime cutoff i (seg # segs) tot =
     (case mtime seg of
        None \<Rightarrow> ([], tot)
      | Some t \<Rightarrow>
          if \<not> t < cutoff then ([], tot)
          else (case time_plan mtime cutoff (Suc i) segs (tot - int (sg_size seg)) of
                  (plan, rest) \<Rightarrow> (i # plan, rest)))"

fun bytes_plan :: "int \<Rightarrow> nat \<Rightarrow> Segment list \<Rightarrow> int \<Rightarrow> nat list" where
  "bytes_plan limit i [] tot = []"
| "bytes_plan limit i (seg # segs) tot =
     (if tot > limit then i # bytes_plan limit (Suc i) segs (tot - int (sg_size seg)) else [])"

definition retentionPlan :: "(Segment \<Rightarrow> int option) \<Rightarrow> int \<Rightarrow> Retention \<Rightarrow> Partition \<Rightarrow> nat list" where
  "retentionPlan mtime now ret p =
     (let (plan, tot) = (if RetentionTime ret > 0
                           then time_plan mtime (now - RetentionTime ret) 0 (p_closedSegments p) (int (totalSize p))
                           else ([], int (totalSize p)))
      in plan @ (if RetentionBytes ret > 0
                 then bytes_plan (RetentionBytes ret) (length plan) (drop (length plan) (p_closedSegments p)) tot
                 else []))"

definition RetentionDebt :: "(Segment \<Rightarrow> int option) \<Rightarrow> int \<Rightarrow> Retention \<Rightarrow> Partition \<Rightarrow> nat" where
  "RetentionDebt mtime now ret p = sum_list (map (\<lambda>i. sg_size (p_closedSegments p ! i)) (retentionPlan mtime now ret p))"

definition removeClosedSegment :: "Partition \<times> (gostring \<times> gostring) list \<Rightarrow> nat \<Rightarrow> Partition \<times> (gostring \<times> gostring) list" where
  "removeClosedSegment st i =
     (case st of (p, deleted) \<Rightarrow>
        let seg = p_closedSegments p ! i
        in (p\<lparr>p_closedSegments := take i (p_closedSegments p) @ drop (Suc i) (p_closedSegments p)\<rparr>,
            if sg_remote seg then deleted @ (case remoteKeys seg of Inr keys \<Rightarrow> [keys] | Inl _ \<Rightarrow> []) else deleted))"

definition enforceRetention ::
  "(Segment \<Rightarrow> int option) \<Rightarrow> int \<Rightarrow> Retention \<Rightarrow> Partition \<Rightarrow> Partition \<times> (gostring \<times> gostring) list" where
  "enforceRetention mtime now ret p = foldl removeClosedSegment (p, []) (rev (retentionPlan mtime now ret p))"

subsection \<open>What is removed\<close>

definition is_old :: "(Segment \<Rightarrow> int option) \<Rightarrow> int \<Rightarrow> Segment \<Rightarrow> bool" where
  "is_old mtime cutoff seg \<longleftrightarrow> (\<exists>t. mtime seg = Some t \<and> t < cutoff)"

definition sizes :: "Segment list \<Rightarrow> int" where
  "sizes segs = int (sum_list (map sg_size segs))"

lemma sizes_simps [simp]: "sizes [] = 0" "sizes (s # ss) = int (sg_size s) + sizes ss"
  by (simp_all add: sizes_def)

lemma upt_step: "i # [Suc i..<Suc i + k] = [i..<i + Suc k]"
  by (simp add: upt_conv_Cons del: upt_Suc)

lemma time_plan_spec:
  assumes "time_plan mtime cutoff i segs tot = (plan, rest)"
  obtains k where "plan = [i..<i + k]" "k \<le> length segs" "\<forall>s \<in> set (take k segs). is_old mtime cutoff s"
    "rest = tot - sizes (take k segs)" "k = length segs \<or> \<not> is_old mtime cutoff (segs ! k)"
  using assms
proof (induction mtime cutoff i segs tot arbitrary: plan rest thesis rule: time_plan.induct)
  case (2 mtime cutoff i seg segs tot)
  show ?case
  proof (cases "is_old mtime cutoff seg")
    case False
    with "2.prems"(2) have "plan = []" "rest = tot" by (auto simp: is_old_def split: option.splits if_splits)
    then show ?thesis using "2.prems"(1) [of 0] False by simp
  next
    case True
    then obtain t where t: "mtime seg = Some t" "t < cutoff" by (auto simp: is_old_def)
    obtain plan' rest' where e: "time_plan mtime cutoff (Suc i) segs (tot - int (sg_size seg)) = (plan', rest')"
      by fastforce
    from "2.IH" [OF t(1) _ _ e] t(2) obtain k where
      k: "plan' = [Suc i..<Suc i + k]" "k \<le> length segs" "\<forall>s \<in> set (take k segs). is_old mtime cutoff s"
      "rest' = tot - int (sg_size seg) - sizes (take k segs)" "k = length segs \<or> \<not> is_old mtime cutoff (segs ! k)" by auto
    have "plan = [i..<i + Suc k]" "rest = rest'" using "2.prems"(2) t e k(1) unfolding upt_step [symmetric] by simp_all
    then show ?thesis using "2.prems"(1) [of "Suc k"] k True by simp
  qed
qed simp

lemma bytes_plan_spec:
  obtains k where "bytes_plan limit i segs tot = [i..<i + k]" "k \<le> length segs"
    "\<forall>j < k. limit < tot - sizes (take j segs)" "k = length segs \<or> tot - sizes (take k segs) \<le> limit"
proof (induction limit i segs tot arbitrary: thesis rule: bytes_plan.induct)
  case (2 limit i seg segs tot)
  show ?case
  proof (cases "limit < tot")
    case True
    from "2.IH" [OF True] obtain k where
      k: "bytes_plan limit (Suc i) segs (tot - int (sg_size seg)) = [Suc i..<Suc i + k]" "k \<le> length segs"
      "\<forall>j < k. limit < tot - int (sg_size seg) - sizes (take j segs)"
      "k = length segs \<or> tot - int (sg_size seg) - sizes (take k segs) \<le> limit" by blast
    have "\<forall>j < Suc k. limit < tot - sizes (take j (seg # segs))"
      using k(3) True by (auto simp: less_Suc_eq_0_disj diff_diff_eq)
    then show ?thesis
      using "2.prems" [of "Suc k"] k True unfolding upt_step [symmetric] by (simp add: diff_diff_eq)
  next
    case False
    then show ?thesis using "2.prems" [of 0] by simp
  qed
qed simp

text \<open>Removing the first \<open>k\<close> segments, from the last of them to the first.\<close>

lemma remove_prefix:
  assumes "k \<le> length (p_closedSegments p)"
  shows "\<exists>keys. foldl removeClosedSegment (p, deleted) (rev [0..<k]) = (p\<lparr>p_closedSegments := drop k (p_closedSegments p)\<rparr>, keys)"
  using assms
proof (induction k arbitrary: p deleted)
  case (Suc k)
  let ?segs = "p_closedSegments p" and ?p = "p\<lparr>p_closedSegments := take k (p_closedSegments p) @ drop (Suc k) (p_closedSegments p)\<rparr>"
  obtain keys where r: "removeClosedSegment (p, deleted) k = (?p, keys)" by (simp add: removeClosedSegment_def Let_def)
  have "k \<le> length (p_closedSegments ?p)" "drop k (p_closedSegments ?p) = drop (Suc k) ?segs"
    using Suc.prems by simp_all
  with Suc.IH [of ?p keys] r show ?case by auto
qed simp

lemma chained_drop: "chained xs \<Longrightarrow> chained (drop k xs)"
  by (metis append_take_drop_id chained_append)

lemma part_ok_drop:
  assumes "part_ok p bss" and "k \<le> length (p_closedSegments p)"
  shows "part_ok (p\<lparr>p_closedSegments := drop k (p_closedSegments p)\<rparr>) (drop k bss)"
proof -
  let ?segs = "p_closedSegments p @ [p_activeSegment p]"
  have segs: "drop k (p_closedSegments p) @ [p_activeSegment p] = drop k ?segs" using assms(2) by simp
  have "list_all2 seg_ok ?segs bss" "chained ?segs" "\<forall>bs \<in> set (butlast bss). bs \<noteq> []"
    using assms(1) by (simp_all add: part_ok_def orderedSegments_def)
  then have "list_all2 seg_ok (drop k ?segs) (drop k bss)" "chained (drop k ?segs)"
    by (simp_all only: list_all2_dropI chained_drop)
  then have "list_all2 seg_ok (drop k (p_closedSegments p) @ [p_activeSegment p]) (drop k bss)"
    "chained (drop k (p_closedSegments p) @ [p_activeSegment p])"
    by (simp_all only: segs)
  moreover have "\<forall>bs \<in> set (butlast (drop k bss)). bs \<noteq> []"
    using \<open>\<forall>bs \<in> set (butlast bss). bs \<noteq> []\<close> by (metis butlast_drop in_set_dropD)
  ultimately show ?thesis
    using assms(1) by (auto simp: part_ok_def orderedSegments_def dest: in_set_dropD)
qed

lemma sizes_append [simp]: "sizes (xs @ ys) = sizes xs + sizes ys"
  by (simp add: sizes_def)

lemma sizes_suffix:
  assumes "i \<le> length (p_closedSegments p)"
  shows "sizes (drop i (orderedSegments p)) = int (totalSize p) - sizes (take i (p_closedSegments p))"
proof -
  have "sizes (p_closedSegments p) = sizes (take i (p_closedSegments p)) + sizes (drop i (p_closedSegments p))"
    by (metis append_take_drop_id sizes_append)
  moreover have "int (totalSize p) = sizes (p_closedSegments p) + sizes [p_activeSegment p]"
    by (simp add: totalSize_def sizes_def)
  ultimately show ?thesis using assms by (simp add: orderedSegments_def)
qed

lemma sum_take: "k \<le> length segs \<Longrightarrow> int (sum_list (map (\<lambda>i. sg_size (segs ! i)) [0..<k])) = sizes (take k segs)"
  by (induction k) (simp_all add: take_Suc_conv_app_nth)

lemma plan_parts:
  obtains k where "(if RetentionTime ret > 0
      then time_plan mtime (now - RetentionTime ret) 0 (p_closedSegments p) (int (totalSize p))
      else ([], int (totalSize p))) = ([0..<k], int (totalSize p) - sizes (take k (p_closedSegments p)))"
    "k \<le> length (p_closedSegments p)"
    "\<forall>i < k. is_old mtime (now - RetentionTime ret) (p_closedSegments p ! i) \<and> RetentionTime ret > 0"
    "RetentionTime ret > 0 \<longrightarrow> k = length (p_closedSegments p) \<or> \<not> is_old mtime (now - RetentionTime ret) (p_closedSegments p ! k)"
proof (cases "RetentionTime ret > 0")
  case True
  obtain plan rest where e: "time_plan mtime (now - RetentionTime ret) 0 (p_closedSegments p) (int (totalSize p)) = (plan, rest)"
    by fastforce
  from time_plan_spec [OF this] obtain k where k: "plan = [0..<0 + k]" "k \<le> length (p_closedSegments p)"
    "\<forall>s \<in> set (take k (p_closedSegments p)). is_old mtime (now - RetentionTime ret) s"
    "rest = int (totalSize p) - sizes (take k (p_closedSegments p))"
    "k = length (p_closedSegments p) \<or> \<not> is_old mtime (now - RetentionTime ret) (p_closedSegments p ! k)" .
  have "\<forall>i < k. is_old mtime (now - RetentionTime ret) (p_closedSegments p ! i)"
    using k(2,3) by (simp add: all_set_conv_all_nth)
  with that [of k] k e True show ?thesis by simp
next
  case False
  with that [of 0] show ?thesis by simp
qed

lemma retentionPlan_spec:
  obtains k where "retentionPlan mtime now ret p = [0..<k]" "k \<le> length (p_closedSegments p)"
    "\<forall>i < k. is_old mtime (now - RetentionTime ret) (p_closedSegments p ! i) \<and> RetentionTime ret > 0
       \<or> RetentionBytes ret > 0 \<and> RetentionBytes ret < sizes (drop i (orderedSegments p))"
    "RetentionBytes ret > 0 \<longrightarrow> sizes (drop k (orderedSegments p)) \<le> RetentionBytes ret \<or> k = length (p_closedSegments p)"
    "RetentionTime ret > 0 \<longrightarrow> k = length (p_closedSegments p) \<or> (\<exists>i \<le> k. \<not> is_old mtime (now - RetentionTime ret) (p_closedSegments p ! i))"
proof -
  let ?segs = "p_closedSegments p" and ?limit = "RetentionBytes ret" and ?total = "int (totalSize p)"
  obtain k where k: "(if RetentionTime ret > 0 then time_plan mtime (now - RetentionTime ret) 0 ?segs ?total
      else ([], ?total)) = ([0..<k], ?total - sizes (take k ?segs))" "k \<le> length ?segs"
    "\<forall>i < k. is_old mtime (now - RetentionTime ret) (?segs ! i) \<and> RetentionTime ret > 0"
    "RetentionTime ret > 0 \<longrightarrow> k = length ?segs \<or> \<not> is_old mtime (now - RetentionTime ret) (?segs ! k)"
    by (rule plan_parts)
  show ?thesis
  proof (cases "?limit > 0")
    case False
    then have "retentionPlan mtime now ret p = [0..<k]" by (simp add: retentionPlan_def k(1))
    with that [of k] k(2-4) False show ?thesis by blast
  next
    case True
    obtain j where j: "bytes_plan ?limit k (drop k ?segs) (?total - sizes (take k ?segs)) = [k..<k + j]"
      "j \<le> length (drop k ?segs)"
      "\<forall>i < j. ?limit < ?total - sizes (take k ?segs) - sizes (take i (drop k ?segs))"
      "j = length (drop k ?segs) \<or> ?total - sizes (take k ?segs) - sizes (take j (drop k ?segs)) \<le> ?limit"
      by (rule bytes_plan_spec)
    have suffix: "sizes (drop (k + i) (orderedSegments p)) = ?total - sizes (take k ?segs) - sizes (take i (drop k ?segs))"
      if "i \<le> j" for i
      using that j(2) k(2) by (subst sizes_suffix) (simp_all add: take_add)
    have "retentionPlan mtime now ret p = [0..<k + j]"
      using True j(1) by (simp add: retentionPlan_def k(1) upt_add_eq_append [of 0 k j])
    moreover have "?limit < sizes (drop i (orderedSegments p))" if "k \<le> i" "i < k + j" for i
      using suffix [of "i - k"] j(3) that by auto
    moreover have "sizes (drop (k + j) (orderedSegments p)) \<le> ?limit \<or> k + j = length ?segs"
      using suffix [of j] j(2,4) k(2) by auto
    moreover have "k + j \<le> length ?segs" using k(2) j(2) by simp
    moreover have "RetentionTime ret > 0 \<longrightarrow> k + j = length ?segs \<or> (\<exists>i \<le> k + j. \<not> is_old mtime (now - RetentionTime ret) (?segs ! i))"
      using k(2,4) j(2) by (metis add_leD1 le_add1 le_antisym calculation(4))
    ultimately show ?thesis
      using that [of "k + j"] True k(3) by (metis not_le)
  qed
qed

text \<open>
  C22.  Retention removes a prefix of the closed segments and nothing else: the partition
  stays well formed, its next offset and the batches from the new start of the log on stay
  the same, and the active segment is kept.  Every removed segment was older than the
  retention time, or the log from it on was larger than the size limit; and with a size
  limit the log ends up within it unless only the active segment is left, with a time limit
  the removal stops only at a segment that is young enough.  The bytes freed are the ones
  \<^verbatim>\<open>RetentionDebt\<close> reported.
\<close>

theorem retention_removes_prefix:
  assumes "part_ok p bss" and "enforceRetention mtime now ret p = (p', keys)"
  shows "\<exists>k \<le> length (p_closedSegments p). p_closedSegments p' = drop k (p_closedSegments p)
    \<and> part_ok p' (drop k bss) \<and> p_nextOffset p' = p_nextOffset p \<and> p_activeSegment p' = p_activeSegment p
    \<and> (\<forall>i < k. is_old mtime (now - RetentionTime ret) (p_closedSegments p ! i) \<and> RetentionTime ret > 0
          \<or> RetentionBytes ret > 0 \<and> RetentionBytes ret < sizes (drop i (orderedSegments p)))
    \<and> (RetentionBytes ret > 0 \<longrightarrow> int (totalSize p') \<le> RetentionBytes ret \<or> p_closedSegments p' = [])
    \<and> (RetentionTime ret > 0 \<longrightarrow> p_closedSegments p' = [] \<or> (\<exists>i \<le> k. \<not> is_old mtime (now - RetentionTime ret) (p_closedSegments p ! i)))
    \<and> int (RetentionDebt mtime now ret p) = int (totalSize p) - int (totalSize p')"
proof -
  obtain k where k: "retentionPlan mtime now ret p = [0..<k]" "k \<le> length (p_closedSegments p)"
    "\<forall>i < k. is_old mtime (now - RetentionTime ret) (p_closedSegments p ! i) \<and> RetentionTime ret > 0
       \<or> RetentionBytes ret > 0 \<and> RetentionBytes ret < sizes (drop i (orderedSegments p))"
    "RetentionBytes ret > 0 \<longrightarrow> sizes (drop k (orderedSegments p)) \<le> RetentionBytes ret \<or> k = length (p_closedSegments p)"
    "RetentionTime ret > 0 \<longrightarrow> k = length (p_closedSegments p) \<or> (\<exists>i \<le> k. \<not> is_old mtime (now - RetentionTime ret) (p_closedSegments p ! i))"
    by (rule retentionPlan_spec)
  have p': "p' = p\<lparr>p_closedSegments := drop k (p_closedSegments p)\<rparr>"
    using assms(2) remove_prefix [OF k(2), of "[]"] unfolding enforceRetention_def k(1) by auto
  have "int (totalSize p') = sizes (drop k (orderedSegments p))"
    using k(2) by (simp add: p' totalSize_def orderedSegments_def sizes_def)
  moreover from this have "int (RetentionDebt mtime now ret p) = int (totalSize p) - int (totalSize p')"
    using k(2) by (simp add: RetentionDebt_def k(1) sum_take sizes_suffix)
  ultimately show ?thesis
    using k p' part_ok_drop [OF assms(1) k(2)] by auto
qed

theorem retention_removes_prefix_witness:
  "\<exists>p p' keys. part_roll (sample_partition two_batches 100) = (Inr (), p) \<and> length (p_closedSegments p) = 1
    \<and> enforceRetention (\<lambda>_. Some 100) 100 \<lparr>RetentionTime = 50, RetentionBytes = 61\<rparr> p = (p', keys)
    \<and> p_closedSegments p' = [] \<and> part_ok p' [[]]"
proof -
  let ?p = "sample_partition two_batches 100" and ?ret = "\<lparr>RetentionTime = 50, RetentionBytes = 61\<rparr>"
  obtain p where p: "part_roll ?p = (Inr (), p)" "part_ok p ([[set_base 10 sample_raw, set_base 11 sample_raw]] @ [[]])"
    "sg_baseOffset (p_activeSegment p) = 12" "log_start p = 10"
    using part_roll_ok [OF sample_partition_ok [OF two_batches_ok], of 100]
    by (auto simp: sample_partition_def two_batches_def seg_full_def log_start_def orderedSegments_def)
  obtain p' keys where e: "enforceRetention (\<lambda>_. Some 100) 100 ?ret p = (p', keys)" by fastforce
  from p(2) obtain s where s: "p_closedSegments p = [s]" "seg_ok s [set_base 10 sample_raw, set_base 11 sample_raw]"
    by (auto simp: part_ok_def orderedSegments_def list_all2_Cons2 append_eq_Cons_conv)
  then have "sg_size s = 122" by (simp add: seg_ok_def sample_lengths)
  with retention_removes_prefix [OF p(2) e] s(1) have "p_closedSegments p' = [] \<and> part_ok p' [[]]"
    by (auto simp: le_Suc_eq totalSize_def)
  with p(1) s(1) e show ?thesis by auto
qed

end
