(* ===== verification/Offset_WAL.thy ===== *)
theory Offset_WAL
  imports Record_Batch
begin

text \<open>
  The write-ahead log of the committed offsets (\<^verbatim>\<open>src/internal/coordinator/offset_wal.go\<close>).
  A record is a length, a payload and the CRC-32C of the payload; the file is the byte
  list of its content.  \<open>replay\<close> reads it from the start and calls its argument on every
  record.
\<close>

subsection \<open>Records\<close>

record walRecord =
  wr_Type :: byte
  wr_Group :: gostring
  wr_Topic :: gostring
  wr_Partition :: int32
  wr_Offset :: int64
  wr_LeaderEpoch :: int32
  wr_Metadata :: "gostring option"
  wr_Timestamp :: int64

definition offsetWALVersion :: byte where "offsetWALVersion = 1"
definition walRecordCommit :: byte where "walRecordCommit = 1"
definition maxWALRecordSize :: int where "maxWALRecordSize = 2 ^ 20"

definition appendWALString :: "gostring \<Rightarrow> bytes" where
  "appendWALString s = PutUint16 (of_nat (length s)) @ s"

definition appendWALNullableString :: "gostring option \<Rightarrow> bytes" where
  "appendWALNullableString s = (case s of None \<Rightarrow> PutUint16 0xffff | Some t \<Rightarrow> appendWALString t)"

definition walPayload :: "walRecord \<Rightarrow> bytes" where
  "walPayload rec =
     [offsetWALVersion, wr_Type rec]
     @ appendWALString (wr_Group rec)
     @ appendWALString (wr_Topic rec)
     @ PutUint32 (wr_Partition rec)
     @ PutUint64 (wr_Offset rec)
     @ PutUint32 (wr_LeaderEpoch rec)
     @ appendWALNullableString (wr_Metadata rec)
     @ PutUint64 (wr_Timestamp rec)"

definition encodeWALRecord :: "walRecord \<Rightarrow> bytes" where
  "encodeWALRecord rec =
     PutUint32 (of_nat (length (walPayload rec))) @ walPayload rec @ PutUint32 (CalculateRecordBatchCRC (walPayload rec))"

definition readWALString :: "bytes \<Rightarrow> nat \<Rightarrow> (gostring \<times> nat) res" where
  "readWALString p pos =
     (if pos + 2 > length p then Inl WALTruncatedStringLength
      else let n = unat (Uint16 (drop pos p))
           in if pos + 2 + n > length p then Inl WALTruncatedString
              else Inr (take n (drop (pos + 2) p), pos + 2 + n))"

definition readWALNullableString :: "bytes \<Rightarrow> nat \<Rightarrow> (gostring option \<times> nat) res" where
  "readWALNullableString p pos =
     (if pos + 2 > length p then Inl WALTruncatedNullableStringLength
      else if Uint16 (drop pos p) = 0xffff then Inr (None, pos + 2)
      else res_bind (readWALString p pos) (\<lambda>(s, next). Inr (Some s, next)))"

definition decodeWALPayload :: "bytes \<Rightarrow> walRecord res" where
  "decodeWALPayload p =
     (if length p < 2 then Inl WALShortPayload
      else if p ! 0 \<noteq> offsetWALVersion then Inl WALUnsupportedVersion
      else res_bind (readWALString p 2) (\<lambda>(group, pos).
           res_bind (readWALString p pos) (\<lambda>(topic, pos).
           if pos + 4 > length p then Inl WALTruncatedPartition
           else if pos + 4 + 8 > length p then Inl WALTruncatedOffset
           else if pos + 4 + 8 + 4 > length p then Inl WALTruncatedLeaderEpoch
           else res_bind (readWALNullableString p (pos + 4 + 8 + 4)) (\<lambda>(metadata, pos').
           if pos' + 8 > length p then Inl WALTruncatedTimestamp
           else Inr \<lparr>wr_Type = p ! 1, wr_Group = group, wr_Topic = topic,
                     wr_Partition = Uint32 (drop pos p), wr_Offset = Uint64 (drop (pos + 4) p),
                     wr_LeaderEpoch = Uint32 (drop (pos + 4 + 8) p), wr_Metadata = metadata,
                     wr_Timestamp = Uint64 (drop pos' p)\<rparr>))))"

subsection \<open>The log file\<close>

text \<open>
  What can happen to the one write and the sync of an append: both succeed, the write
  stops after some bytes, or the sync fails.
\<close>

datatype append_io = AppendOk | WriteFails nat | SyncFails

definition appendBatch :: "append_io \<Rightarrow> bytes \<Rightarrow> walRecord list \<Rightarrow> unit res \<times> bytes" where
  "appendBatch io f recs =
     (if recs = [] then (Inr (), f)
      else let b = concat (map encodeWALRecord recs)
           in case io of
                AppendOk \<Rightarrow> (Inr (), f @ b)
              | WriteFails k \<Rightarrow> (Inl IOError, f @ take k b)
              | SyncFails \<Rightarrow> (Inl IOError, f @ b))"

text \<open>The reads at the end of the file that come short end the replay without an error.\<close>

function replay :: "(walRecord \<Rightarrow> 's \<Rightarrow> 's) \<Rightarrow> bytes \<Rightarrow> 's \<Rightarrow> unit res \<times> 's" where
  "replay fn f s =
     (if length f < 4 then (Inr (), s)
      else let n = unat (Uint32 f); body = drop 4 f
           in if int n \<le> 0 \<or> int n > maxWALRecordSize then (Inl WALBadRecordLength, s)
              else if length body < n then (Inr (), s)
              else let payload = take n body; tail = drop n body
                   in if length tail < 4 then (Inr (), s)
                      else if CalculateRecordBatchCRC payload \<noteq> Uint32 tail then (Inl WALChecksumMismatch, s)
                      else case decodeWALPayload payload of
                             Inl e \<Rightarrow> (Inl e, s)
                           | Inr rec \<Rightarrow> replay fn (drop 4 tail) (fn rec s))"
  by pat_completeness auto
termination by (relation "measure (\<lambda>(fn, f, s). length f)") auto

declare replay.simps [simp del]

definition reset :: "bytes \<Rightarrow> bytes" where
  "reset f = take 0 f"

subsection \<open>Encoding and decoding\<close>

lemma drop_fixed: "drop pos p = e @ rest \<Longrightarrow> drop (pos + length e) p = rest"
  by (metis add.commute append_eq_conv_conj drop_drop)

lemma drop_within: "drop pos p = e @ rest \<Longrightarrow> e \<noteq> [] \<Longrightarrow> pos + length e \<le> length p"
  by (metis append_is_Nil_conv drop_all le_cases length_append length_drop le_add1 le_diff_conv2 add.commute)

lemma readWALString_ok:
  assumes "drop pos p = appendWALString s @ rest" and "length s < 65536"
  shows "readWALString p pos = Inr (s, pos + 2 + length s)" "drop (pos + 2 + length s) p = rest"
    "pos + 2 + length s \<le> length p"
proof -
  have d: "drop (pos + 2) p = s @ rest"
    using drop_fixed [of pos p "PutUint16 (of_nat (length s))" "s @ rest"] assms(1) by (simp add: appendWALString_def)
  have l: "length (drop pos p) = 2 + length s + length rest" using assms(1) by (simp add: appendWALString_def)
  have u: "unat (of_nat (length s) :: 16 word) = length s"
    using assms(2) by (simp add: unat_of_nat)
  show "pos + 2 + length s \<le> length p" using l by simp
  then show "readWALString p pos = Inr (s, pos + 2 + length s)"
    using assms(1) d u by (simp add: readWALString_def appendWALString_def)
  show "drop (pos + 2 + length s) p = rest"
    using d by (metis add.commute append_eq_conv_conj drop_drop)
qed

lemma readWALNullableString_ok:
  assumes "drop pos p = appendWALNullableString s @ rest" and "\<forall>t. s = Some t \<longrightarrow> length t < 65535"
  shows "readWALNullableString p pos = Inr (s, pos + length (appendWALNullableString s))"
    "drop (pos + length (appendWALNullableString s)) p = rest"
    "pos + length (appendWALNullableString s) \<le> length p"
proof -
  let ?n = "length (appendWALNullableString s)"
  have l: "length (drop pos p) = ?n + length rest" using assms(1) by simp
  have n: "2 \<le> ?n" by (simp add: appendWALNullableString_def appendWALString_def split: option.splits)
  show d: "drop (pos + ?n) p = rest" using assms(1) by (metis add.commute append_eq_conv_conj drop_drop)
  show le: "pos + ?n \<le> length p" using l n by simp
  show "readWALNullableString p pos = Inr (s, pos + ?n)"
  proof (cases s)
    case None
    with assms(1) le show ?thesis by (simp add: readWALNullableString_def appendWALNullableString_def)
  next
    case (Some t)
    then have t: "drop pos p = appendWALString t @ rest" "length t < 65536" "?n = 2 + length t"
      using assms by (auto simp: appendWALNullableString_def appendWALString_def)
    have u: "unat (of_nat (length t) :: 16 word) = length t"
      using t(2) by (simp add: unat_of_nat)
    have "unat (0xffff :: 16 word) = 65535" by simp
    then have "(of_nat (length t) :: 16 word) \<noteq> 0xffff" using u assms(2) Some by auto
    with t(1) le n Some t(3) readWALString_ok(1) [OF t(1,2)] show ?thesis
      by (simp add: readWALNullableString_def appendWALString_def)
  qed
qed

definition wal_fits :: "walRecord \<Rightarrow> bool" where
  "wal_fits rec \<longleftrightarrow> length (wr_Group rec) < 65536 \<and> length (wr_Topic rec) < 65536
     \<and> (case wr_Metadata rec of None \<Rightarrow> True | Some t \<Rightarrow> length t < 65535)"

lemma decode_walPayload:
  assumes "wal_fits rec"
  shows "decodeWALPayload (walPayload rec) = Inr rec"
proof -
  let ?p = "walPayload rec"
  let ?d = "appendWALNullableString (wr_Metadata rec) @ PutUint64 (wr_Timestamp rec)"
  let ?c = "PutUint32 (wr_Partition rec) @ PutUint64 (wr_Offset rec) @ PutUint32 (wr_LeaderEpoch rec) @ ?d"
  have m: "\<forall>t. wr_Metadata rec = Some t \<longrightarrow> length t < 65535" "length (wr_Group rec) < 65536" "length (wr_Topic rec) < 65536"
    using assms by (auto simp: wal_fits_def)
  have "drop 2 ?p = appendWALString (wr_Group rec) @ appendWALString (wr_Topic rec) @ ?c"
    by (simp add: walPayload_def)
  note g = readWALString_ok [OF this m(2)]
  note t = readWALString_ok [OF g(2) m(3)]
  let ?pos = "2 + 2 + length (wr_Group rec) + 2 + length (wr_Topic rec)"
  have d1: "drop (?pos + 4) ?p = PutUint64 (wr_Offset rec) @ PutUint32 (wr_LeaderEpoch rec) @ ?d"
    using drop_fixed [OF t(2)] by simp
  have d2: "drop (?pos + 4 + 8) ?p = PutUint32 (wr_LeaderEpoch rec) @ ?d"
    using drop_fixed [OF d1] by simp
  have d3: "drop (?pos + 4 + 8 + 4) ?p = ?d"
    using drop_fixed [OF d2] by simp
  note n = readWALNullableString_ok [OF d3 m(1)]
  let ?pos' = "?pos + 4 + 8 + 4 + length (appendWALNullableString (wr_Metadata rec))"
  have l: "?pos' + 8 \<le> length ?p" using arg_cong [OF n(2), of length] n(3) by simp
  have p: "?p ! 0 = offsetWALVersion" "?p ! 1 = wr_Type rec" "\<not> length ?p < 2"
    by (simp_all add: walPayload_def)
  show ?thesis
    unfolding decodeWALPayload_def
    using p l g(1) t(1) t(2) d1 d2 n(1,2) by (simp add: add.assoc)
qed

subsection \<open>Replay\<close>

lemma walPayload_length: "wal_fits rec \<Longrightarrow> 0 < length (walPayload rec) \<and> length (walPayload rec) < 200000"
  by (auto simp: wal_fits_def walPayload_def appendWALString_def appendWALNullableString_def split: option.splits)

lemma walPayload_size:
  assumes "wal_fits rec"
  shows "unat (of_nat (length (walPayload rec)) :: uint32) = length (walPayload rec)"
    "0 < length (walPayload rec)" "int (length (walPayload rec)) \<le> maxWALRecordSize"
  using walPayload_length [OF assms] by (simp_all add: unat_of_nat maxWALRecordSize_def)

lemma replay_short: "length f < 4 \<Longrightarrow> replay fn f s = (Inr (), s)"
  by (simp add: replay.simps)

lemma replay_record:
  assumes "wal_fits rec"
  shows "replay fn (encodeWALRecord rec @ f) s = replay fn f (fn rec s)"
  using walPayload_size [OF assms] decode_walPayload [OF assms]
  by (subst replay.simps) (simp add: encodeWALRecord_def)

lemma replay_records:
  "\<forall>rec \<in> set recs. wal_fits rec \<Longrightarrow> replay fn (concat (map encodeWALRecord recs) @ f) s = replay fn f (fold fn recs s)"
  by (induction recs arbitrary: s) (simp_all add: replay_record)

lemma replay_cut:
  assumes "unat (of_nat n :: uint32) = n" and "0 < n" and "int n \<le> maxWALRecordSize" and "length b < n + 4"
  shows "replay fn (PutUint32 (of_nat n) @ b) s = (Inr (), s)"
  using assms by (subst replay.simps) (auto simp: Let_def)

lemma replay_torn:
  assumes "wal_fits rec" and "k < length (encodeWALRecord rec)"
  shows "replay fn (take k (encodeWALRecord rec)) s = (Inr (), s)"
proof (cases "k < 4")
  case True
  then show ?thesis by (simp add: replay_short)
next
  case False
  let ?p = "walPayload rec" and ?c = "PutUint32 (CalculateRecordBatchCRC (walPayload rec))"
  have e: "take k (encodeWALRecord rec) = PutUint32 (of_nat (length ?p)) @ take (k - 4) (?p @ ?c)"
    using False by (simp add: encodeWALRecord_def)
  have "length (take (k - 4) (?p @ ?c)) < length ?p + 4"
    using assms(2) False by (simp add: encodeWALRecord_def)
  then show ?thesis
    unfolding e using walPayload_size [OF assms(1)] by (intro replay_cut)
qed

subsection \<open>Properties\<close>

text \<open>
  C23.  A log written by appends replays to exactly the records appended, in order; when the
  last append was cut short by a crash the records before it are all recovered and the
  partial one is ignored.
\<close>

theorem wal_replay_recovers:
  assumes "\<forall>rec \<in> set recs. wal_fits rec" and "wal_fits torn" and "k < length (encodeWALRecord torn)"
  shows "replay fn (concat (map encodeWALRecord recs) @ take k (encodeWALRecord torn)) s = (Inr (), fold fn recs s)"
  by (simp add: replay_records [OF assms(1)] replay_torn [OF assms(2,3)])

definition wal_sample :: "int64 \<Rightarrow> walRecord" where
  "wal_sample ofs = \<lparr>wr_Type = walRecordCommit, wr_Group = str ''g'', wr_Topic = str ''t'', wr_Partition = 0,
     wr_Offset = ofs, wr_LeaderEpoch = -1, wr_Metadata = None, wr_Timestamp = 5\<rparr>"

lemma wal_sample_fits: "wal_fits (wal_sample ofs)"
  by (simp add: wal_fits_def wal_sample_def str_def)

theorem wal_replay_recovers_witness:
  "replay (#) (concat (map encodeWALRecord [wal_sample 3, wal_sample 4]) @ take 20 (encodeWALRecord (wal_sample 5))) []
    = (Inr (), [wal_sample 4, wal_sample 3])"
proof -
  have "20 < length (encodeWALRecord (wal_sample 5))"
    unfolding encodeWALRecord_def length_append length_PutUint walPayload_def by simp
  from wal_replay_recovers [OF _ wal_sample_fits this, of "[wal_sample 3, wal_sample 4]" "(#)" "[]"]
  show ?thesis by (simp add: wal_sample_fits)
qed

lemma PutUint32_small: "n < 256 \<Longrightarrow> PutUint32 (of_nat n) = [0, 0, 0, of_nat n]"
proof -
  assume n: "n < 256"
  then have "unat (of_nat n :: uint32) = n" by (simp add: unat_of_nat)
  moreover have four: "4 = Suc (Suc (Suc (Suc 0)))" by simp
  ultimately show ?thesis unfolding PutUint32_def four using n by simp
qed



end
