(* ===== verification/Durable_Store.thy ===== *)
theory Durable_Store
  imports Prelude
begin

text \<open>
  The contract of a store that keeps its data on disk: every operation has the effect its
  specification gives on the observable view, and opening the store again at any point
  between two operations brings back the same view.
\<close>

datatype 'e durable_event = Op 'e | Restart

primrec run_events :: "('e \<Rightarrow> 's \<Rightarrow> 's) \<Rightarrow> ('s \<Rightarrow> 's res) \<Rightarrow> 'e durable_event list \<Rightarrow> 's \<Rightarrow> 's res" where
  "run_events exec reopen [] s = Inr s"
| "run_events exec reopen (ev # evs) s =
     (case ev of
        Op e \<Rightarrow> run_events exec reopen evs (exec e s)
      | Restart \<Rightarrow> res_bind (reopen s) (run_events exec reopen evs))"

primrec spec_events :: "('e \<Rightarrow> 'v \<Rightarrow> 'v) \<Rightarrow> 'e durable_event list \<Rightarrow> 'v \<Rightarrow> 'v" where
  "spec_events spec [] v = v"
| "spec_events spec (ev # evs) v =
     (case ev of Op e \<Rightarrow> spec_events spec evs (spec e v) | Restart \<Rightarrow> spec_events spec evs v)"

locale durable_store =
  fixes ok :: "'s \<Rightarrow> bool" and view :: "'s \<Rightarrow> 'v" and valid :: "'e \<Rightarrow> bool"
    and exec :: "'e \<Rightarrow> 's \<Rightarrow> 's" and spec :: "'e \<Rightarrow> 'v \<Rightarrow> 'v" and reopen :: "'s \<Rightarrow> 's res"
  assumes exec_ok: "ok s \<Longrightarrow> valid e \<Longrightarrow> ok (exec e s)"
    and exec_view: "ok s \<Longrightarrow> valid e \<Longrightarrow> view (exec e s) = spec e (view s)"
    and reopen_ok: "ok s \<Longrightarrow> \<exists>s'. reopen s = Inr s' \<and> ok s' \<and> view s' = view s"
begin

lemma run_events_ok:
  "ok s \<Longrightarrow> \<forall>e. Op e \<in> set evs \<longrightarrow> valid e \<Longrightarrow>
     \<exists>s'. run_events exec reopen evs s = Inr s' \<and> ok s' \<and> view s' = spec_events spec evs (view s)"
proof (induction evs arbitrary: s)
  case (Cons ev evs)
  show ?case
  proof (cases ev)
    case (Op e)
    with Cons.prems have "valid e" by simp
    with Cons.IH [of "exec e s"] Cons.prems Op exec_ok exec_view show ?thesis by simp
  next
    case Restart
    with reopen_ok [OF Cons.prems(1)] Cons.IH Cons.prems(2) show ?thesis by fastforce
  qed
qed simp

end

end
