(* ===== verification/Offset_Store.thy ===== *)
theory Offset_Store
  imports Offset_WAL Durable_Store "HOL-Library.AList"
begin

text \<open>
  The store of committed offsets (\<^verbatim>\<open>src/internal/coordinator/offset_store.go\<close>): three nested
  maps in memory, a snapshot file and the write-ahead log of \<^verbatim>\<open>offset_wal.go\<close>.  Go maps are
  association lists.  The content of the snapshot file is the value \<^verbatim>\<open>encoding/gob\<close> decodes
  from it; the encoder leaves out a field that points to an empty string, which is what
  \<open>gob_offset\<close> does.  The file operations that can fail are arguments (\<open>append_io\<close>,
  \<open>compact_io\<close>).
\<close>

subsection \<open>State\<close>

record CommittedOffset =
  co_Offset :: int64
  co_Metadata :: "gostring option"
  co_LeaderEpoch :: int32
  co_UpdatedAt :: int64

type_synonym part_offsets = "(int32 \<times> CommittedOffset) list"
type_synonym topic_offsets = "(gostring \<times> part_offsets) list"
type_synonym group_offsets = "(gostring \<times> topic_offsets) list"

datatype snapshot_file = NoSnapshot | Snapshot group_offsets | BadSnapshot

record OffsetStore =
  os_file :: bool
  os_offsets :: group_offsets
  os_snapshot :: snapshot_file
  os_wal :: bytes
  os_walN :: nat
  os_compacting :: bool
  os_closed :: bool

record OffsetCommitRecord =
  ocr_Group :: gostring
  ocr_Topic :: gostring
  ocr_Partition :: int32
  ocr_Offset :: CommittedOffset

definition walCompactThreshold :: nat where "walCompactThreshold = 1024"

definition lookup_or :: "'k \<Rightarrow> ('k \<times> 'v list) list \<Rightarrow> 'v list" where
  "lookup_or k m = (case map_of m k of None \<Rightarrow> [] | Some v \<Rightarrow> v)"

text \<open>The three steps that \<^verbatim>\<open>CommitBatch\<close> and \<^verbatim>\<open>replayWAL\<close> share: find or make the inner maps, then set.\<close>

definition set_offset :: "gostring \<Rightarrow> gostring \<Rightarrow> int32 \<Rightarrow> CommittedOffset \<Rightarrow> group_offsets \<Rightarrow> group_offsets" where
  "set_offset g t p ofs m =
     (let gt = lookup_or g m; tp = lookup_or t gt
      in AList.update g (AList.update t (AList.update p ofs tp) gt) m)"

subsection \<open>Snapshot and compaction\<close>

definition gob_offset :: "CommittedOffset \<Rightarrow> CommittedOffset" where
  "gob_offset c = (if co_Metadata c = Some [] then c\<lparr>co_Metadata := None\<rparr> else c)"

definition gob_image :: "group_offsets \<Rightarrow> group_offsets" where
  "gob_image m = map (\<lambda>(g, ts). (g, map (\<lambda>(t, ps). (t, map (\<lambda>(p, c). (p, gob_offset c)) ps)) ts)) m"

text \<open>
  \<^verbatim>\<open>atomicfile.Write\<close> fails before it replaces the file, or after it; the reset of the log
  fails before it truncates, or after it.
\<close>

datatype compact_io = CompactOk | WriteSnapshotFails | SyncDirFails | TruncateFails | ResetSyncFails

definition compactLocked :: "compact_io \<Rightarrow> OffsetStore \<Rightarrow> unit res \<times> OffsetStore" where
  "compactLocked io s =
     (if \<not> os_file s then (Inr (), s\<lparr>os_walN := 0\<rparr>)
      else let s1 = s\<lparr>os_snapshot := Snapshot (gob_image (os_offsets s))\<rparr>
           in case io of
                WriteSnapshotFails \<Rightarrow> (Inl IOError, s)
              | SyncDirFails \<Rightarrow> (Inl IOError, s1)
              | TruncateFails \<Rightarrow> (Inl IOError, s1)
              | ResetSyncFails \<Rightarrow> (Inl IOError, s1\<lparr>os_wal := reset (os_wal s)\<rparr>)
              | CompactOk \<Rightarrow> (Inr (), s1\<lparr>os_wal := reset (os_wal s), os_walN := 0\<rparr>))"

definition compactAsync :: "compact_io \<Rightarrow> OffsetStore \<Rightarrow> OffsetStore" where
  "compactAsync io s = (snd (compactLocked io s))\<lparr>os_compacting := False\<rparr>"

subsection \<open>Commit, delete, prune\<close>

definition commit_record :: "int64 \<Rightarrow> OffsetCommitRecord \<Rightarrow> CommittedOffset" where
  "commit_record now r = (if co_UpdatedAt (ocr_Offset r) = 0 then (ocr_Offset r)\<lparr>co_UpdatedAt := now\<rparr> else ocr_Offset r)"

definition wal_record :: "int64 \<Rightarrow> OffsetCommitRecord \<Rightarrow> walRecord" where
  "wal_record now r =
     (let ofs = commit_record now r
      in \<lparr>wr_Type = walRecordCommit, wr_Group = ocr_Group r, wr_Topic = ocr_Topic r, wr_Partition = ocr_Partition r,
          wr_Offset = co_Offset ofs, wr_LeaderEpoch = co_LeaderEpoch ofs, wr_Metadata = co_Metadata ofs,
          wr_Timestamp = co_UpdatedAt ofs\<rparr>)"

definition commit_one :: "int64 \<Rightarrow> OffsetCommitRecord \<Rightarrow> group_offsets \<Rightarrow> group_offsets" where
  "commit_one now r m = set_offset (ocr_Group r) (ocr_Topic r) (ocr_Partition r) (commit_record now r) m"

text \<open>The append, and whether it starts the compaction in the background.\<close>

definition appendAndMaybeCompact :: "append_io \<Rightarrow> OffsetStore \<Rightarrow> walRecord list \<Rightarrow> unit res \<times> OffsetStore" where
  "appendAndMaybeCompact io s recs =
     (case appendBatch io (os_wal s) recs of
        (Inl e, f) \<Rightarrow> (Inl e, s\<lparr>os_wal := f\<rparr>)
      | (Inr _, f) \<Rightarrow>
          let n = os_walN s + length recs;
              trigger = (n \<ge> walCompactThreshold \<and> \<not> os_compacting s \<and> \<not> os_closed s)
          in (Inr (), s\<lparr>os_wal := f, os_walN := n, os_compacting := os_compacting s \<or> trigger\<rparr>))"

definition CommitBatch :: "append_io \<Rightarrow> int64 \<Rightarrow> OffsetStore \<Rightarrow> OffsetCommitRecord list \<Rightarrow> unit res \<times> OffsetStore" where
  "CommitBatch io now s records =
     (if records = [] then (Inr (), s)
      else let s1 = s\<lparr>os_offsets := fold (commit_one now) records (os_offsets s)\<rparr>
           in if \<not> os_file s then (Inr (), s1)
              else appendAndMaybeCompact io s1 (map (wal_record now) records))"

definition store_Commit ::
  "append_io \<Rightarrow> int64 \<Rightarrow> OffsetStore \<Rightarrow> gostring \<Rightarrow> gostring \<Rightarrow> int32 \<Rightarrow> CommittedOffset \<Rightarrow> unit res \<times> OffsetStore" where
  "store_Commit io now s g t p ofs =
     CommitBatch io now s [\<lparr>ocr_Group = g, ocr_Topic = t, ocr_Partition = p, ocr_Offset = ofs\<rparr>]"

definition store_DeleteGroup :: "compact_io \<Rightarrow> OffsetStore \<Rightarrow> gostring \<Rightarrow> unit res \<times> OffsetStore" where
  "store_DeleteGroup io s g =
     (let there = (map_of (os_offsets s) g \<noteq> None);
          s1 = s\<lparr>os_offsets := AList.delete g (os_offsets s)\<rparr>
      in if \<not> there \<or> \<not> os_file s then (Inr (), s1) else compactLocked io s1)"

definition prune_parts :: "int \<Rightarrow> part_offsets \<Rightarrow> part_offsets" where
  "prune_parts ct ps = filter (\<lambda>(p, c). \<not> sint (co_UpdatedAt c) < ct) ps"

definition prune_topics :: "int \<Rightarrow> topic_offsets \<Rightarrow> topic_offsets" where
  "prune_topics ct ts = filter (\<lambda>(t, ps). ps \<noteq> []) (map (\<lambda>(t, ps). (t, prune_parts ct ps)) ts)"

definition prune_groups :: "int \<Rightarrow> group_offsets \<Rightarrow> group_offsets" where
  "prune_groups ct gs = filter (\<lambda>(g, ts). ts \<noteq> []) (map (\<lambda>(g, ts). (g, prune_topics ct ts)) gs)"

definition pruned :: "int \<Rightarrow> group_offsets \<Rightarrow> nat" where
  "pruned ct gs = length (filter (\<lambda>c. sint (co_UpdatedAt c) < ct)
     (concat (map (\<lambda>(g, ts). concat (map (\<lambda>(t, ps). map snd ps) ts)) gs)))"

text \<open>The zero time is None.\<close>

definition PruneOlderThan :: "compact_io \<Rightarrow> OffsetStore \<Rightarrow> int64 option \<Rightarrow> nat \<times> OffsetStore" where
  "PruneOlderThan io s cutoff =
     (case cutoff of
        None \<Rightarrow> (0, s)
      | Some c \<Rightarrow>
          let ct = sint c; removed = pruned ct (os_offsets s);
              s1 = s\<lparr>os_offsets := prune_groups ct (os_offsets s)\<rparr>
          in (removed, if removed > 0 \<and> os_file s then snd (compactLocked io s1) else s1))"

subsection \<open>Reading\<close>

definition Fetch :: "OffsetStore \<Rightarrow> gostring \<Rightarrow> gostring \<Rightarrow> int32 \<Rightarrow> CommittedOffset option" where
  "Fetch s g t p =
     (case map_of (os_offsets s) g of
        None \<Rightarrow> None
      | Some gt \<Rightarrow> (case map_of gt t of None \<Rightarrow> None | Some tp \<Rightarrow> map_of tp p))"

definition GroupTopics :: "OffsetStore \<Rightarrow> gostring \<Rightarrow> gostring list" where
  "GroupTopics s g = (case map_of (os_offsets s) g of None \<Rightarrow> [] | Some gt \<Rightarrow> map fst gt)"

definition store_Partitions :: "OffsetStore \<Rightarrow> gostring \<Rightarrow> gostring \<Rightarrow> int32 list" where
  "store_Partitions s g t =
     (case map_of (os_offsets s) g of
        None \<Rightarrow> []
      | Some gt \<Rightarrow> (case map_of gt t of None \<Rightarrow> [] | Some tp \<Rightarrow> map fst tp))"

definition GroupOffsets :: "OffsetStore \<Rightarrow> gostring \<Rightarrow> (gostring \<times> (int32 \<times> int64) list) list" where
  "GroupOffsets s g =
     (case map_of (os_offsets s) g of
        None \<Rightarrow> []
      | Some gt \<Rightarrow> map (\<lambda>(t, tp). (t, map (\<lambda>(p, c). (p, co_Offset c)) tp)) gt)"

definition store_Groups :: "OffsetStore \<Rightarrow> gostring list" where
  "store_Groups s = map fst (os_offsets s)"

subsection \<open>Opening and closing\<close>

definition loadSnapshot :: "snapshot_file \<Rightarrow> group_offsets res" where
  "loadSnapshot f = (case f of NoSnapshot \<Rightarrow> Inr [] | Snapshot m \<Rightarrow> Inr m | BadSnapshot \<Rightarrow> Inl OffsetSnapshotCorrupt)"

definition replay_one :: "walRecord \<Rightarrow> group_offsets \<times> nat \<Rightarrow> group_offsets \<times> nat" where
  "replay_one rec st =
     (case st of (m, n) \<Rightarrow>
        if wr_Type rec \<noteq> walRecordCommit then (m, n)
        else (set_offset (wr_Group rec) (wr_Topic rec) (wr_Partition rec)
                \<lparr>co_Offset = wr_Offset rec, co_Metadata = wr_Metadata rec, co_LeaderEpoch = wr_LeaderEpoch rec,
                 co_UpdatedAt = wr_Timestamp rec\<rparr> m, n + 1))"

definition replayWAL :: "OffsetStore \<Rightarrow> unit res \<times> OffsetStore" where
  "replayWAL s =
     (case replay replay_one (os_wal s) (os_offsets s, 0) of
        (Inl e, (m, n)) \<Rightarrow> (Inl e, s\<lparr>os_offsets := m\<rparr>)
      | (Inr _, (m, n)) \<Rightarrow> (Inr (), s\<lparr>os_offsets := m, os_walN := n\<rparr>))"

datatype offset_backend = BackendFile | BackendInMemory | OtherBackend

definition NewOffsetStore :: "compact_io \<Rightarrow> offset_backend \<Rightarrow> snapshot_file \<Rightarrow> bytes \<Rightarrow> OffsetStore res" where
  "NewOffsetStore io backend snap wal =
     (let s = \<lparr>os_file = (backend = BackendFile), os_offsets = [], os_snapshot = snap, os_wal = wal, os_walN = 0,
               os_compacting = False, os_closed = False\<rparr>
      in case backend of
           OtherBackend \<Rightarrow> Inl UnknownOffsetBackend
         | BackendInMemory \<Rightarrow> Inr s
         | BackendFile \<Rightarrow>
             res_bind (loadSnapshot snap) (\<lambda>m.
             case replayWAL (s\<lparr>os_offsets := m\<rparr>) of
               (Inl e, _) \<Rightarrow> Inl e
             | (Inr _, s1) \<Rightarrow>
                 if os_walN s1 \<ge> walCompactThreshold
                 then (case compactLocked io s1 of (Inl e, _) \<Rightarrow> Inl e | (Inr _, s2) \<Rightarrow> Inr s2)
                 else Inr s1))"

text \<open>\<^verbatim>\<open>Close\<close> waits for a compaction in the background, which is the first step here.\<close>

definition store_Close :: "compact_io \<Rightarrow> compact_io \<Rightarrow> OffsetStore \<Rightarrow> unit res \<times> OffsetStore" where
  "store_Close io0 io s =
     (if \<not> os_file s then (Inr (), s)
      else let s1 = s\<lparr>os_closed := True\<rparr>;
               s2 = (if os_compacting s1 then compactAsync io0 s1 else s1)
           in compactLocked io s2)"

subsection \<open>The map a store stands for\<close>

type_synonym offset_key = "gostring \<times> gostring \<times> int32"

definition lookup :: "group_offsets \<Rightarrow> offset_key \<Rightarrow> CommittedOffset option" where
  "lookup m = (\<lambda>(g, t, p). Option.bind (map_of m g) (\<lambda>gt. Option.bind (map_of gt t) (\<lambda>tp. map_of tp p)))"

lemma Fetch_lookup: "Fetch s g t p = lookup (os_offsets s) (g, t, p)"
  by (simp add: Fetch_def lookup_def split: option.splits)

lemma lookup_set: "lookup (set_offset g t p c m) = (lookup m)((g, t, p) \<mapsto> c)"
  by (auto simp: fun_eq_iff lookup_def set_offset_def lookup_or_def Let_def update_conv' split: option.splits)

lemma lookup_delete: "lookup (AList.delete g m) = (\<lambda>k. if fst k = g then None else lookup m k)"
  by (auto simp: fun_eq_iff lookup_def delete_conv')

lemma map_of_map_value: "map_of (map (\<lambda>(k, v). (k, f v)) xs) k = map_option f (map_of xs k)"
  by (induction xs) auto

lemma lookup_gob: "lookup (gob_image m) k = map_option gob_offset (lookup m k)"
  by (cases k) (auto simp: lookup_def gob_image_def map_of_map_value split: option.splits bind_splits)

definition wf_offsets :: "group_offsets \<Rightarrow> bool" where
  "wf_offsets m \<longleftrightarrow> distinct (map fst m) \<and>
     (\<forall>(g, ts) \<in> set m. distinct (map fst ts) \<and> (\<forall>(t, ps) \<in> set ts. distinct (map fst ps)))"

lemma wf_Nil [simp]: "wf_offsets []"
  by (simp add: wf_offsets_def)

lemma map_of_filter_value:
  "distinct (map fst xs) \<Longrightarrow>
     map_of (filter (\<lambda>(k, v). P v) xs) k = (case map_of xs k of None \<Rightarrow> None | Some v \<Rightarrow> if P v then Some v else None)"
proof (induction xs)
  case (Cons x xs)
  then have "fst x \<notin> dom (map_of xs)" by (simp add: dom_map_of_conv_image_fst)
  then have "map_of xs (fst x) = None" by auto
  with Cons show ?case by (cases x) (auto split: option.splits)
qed simp

lemma distinct_map_value: "map fst (map (\<lambda>(k, v). (k, f v)) xs) = map fst xs"
  by (induction xs) auto

lemma fst_map_value: "fst \<circ> (\<lambda>(k, v). (k, f v)) = fst"
  by auto

lemma map_of_prune_topics:
  assumes "distinct (map fst ts)"
  shows "map_of (prune_topics ct ts) t = (case map_of ts t of None \<Rightarrow> None
    | Some ps \<Rightarrow> if prune_parts ct ps = [] then None else Some (prune_parts ct ps))"
proof -
  have "distinct (map fst (map (\<lambda>(t, ps). (t, prune_parts ct ps)) ts))" using assms by (simp only: distinct_map_value)
  from map_of_filter_value [OF this, of "\<lambda>ps. ps \<noteq> []" t] show ?thesis
    by (simp add: prune_topics_def map_of_map_value split: option.splits)
qed

lemma map_of_prune_groups:
  assumes "distinct (map fst gs)"
  shows "map_of (prune_groups ct gs) g = (case map_of gs g of None \<Rightarrow> None
    | Some ts \<Rightarrow> if prune_topics ct ts = [] then None else Some (prune_topics ct ts))"
proof -
  have "distinct (map fst (map (\<lambda>(g, ts). (g, prune_topics ct ts)) gs))" using assms by (simp only: distinct_map_value)
  from map_of_filter_value [OF this, of "\<lambda>ts. ts \<noteq> []" g] show ?thesis
    by (simp add: prune_groups_def map_of_map_value split: option.splits)
qed

definition keep_newer :: "int \<Rightarrow> (offset_key \<Rightarrow> CommittedOffset option) \<Rightarrow> offset_key \<Rightarrow> CommittedOffset option" where
  "keep_newer ct v k = (case v k of None \<Rightarrow> None | Some c \<Rightarrow> if sint (co_UpdatedAt c) < ct then None else Some c)"

lemma lookup_prune:
  assumes "wf_offsets m"
  shows "lookup (prune_groups ct m) = keep_newer ct (lookup m)"
proof
  fix k :: offset_key
  obtain g t p where k: "k = (g, t, p)" by (cases k)
  have d: "distinct (map fst m)" using assms by (simp add: wf_offsets_def)
  show "lookup (prune_groups ct m) k = keep_newer ct (lookup m) k"
  proof (cases "map_of m g")
    case None
    then show ?thesis by (simp add: k lookup_def keep_newer_def map_of_prune_groups [OF d])
  next
    case (Some ts)
    then have ts: "distinct (map fst ts)" "\<forall>(t, ps) \<in> set ts. distinct (map fst ps)"
      using assms map_of_SomeD [OF Some] by (auto simp: wf_offsets_def)
    have "Option.bind (map_of (prune_topics ct ts) t) (\<lambda>tp. map_of tp p)
        = keep_newer ct (\<lambda>_. Option.bind (map_of ts t) (\<lambda>tp. map_of tp p)) k"
    proof (cases "map_of ts t")
      case None
      then show ?thesis by (simp add: keep_newer_def map_of_prune_topics [OF ts(1)])
    next
      case (Some ps)
      then have "distinct (map fst ps)" using ts(2) map_of_SomeD [OF Some] by auto
      from map_of_filter_value [OF this, of "\<lambda>c. \<not> sint (co_UpdatedAt c) < ct" p]
      have "map_of (prune_parts ct ps) p = keep_newer ct (\<lambda>_. map_of ps p) k"
        by (simp add: prune_parts_def keep_newer_def split: option.splits)
      with Some show ?thesis
        by (cases "prune_parts ct ps = []") (simp_all add: map_of_prune_topics [OF ts(1)] keep_newer_def)
    qed
    with Some show ?thesis
      by (cases "prune_topics ct ts = []") (simp_all add: k lookup_def keep_newer_def map_of_prune_groups [OF d])
  qed
qed

subsection \<open>Well-formedness is kept\<close>

lemma distinct_lookup_or: "wf_offsets m \<Longrightarrow> distinct (map fst (lookup_or g m))"
  by (auto simp: wf_offsets_def lookup_or_def split: option.splits dest: map_of_SomeD)

lemma update_all: "\<forall>x \<in> set xs. P x \<Longrightarrow> P (k, v) \<Longrightarrow> \<forall>x \<in> set (AList.update k v xs). P x"
  by (induction xs) auto

lemma wf_set_offset:
  assumes "wf_offsets m"
  shows "wf_offsets (set_offset g t p c m)"
proof -
  let ?gt = "lookup_or g m"
  let ?tp = "AList.update p c (lookup_or t ?gt)"
  have ps: "\<forall>(t, ps) \<in> set ?gt. distinct (map fst ps)"
    using assms by (auto simp: wf_offsets_def lookup_or_def split: option.splits dest: map_of_SomeD)
  then have "distinct (map fst (lookup_or t ?gt))"
    by (auto simp: lookup_or_def split: option.splits dest: map_of_SomeD)
  then have "distinct (map fst ?tp)" by (rule distinct_update)
  with ps have "\<forall>(t, ps) \<in> set (AList.update t ?tp ?gt). distinct (map fst ps)"
    by (intro update_all) auto
  moreover have "distinct (map fst (AList.update t ?tp ?gt))"
    by (rule distinct_update [OF distinct_lookup_or [OF assms]])
  ultimately have "\<forall>(g, ts) \<in> set (AList.update g (AList.update t ?tp ?gt) m).
      distinct (map fst ts) \<and> (\<forall>(t, ps) \<in> set ts. distinct (map fst ps))"
    using assms by (intro update_all) (auto simp: wf_offsets_def)
  then show ?thesis using assms by (simp add: wf_offsets_def set_offset_def Let_def distinct_update)
qed

lemma wf_delete: "wf_offsets m \<Longrightarrow> wf_offsets (AList.delete g m)"
  by (auto simp: wf_offsets_def AList.delete_eq distinct_map_filter)

lemma wf_gob: "wf_offsets m \<Longrightarrow> wf_offsets (gob_image m)"
  by (fastforce simp: wf_offsets_def gob_image_def fst_map_value)

lemma wf_prune: "wf_offsets m \<Longrightarrow> wf_offsets (prune_groups ct m)"
proof -
  assume wf: "wf_offsets m"
  have parts: "distinct (map fst ps) \<Longrightarrow> distinct (map fst (prune_parts ct ps))" for ps
    by (simp add: prune_parts_def distinct_map_filter)
  have topics: "distinct (map fst (prune_topics ct ts))" if "distinct (map fst ts)" for ts
    using that unfolding prune_topics_def by (intro distinct_map_filter) (simp only: distinct_map_value)
  have inner: "\<forall>(t, ps) \<in> set (prune_topics ct ts). distinct (map fst ps)"
    if "\<forall>(t, ps) \<in> set ts. distinct (map fst ps)" for ts
    using that parts by (fastforce simp: prune_topics_def)
  have "distinct (map fst (prune_groups ct m))"
    using wf unfolding prune_groups_def by (intro distinct_map_filter) (simp only: distinct_map_value wf_offsets_def)
  moreover have "distinct (map fst ts) \<and> (\<forall>(t, ps) \<in> set ts. distinct (map fst ps))"
    if "(g, ts) \<in> set (prune_groups ct m)" for g ts
  proof -
    from that obtain ts' where "(g, ts') \<in> set m" "ts = prune_topics ct ts'" by (auto simp: prune_groups_def)
    moreover from this(1) wf have "distinct (map fst ts')" "\<forall>(t, ps) \<in> set ts'. distinct (map fst ps)"
      by (auto simp: wf_offsets_def)
    ultimately show ?thesis using topics inner by blast
  qed
  ultimately show ?thesis unfolding wf_offsets_def by blast
qed

lemma wf_commits: "wf_offsets m \<Longrightarrow> wf_offsets (fold (commit_one now) rs m)"
  by (induction rs arbitrary: m) (simp_all add: commit_one_def wf_set_offset)

subsection \<open>Durability\<close>

text \<open>
  The observable content, up to the difference between a nil and an empty metadata string,
  which the snapshot does not keep.
\<close>

definition view_of :: "group_offsets \<Rightarrow> offset_key \<Rightarrow> CommittedOffset option" where
  "view_of m k = map_option gob_offset (lookup m k)"

definition rec_key :: "walRecord \<Rightarrow> offset_key" where
  "rec_key rec = (wr_Group rec, wr_Topic rec, wr_Partition rec)"

definition rec_offset :: "walRecord \<Rightarrow> CommittedOffset" where
  "rec_offset rec = \<lparr>co_Offset = wr_Offset rec, co_Metadata = wr_Metadata rec, co_LeaderEpoch = wr_LeaderEpoch rec,
     co_UpdatedAt = wr_Timestamp rec\<rparr>"

definition written :: "walRecord list \<Rightarrow> offset_key \<Rightarrow> CommittedOffset option" where
  "written recs = map_of (rev (map (\<lambda>r. (rec_key r, gob_offset (rec_offset r))) recs))"

lemma gob_gob [simp]: "gob_offset (gob_offset c) = gob_offset c"
  by (simp add: gob_offset_def)

lemma gob_time [simp]: "co_UpdatedAt (gob_offset c) = co_UpdatedAt c"
  by (simp add: gob_offset_def)

lemma view_gob [simp]: "view_of (gob_image m) = view_of m"
  by (simp add: view_of_def fun_eq_iff lookup_gob option.map_comp comp_def)

lemma view_set: "view_of (set_offset g t p c m) = (view_of m)((g, t, p) \<mapsto> gob_offset c)"
  by (simp add: view_of_def fun_eq_iff lookup_set)

lemma view_delete: "view_of (AList.delete g m) = (\<lambda>k. if fst k = g then None else view_of m k)"
  by (simp add: view_of_def fun_eq_iff lookup_delete)

lemma view_prune: "wf_offsets m \<Longrightarrow> view_of (prune_groups ct m) = keep_newer ct (view_of m)"
  by (simp add: view_of_def fun_eq_iff lookup_prune keep_newer_def split: option.splits)

lemma written_Nil [simp]: "written [] = Map.empty"
  by (simp add: written_def)

lemma written_append: "written (xs @ ys) = written xs ++ written ys"
  by (simp add: written_def)

lemma written_Cons: "v ++ written (r # rs) = v(rec_key r \<mapsto> gob_offset (rec_offset r)) ++ written rs"
  by (simp add: written_def)

lemma rec_offset_wal: "rec_offset (wal_record now r) = commit_record now r"
  by (simp add: rec_offset_def wal_record_def Let_def)

lemma view_commits:
  "view_of (fold (commit_one now) rs m) = view_of m ++ written (map (wal_record now) rs)"
proof (induction rs arbitrary: m)
  case (Cons r rs)
  have "view_of (commit_one now r m) = (view_of m)(rec_key (wal_record now r) \<mapsto> gob_offset (rec_offset (wal_record now r)))"
    unfolding commit_one_def view_set rec_offset_wal by (simp add: rec_key_def wal_record_def Let_def)
  with Cons [of "commit_one now r m"] show ?case by (simp add: written_Cons fun_upd_def)
qed simp

lemma replay_commits:
  assumes "\<forall>r \<in> set recs. wr_Type r = walRecordCommit" and "wf_offsets m"
  shows "view_of (fst (fold replay_one recs (m, n))) = view_of m ++ written recs"
    and "wf_offsets (fst (fold replay_one recs (m, n)))"
  using assms
  by (induction recs arbitrary: m n)
    (auto simp: replay_one_def view_set written_Cons wf_set_offset rec_key_def rec_offset_def)

definition store_ok :: "OffsetStore \<Rightarrow> bool" where
  "store_ok s \<longleftrightarrow> os_file s \<and> wf_offsets (os_offsets s) \<and>
     (\<exists>m recs. loadSnapshot (os_snapshot s) = Inr m \<and> wf_offsets m
        \<and> os_wal s = concat (map encodeWALRecord recs) \<and> (\<forall>r \<in> set recs. wal_fits r \<and> wr_Type r = walRecordCommit)
        \<and> view_of (os_offsets s) = view_of m ++ written recs)"

lemma compact_all_ok:
  assumes "os_file s" and "wf_offsets (os_offsets s)"
  shows "store_ok (snd (compactLocked CompactOk s))"
  using assms by (auto simp: store_ok_def compactLocked_def loadSnapshot_def reset_def wf_gob intro!: exI [of _ "[]"])

lemma compact_offsets [simp]: "os_offsets (snd (compactLocked io s)) = os_offsets s"
  by (simp add: compactLocked_def Let_def split: compact_io.splits)

lemma compact_ok:
  assumes "store_ok s"
  shows "store_ok (snd (compactLocked io s))"
proof -
  from assms obtain m recs where s: "os_file s" "wf_offsets (os_offsets s)"
    "os_wal s = concat (map encodeWALRecord recs)" "\<forall>r \<in> set recs. wal_fits r \<and> wr_Type r = walRecordCommit"
    "view_of (os_offsets s) = view_of m ++ written recs"
    by (auto simp: store_ok_def)
  then have "view_of (os_offsets s) = view_of (os_offsets s) ++ written recs"
    by (simp add: map_add_def fun_eq_iff split: option.splits)
  with s have "store_ok (s\<lparr>os_snapshot := Snapshot (gob_image (os_offsets s))\<rparr>)"
    unfolding store_ok_def by (simp add: loadSnapshot_def wf_gob) blast
  moreover have "store_ok (s\<lparr>os_snapshot := Snapshot (gob_image (os_offsets s)), os_wal := []\<rparr>)"
    using s(1,2) by (auto simp: store_ok_def loadSnapshot_def wf_gob intro!: exI [of _ "[]"])
  ultimately show ?thesis
    using assms s(1) compact_all_ok [OF s(1,2)] by (cases io) (simp_all add: compactLocked_def reset_def)
qed

lemma view_none_pruned:
  assumes "pruned ct m = 0"
  shows "keep_newer ct (view_of m) = view_of m"
proof
  fix k :: offset_key
  obtain g t p where k: "k = (g, t, p)" by (cases k)
  have "\<not> sint (co_UpdatedAt c) < ct" if "lookup m k = Some c" for c
  proof -
    from that obtain ts ps where "(g, ts) \<in> set m" "(t, ps) \<in> set ts" "(p, c) \<in> set ps"
      by (auto simp: k lookup_def bind_eq_Some_conv dest: map_of_SomeD)
    then show ?thesis using assms by (fastforce simp: pruned_def filter_empty_conv)
  qed
  then show "keep_newer ct (view_of m) k = view_of m k"
    by (auto simp: keep_newer_def view_of_def split: option.splits)
qed

subsection \<open>The store as a durable store\<close>

datatype store_event =
    ECommit int64 "OffsetCommitRecord list"
  | EDeleteGroup gostring
  | EPrune int64
  | ECompact compact_io

definition exec_store :: "store_event \<Rightarrow> OffsetStore \<Rightarrow> OffsetStore" where
  "exec_store e s =
     (case e of
        ECommit now rs \<Rightarrow> snd (CommitBatch AppendOk now s rs)
      | EDeleteGroup g \<Rightarrow> snd (store_DeleteGroup CompactOk s g)
      | EPrune c \<Rightarrow> snd (PruneOlderThan CompactOk s (Some c))
      | ECompact io \<Rightarrow> compactAsync io s)"

definition store_event_ok :: "store_event \<Rightarrow> bool" where
  "store_event_ok e = (case e of ECommit now rs \<Rightarrow> \<forall>r \<in> set rs. wal_fits (wal_record now r) | _ \<Rightarrow> True)"

definition spec_store :: "store_event \<Rightarrow> (offset_key \<Rightarrow> CommittedOffset option) \<Rightarrow> offset_key \<Rightarrow> CommittedOffset option" where
  "spec_store e v =
     (case e of
        ECommit now rs \<Rightarrow>
          fold (\<lambda>r v. v((ocr_Group r, ocr_Topic r, ocr_Partition r) \<mapsto> gob_offset (commit_record now r))) rs v
      | EDeleteGroup g \<Rightarrow> (\<lambda>k. if fst k = g then None else v k)
      | EPrune c \<Rightarrow> keep_newer (sint c) v
      | ECompact io \<Rightarrow> v)"

definition reopen_store :: "OffsetStore \<Rightarrow> OffsetStore res" where
  "reopen_store s = NewOffsetStore CompactOk BackendFile (os_snapshot s) (os_wal s)"

lemma wal_record_type: "wr_Type (wal_record now r) = walRecordCommit"
  by (simp add: wal_record_def Let_def)

lemma fold_written:
  "fold (\<lambda>r v. v((ocr_Group r, ocr_Topic r, ocr_Partition r) \<mapsto> gob_offset (commit_record now r))) rs v
     = v ++ written (map (wal_record now) rs)"
proof (induction rs arbitrary: v)
  case (Cons r rs)
  have "rec_key (wal_record now r) = (ocr_Group r, ocr_Topic r, ocr_Partition r)"
    by (simp add: rec_key_def wal_record_def Let_def)
  with Cons show ?case by (simp add: written_Cons rec_offset_wal fun_upd_def)
qed simp

lemma commit_store_ok:
  assumes "store_ok s" and "\<forall>r \<in> set rs. wal_fits (wal_record now r)"
  shows "store_ok (snd (CommitBatch AppendOk now s rs))"
    "view_of (os_offsets (snd (CommitBatch AppendOk now s rs))) = view_of (os_offsets s) ++ written (map (wal_record now) rs)"
proof -
  from assms(1) obtain m recs where s: "os_file s" "wf_offsets (os_offsets s)" "loadSnapshot (os_snapshot s) = Inr m"
    "wf_offsets m" "os_wal s = concat (map encodeWALRecord recs)"
    "\<forall>r \<in> set recs. wal_fits r \<and> wr_Type r = walRecordCommit" "view_of (os_offsets s) = view_of m ++ written recs"
    by (auto simp: store_ok_def)
  let ?s' = "snd (CommitBatch AppendOk now s rs)" and ?recs = "recs @ map (wal_record now) rs"
  have s': "os_file ?s'" "os_offsets ?s' = fold (commit_one now) rs (os_offsets s)" "os_snapshot ?s' = os_snapshot s"
    "os_wal ?s' = concat (map encodeWALRecord ?recs)"
    using s(1,5) by (cases "rs = []"; simp add: CommitBatch_def appendAndMaybeCompact_def appendBatch_def Let_def)+
  show view: "view_of (os_offsets ?s') = view_of (os_offsets s) ++ written (map (wal_record now) rs)"
    unfolding s'(2) by (rule view_commits)
  have "\<forall>r \<in> set ?recs. wal_fits r \<and> wr_Type r = walRecordCommit"
    using s(6) assms(2) wal_record_type by auto
  moreover have "view_of (os_offsets ?s') = view_of m ++ written ?recs"
    using view s(7) by (simp add: written_append)
  ultimately show "store_ok ?s'"
    unfolding store_ok_def using s'(1,4) s(3,4) wf_commits [OF s(2), of now rs]
    by (intro conjI exI [of _ m] exI [of _ ?recs]) (simp_all only: s'(2,3))
qed

lemma delete_store_ok:
  assumes "store_ok s"
  shows "store_ok (snd (store_DeleteGroup CompactOk s g))"
    "view_of (os_offsets (snd (store_DeleteGroup CompactOk s g))) = (\<lambda>k. if fst k = g then None else view_of (os_offsets s) k)"
proof -
  let ?s = "s\<lparr>os_offsets := AList.delete g (os_offsets s)\<rparr>"
  have s: "os_file s" "wf_offsets (os_offsets s)" using assms by (auto simp: store_ok_def)
  show "view_of (os_offsets (snd (store_DeleteGroup CompactOk s g))) = (\<lambda>k. if fst k = g then None else view_of (os_offsets s) k)"
    by (simp add: store_DeleteGroup_def Let_def view_delete)
  have "store_ok (snd (compactLocked CompactOk ?s))" using s by (intro compact_all_ok) (simp_all add: wf_delete)
  moreover have "store_ok ?s" if "map_of (os_offsets s) g = None"
  proof -
    from that have "g \<notin> fst ` set (os_offsets s)" by (simp add: map_of_eq_None_iff)
    then have "AList.delete g (os_offsets s) = os_offsets s" by (rule delete_id)
    with assms show ?thesis by simp
  qed
  ultimately show "store_ok (snd (store_DeleteGroup CompactOk s g))"
    using s(1) by (auto simp: store_DeleteGroup_def Let_def)
qed

lemma prune_store_ok:
  assumes "store_ok s"
  shows "store_ok (snd (PruneOlderThan CompactOk s (Some c)))"
    "view_of (os_offsets (snd (PruneOlderThan CompactOk s (Some c)))) = keep_newer (sint c) (view_of (os_offsets s))"
proof -
  let ?s = "s\<lparr>os_offsets := prune_groups (sint c) (os_offsets s)\<rparr>"
  have s: "os_file s" "wf_offsets (os_offsets s)" using assms by (auto simp: store_ok_def)
  show "view_of (os_offsets (snd (PruneOlderThan CompactOk s (Some c)))) = keep_newer (sint c) (view_of (os_offsets s))"
    by (simp add: PruneOlderThan_def Let_def view_prune [OF s(2)])
  have "store_ok (snd (compactLocked CompactOk ?s))" using s by (intro compact_all_ok) (simp_all add: wf_prune)
  moreover have "store_ok ?s" if "pruned (sint c) (os_offsets s) = 0"
    using assms view_none_pruned [OF that] wf_prune [OF s(2)] by (auto simp: store_ok_def view_prune [OF s(2)])
  ultimately show "store_ok (snd (PruneOlderThan CompactOk s (Some c)))"
    using s(1) by (auto simp: PruneOlderThan_def Let_def)
qed

lemma replayWAL_ok:
  assumes "store_ok s"
  shows "\<exists>m s'. loadSnapshot (os_snapshot s) = Inr m
    \<and> replayWAL (s\<lparr>os_offsets := m, os_walN := 0, os_compacting := False, os_closed := False\<rparr>) = (Inr (), s')
    \<and> store_ok s' \<and> view_of (os_offsets s') = view_of (os_offsets s)"
proof -
  from assms obtain m recs where s: "os_file s" "loadSnapshot (os_snapshot s) = Inr m"
    "wf_offsets m" "os_wal s = concat (map encodeWALRecord recs)"
    "\<forall>r \<in> set recs. wal_fits r \<and> wr_Type r = walRecordCommit" "view_of (os_offsets s) = view_of m ++ written recs"
    by (auto simp: store_ok_def)
  let ?f = "fold replay_one recs (m, 0)"
  have r: "replay replay_one (os_wal s) (m, 0) = (Inr (), ?f)"
    using replay_records [of recs replay_one "[]" "(m, 0)"] s(4,5) by (simp add: replay_short)
  have v: "view_of (fst ?f) = view_of m ++ written recs" "wf_offsets (fst ?f)"
    using replay_commits [of recs m 0] s(3,5) by auto
  let ?s' = "s\<lparr>os_offsets := fst ?f, os_walN := snd ?f, os_compacting := False, os_closed := False\<rparr>"
  have "replayWAL (s\<lparr>os_offsets := m, os_walN := 0, os_compacting := False, os_closed := False\<rparr>) = (Inr (), ?s')"
    by (simp add: replayWAL_def r split: prod.splits)
  moreover have "store_ok ?s'" using s v by (auto simp: store_ok_def)
  ultimately show ?thesis using s v by auto
qed

lemma reopen_store_ok:
  assumes "store_ok s"
  shows "\<exists>s'. reopen_store s = Inr s' \<and> store_ok s' \<and> view_of (os_offsets s') = view_of (os_offsets s)"
proof -
  from replayWAL_ok [OF assms] obtain m s1 where m: "loadSnapshot (os_snapshot s) = Inr m"
    "replayWAL (s\<lparr>os_offsets := m, os_walN := 0, os_compacting := False, os_closed := False\<rparr>) = (Inr (), s1)"
    "store_ok s1" "view_of (os_offsets s1) = view_of (os_offsets s)" by blast
  have "os_file s" using assms by (simp add: store_ok_def)
  then have "\<lparr>os_file = True, os_offsets = m, os_snapshot = os_snapshot s, os_wal = os_wal s, os_walN = 0,
      os_compacting = False, os_closed = False\<rparr> = s\<lparr>os_offsets := m, os_walN := 0, os_compacting := False, os_closed := False\<rparr>"
    by simp
  then have "reopen_store s = (if os_walN s1 \<ge> walCompactThreshold
      then (case compactLocked CompactOk s1 of (Inl e, _) \<Rightarrow> Inl e | (Inr _, s2) \<Rightarrow> Inr s2) else Inr s1)"
    using m(1,2) by (simp add: reopen_store_def NewOffsetStore_def)
  moreover have "fst (compactLocked CompactOk s1) = Inr ()" by (simp add: compactLocked_def Let_def)
  ultimately show ?thesis
    using m(3,4) compact_ok [OF m(3), of CompactOk] compact_offsets [of CompactOk s1]
    by (cases "compactLocked CompactOk s1") auto
qed

lemma exec_store_ok:
  assumes "store_ok s" and "store_event_ok e"
  shows "store_ok (exec_store e s) \<and> view_of (os_offsets (exec_store e s)) = spec_store e (view_of (os_offsets s))"
proof (cases e)
  case (ECommit now rs)
  with assms commit_store_ok [OF assms(1), of rs now] show ?thesis
    by (simp add: exec_store_def spec_store_def store_event_ok_def fold_written)
next
  case (EDeleteGroup g)
  with delete_store_ok [OF assms(1)] show ?thesis by (simp add: exec_store_def spec_store_def)
next
  case (EPrune c)
  with prune_store_ok [OF assms(1)] show ?thesis by (simp add: exec_store_def spec_store_def)
next
  case (ECompact io)
  have "store_ok (t\<lparr>os_compacting := False\<rparr>) = store_ok t" for t by (simp add: store_ok_def)
  with ECompact compact_ok [OF assms(1)] show ?thesis by (simp add: exec_store_def spec_store_def compactAsync_def)
qed

interpretation offset_store: durable_store store_ok "\<lambda>s. view_of (os_offsets s)" store_event_ok exec_store spec_store reopen_store
  by unfold_locales (simp_all add: exec_store_ok reopen_store_ok)

subsection \<open>Properties\<close>

lemma new_store:
  "\<exists>s. NewOffsetStore CompactOk BackendFile NoSnapshot [] = Inr s \<and> store_ok s \<and> os_offsets s = []"
proof -
  have "replay replay_one [] ([], 0) = (Inr (), ([], 0))" by (simp add: replay_short)
  then show ?thesis
    by (auto simp: NewOffsetStore_def loadSnapshot_def replayWAL_def store_ok_def walCompactThreshold_def
        intro!: exI [of _ "[]"])
qed

lemma view_empty [simp]: "view_of [] = Map.empty"
  by (simp add: view_of_def lookup_def fun_eq_iff)

text \<open>
  C6.  Committed offsets are durable.  Start from an empty directory and run any sequence of
  commits, group deletions, prunings and background compactions (even compactions that
  fail at any of their file operations), with restarts of the broker anywhere between
  them: every restart succeeds, and in the end \<^verbatim>\<open>Fetch\<close> returns for every group, topic and
  partition what the same operations give on a plain map.
\<close>

theorem offsets_survive_restart:
  assumes "NewOffsetStore CompactOk BackendFile NoSnapshot [] = Inr s" and "\<forall>e. Op e \<in> set evs \<longrightarrow> store_event_ok e"
  shows "\<exists>s'. run_events exec_store reopen_store evs s = Inr s'
    \<and> (\<forall>g t p. map_option gob_offset (Fetch s' g t p) = spec_events spec_store evs Map.empty (g, t, p))"
proof -
  from new_store assms(1) have "store_ok s" "view_of (os_offsets s) = Map.empty" by auto
  with offset_store.run_events_ok [OF _ assms(2)] obtain s' where
    "run_events exec_store reopen_store evs s = Inr s'" "view_of (os_offsets s') = spec_events spec_store evs Map.empty"
    by fastforce
  then show ?thesis by (auto simp: Fetch_lookup view_of_def fun_eq_iff)
qed

definition sample_commit :: "int64 \<Rightarrow> OffsetCommitRecord" where
  "sample_commit ofs = \<lparr>ocr_Group = str ''g'', ocr_Topic = str ''t'', ocr_Partition = 0,
     ocr_Offset = \<lparr>co_Offset = ofs, co_Metadata = None, co_LeaderEpoch = -1, co_UpdatedAt = 0\<rparr>\<rparr>"

lemma sample_commit_fits: "wal_fits (wal_record now (sample_commit ofs))"
  by (simp add: wal_fits_def wal_record_def sample_commit_def commit_record_def Let_def str_def)

theorem offsets_survive_restart_witness:
  "\<exists>s s'. NewOffsetStore CompactOk BackendFile NoSnapshot [] = Inr s
    \<and> run_events exec_store reopen_store [Op (ECommit 9 [sample_commit 5]), Op (ECompact TruncateFails), Restart,
         Op (ECommit 10 [sample_commit 6]), Restart] s = Inr s'
    \<and> map_option co_Offset (Fetch s' (str ''g'') (str ''t'') 0) = Some 6"
proof -
  let ?evs = "[Op (ECommit 9 [sample_commit 5]), Op (ECompact TruncateFails), Restart,
         Op (ECommit 10 [sample_commit 6]), Restart]"
  obtain s where s: "NewOffsetStore CompactOk BackendFile NoSnapshot [] = Inr s" using new_store by blast
  have "\<forall>e. Op e \<in> set ?evs \<longrightarrow> store_event_ok e" by (auto simp: store_event_ok_def sample_commit_fits)
  from offsets_survive_restart [OF s this] obtain s' where s': "run_events exec_store reopen_store ?evs s = Inr s'"
    "\<forall>g t p. map_option gob_offset (Fetch s' g t p) = spec_events spec_store ?evs Map.empty (g, t, p)" by blast
  have "spec_events spec_store ?evs Map.empty (str ''g'', str ''t'', 0) = Some (commit_record 10 (sample_commit 6))"
    by (simp add: spec_store_def sample_commit_def commit_record_def gob_offset_def)
  with s'(2) have "map_option gob_offset (Fetch s' (str ''g'') (str ''t'') 0) = Some (commit_record 10 (sample_commit 6))"
    by metis
  then obtain c where "Fetch s' (str ''g'') (str ''t'') 0 = Some c" "gob_offset c = commit_record 10 (sample_commit 6)"
    by auto
  moreover have "co_Offset (gob_offset c) = co_Offset c" by (simp add: gob_offset_def)
  ultimately have "map_option co_Offset (Fetch s' (str ''g'') (str ''t'') 0) = Some 6"
    by (simp add: commit_record_def sample_commit_def)
  with s s'(1) show ?thesis by blast
qed

text \<open>
  C34.  A deletion that is interrupted is undone by a restart.  \<^verbatim>\<open>DeleteGroup\<close> writes the
  snapshot without the group and then empties the log; when it stops in between (the
  truncation fails, or the process dies there, which leaves the same files), the log still
  holds the commits of the group, and opening the store brings the deleted offset back.
\<close>

theorem deleted_offset_returns:
  assumes "store_ok s" and "wal_fits (wal_record now r)"
    and "CommitBatch AppendOk now s [r] = (Inr (), s1)" and "store_DeleteGroup TruncateFails s1 (ocr_Group r) = (res, s2)"
  shows "Fetch s2 (ocr_Group r) (ocr_Topic r) (ocr_Partition r) = None
    \<and> (\<exists>s3. reopen_store s2 = Inr s3
         \<and> Fetch s3 (ocr_Group r) (ocr_Topic r) (ocr_Partition r) = Some (commit_record now r))"
proof -
  let ?k = "(ocr_Group r, ocr_Topic r, ocr_Partition r)" and ?w = "wal_record now r"
  from assms(1) obtain recs where w: "os_file s" "os_wal s = concat (map encodeWALRecord recs)"
    "\<forall>r \<in> set recs. wal_fits r \<and> wr_Type r = walRecordCommit" by (auto simp: store_ok_def)
  from assms(3) w have s1: "os_file s1" "os_wal s1 = concat (map encodeWALRecord (recs @ [?w]))"
    "os_offsets s1 = commit_one now r (os_offsets s)"
    by (auto simp: CommitBatch_def appendAndMaybeCompact_def appendBatch_def Let_def)
  have "lookup (os_offsets s1) ?k \<noteq> None" by (simp add: s1(3) commit_one_def lookup_set)
  then have "map_of (os_offsets s1) (ocr_Group r) \<noteq> None" by (auto simp: lookup_def bind_eq_Some_conv)
  with assms(4) s1 obtain m where s2: "os_snapshot s2 = Snapshot m" "os_wal s2 = concat (map encodeWALRecord (recs @ [?w]))"
    "os_offsets s2 = AList.delete (ocr_Group r) (os_offsets s1)"
    by (auto simp: store_DeleteGroup_def compactLocked_def Let_def)
  have "replay replay_one (os_wal s2) (m, 0) = (Inr (), fold replay_one (recs @ [?w]) (m, 0))"
    using replay_records [of "recs @ [?w]" replay_one "[]"] w(3) assms(2) by (simp add: s2(2) replay_short)
  moreover obtain m' n where f: "fold replay_one recs (m, 0) = (m', n)" by fastforce
  ultimately have "replay replay_one (os_wal s2) (m, 0) = (Inr (), (set_offset (ocr_Group r) (ocr_Topic r)
      (ocr_Partition r) (commit_record now r) m', n + 1))"
    by (simp add: replay_one_def rec_offset_wal [unfolded rec_offset_def] wal_record_type)
      (simp add: wal_record_def Let_def)
  then have "\<exists>s3. reopen_store s2 = Inr s3 \<and> lookup (os_offsets s3) ?k = Some (commit_record now r)"
    by (auto simp: reopen_store_def NewOffsetStore_def s2(1) loadSnapshot_def replayWAL_def compactLocked_def lookup_set)
  then show ?thesis by (simp add: Fetch_lookup s2(3) lookup_delete)
qed

theorem deleted_offset_returns_witness:
  "\<exists>s s1 s2 s3. NewOffsetStore CompactOk BackendFile NoSnapshot [] = Inr s
    \<and> CommitBatch AppendOk 9 s [sample_commit 5] = (Inr (), s1)
    \<and> store_DeleteGroup TruncateFails s1 (str ''g'') = (Inl IOError, s2)
    \<and> Fetch s2 (str ''g'') (str ''t'') 0 = None \<and> reopen_store s2 = Inr s3
    \<and> map_option co_Offset (Fetch s3 (str ''g'') (str ''t'') 0) = Some 5"
proof -
  let ?r = "sample_commit 5"
  obtain s where s: "NewOffsetStore CompactOk BackendFile NoSnapshot [] = Inr s" "store_ok s" "os_offsets s = []"
    using new_store by blast
  then have "os_file s" by (simp add: store_ok_def)
  then obtain s1 where s1: "CommitBatch AppendOk 9 s [?r] = (Inr (), s1)" "os_file s1" "os_offsets s1 = commit_one 9 ?r []"
    using s(3) by (simp add: CommitBatch_def appendAndMaybeCompact_def appendBatch_def Let_def)
  then obtain s2 where s2: "store_DeleteGroup TruncateFails s1 (str ''g'') = (Inl IOError, s2)"
    by (simp add: store_DeleteGroup_def compactLocked_def commit_one_def set_offset_def sample_commit_def lookup_or_def Let_def)
  have k: "ocr_Group ?r = str ''g''" "ocr_Topic ?r = str ''t''" "ocr_Partition ?r = 0" by (simp_all add: sample_commit_def)
  from deleted_offset_returns [OF s(2) sample_commit_fits s1(1), unfolded k, OF s2] obtain s3 where
    "Fetch s2 (str ''g'') (str ''t'') 0 = None" "reopen_store s2 = Inr s3"
    "Fetch s3 (str ''g'') (str ''t'') 0 = Some (commit_record 9 ?r)" by blast
  then show ?thesis using s(1) s1(1) s2 by (auto simp: commit_record_def sample_commit_def)
qed

end
