(* ===== verification/Error_Codes.thy ===== *)
theory Error_Codes
  imports Prelude
begin

text \<open>The API keys and error codes of the protocol (\<^verbatim>\<open>src/pkg/protocol/types.go\<close>).\<close>

named_theorems api_keys
named_theorems err_codes

subsection \<open>API keys\<close>

definition APKProduce :: int16 where [api_keys]: "APKProduce = 0"
definition APKFetch :: int16 where [api_keys]: "APKFetch = 1"
definition APKListOffsets :: int16 where [api_keys]: "APKListOffsets = 2"
definition APKMetadata :: int16 where [api_keys]: "APKMetadata = 3"
definition APKOffsetCommit :: int16 where [api_keys]: "APKOffsetCommit = 8"
definition APKOffsetFetch :: int16 where [api_keys]: "APKOffsetFetch = 9"
definition APKFindCoordinator :: int16 where [api_keys]: "APKFindCoordinator = 10"
definition APKJoinGroup :: int16 where [api_keys]: "APKJoinGroup = 11"
definition APKHeartbeat :: int16 where [api_keys]: "APKHeartbeat = 12"
definition APKLeaveGroup :: int16 where [api_keys]: "APKLeaveGroup = 13"
definition APKSyncGroup :: int16 where [api_keys]: "APKSyncGroup = 14"
definition APKDescribeGroups :: int16 where [api_keys]: "APKDescribeGroups = 15"
definition APKListGroups :: int16 where [api_keys]: "APKListGroups = 16"
definition APKSaslHandshake :: int16 where [api_keys]: "APKSaslHandshake = 17"
definition APKApiVersions :: int16 where [api_keys]: "APKApiVersions = 18"
definition APKCreateTopics :: int16 where [api_keys]: "APKCreateTopics = 19"
definition APKDeleteTopics :: int16 where [api_keys]: "APKDeleteTopics = 20"
definition APKInitProducerID :: int16 where [api_keys]: "APKInitProducerID = 22"
definition APKSaslAuthenticate :: int16 where [api_keys]: "APKSaslAuthenticate = 36"
definition APKDeleteGroups :: int16 where [api_keys]: "APKDeleteGroups = 42"
definition APKAddPartitionsToTxn :: int16 where [api_keys]: "APKAddPartitionsToTxn = 24"
definition APKAddOffsetsToTxn :: int16 where [api_keys]: "APKAddOffsetsToTxn = 25"
definition APKEndTxn :: int16 where [api_keys]: "APKEndTxn = 26"

definition DisabledTransactionAPIKeys :: "int16 list" where
  "DisabledTransactionAPIKeys = [APKAddPartitionsToTxn, APKAddOffsetsToTxn, APKEndTxn]"

subsection \<open>Error codes\<close>

definition ErrNone :: int16 where [err_codes]: "ErrNone = 0"
definition ErrUnknownServerError :: int16 where [err_codes]: "ErrUnknownServerError = -1"
definition ErrOffsetOutOfRange :: int16 where [err_codes]: "ErrOffsetOutOfRange = 1"
definition ErrCorruptMessage :: int16 where [err_codes]: "ErrCorruptMessage = 2"
definition ErrUnknownTopicOrPartition :: int16 where [err_codes]: "ErrUnknownTopicOrPartition = 3"
definition ErrInvalidFetchSize :: int16 where [err_codes]: "ErrInvalidFetchSize = 4"
definition ErrNotLeaderOrFollower :: int16 where [err_codes]: "ErrNotLeaderOrFollower = 6"
definition ErrRequestTimedOut :: int16 where [err_codes]: "ErrRequestTimedOut = 7"
definition ErrOffsetMetadataTooLarge :: int16 where [err_codes]: "ErrOffsetMetadataTooLarge = 12"
definition ErrCoordinatorLoadInProgress :: int16 where [err_codes]: "ErrCoordinatorLoadInProgress = 14"
definition ErrCoordinatorNotAvailable :: int16 where [err_codes]: "ErrCoordinatorNotAvailable = 15"
definition ErrNotCoordinator :: int16 where [err_codes]: "ErrNotCoordinator = 16"
definition ErrInvalidTopic :: int16 where [err_codes]: "ErrInvalidTopic = 17"
definition ErrIllegalGeneration :: int16 where [err_codes]: "ErrIllegalGeneration = 22"
definition ErrInconsistentGroupProtocol :: int16 where [err_codes]: "ErrInconsistentGroupProtocol = 23"
definition ErrUnknownMemberID :: int16 where [err_codes]: "ErrUnknownMemberID = 25"
definition ErrInvalidSessionTimeout :: int16 where [err_codes]: "ErrInvalidSessionTimeout = 26"
definition ErrRebalanceInProgress :: int16 where [err_codes]: "ErrRebalanceInProgress = 27"
definition ErrInvalidCommitOffsetSize :: int16 where [err_codes]: "ErrInvalidCommitOffsetSize = 28"
definition ErrTopicAuthorizationFailed :: int16 where [err_codes]: "ErrTopicAuthorizationFailed = 29"
definition ErrGroupAuthorizationFailed :: int16 where [err_codes]: "ErrGroupAuthorizationFailed = 30"
definition ErrClusterAuthorizationFailed :: int16 where [err_codes]: "ErrClusterAuthorizationFailed = 31"
definition ErrIllegalSaslState :: int16 where [err_codes]: "ErrIllegalSaslState = 34"
definition ErrUnsupportedVersion :: int16 where [err_codes]: "ErrUnsupportedVersion = 35"
definition ErrTopicAlreadyExists :: int16 where [err_codes]: "ErrTopicAlreadyExists = 36"
definition ErrInvalidPartitions :: int16 where [err_codes]: "ErrInvalidPartitions = 37"
definition ErrInvalidReplicationFactor :: int16 where [err_codes]: "ErrInvalidReplicationFactor = 38"
definition ErrInvalidReplicaAssignment :: int16 where [err_codes]: "ErrInvalidReplicaAssignment = 39"
definition ErrInvalidRequest :: int16 where [err_codes]: "ErrInvalidRequest = 42"
definition ErrUnsupportedForMessageFormat :: int16 where [err_codes]: "ErrUnsupportedForMessageFormat = 43"
definition ErrDuplicateSequenceNumber :: int16 where [err_codes]: "ErrDuplicateSequenceNumber = 46"
definition ErrInvalidProducerEpoch :: int16 where [err_codes]: "ErrInvalidProducerEpoch = 47"
definition ErrInvalidTxnState :: int16 where [err_codes]: "ErrInvalidTxnState = 48"
definition ErrInvalidProducerIDMapping :: int16 where [err_codes]: "ErrInvalidProducerIDMapping = 49"
definition ErrTransactionCoordinatorFenced :: int16 where [err_codes]: "ErrTransactionCoordinatorFenced = 52"
definition ErrTransactionalIDAuthorizationFailed :: int16 where [err_codes]: "ErrTransactionalIDAuthorizationFailed = 53"
definition ErrSaslAuthenticationFailed :: int16 where [err_codes]: "ErrSaslAuthenticationFailed = 58"
definition ErrGroupIDNotFound :: int16 where [err_codes]: "ErrGroupIDNotFound = 69"
definition ErrNonEmptyGroup :: int16 where [err_codes]: "ErrNonEmptyGroup = 68"
definition ErrMemberIDRequired :: int16 where [err_codes]: "ErrMemberIDRequired = 79"

end
