(* ===== verification/Group_State.thy ===== *)
theory Group_State
  imports Messages_Group Offset_Store Idempotence Go_Text Error_Codes
begin

text \<open>
  The consumer groups (\<^verbatim>\<open>src/internal/coordinator/group.go\<close>).  A handler runs under the lock
  of its group, so it is one step; JoinGroup and SyncGroup give the lock up while they
  wait, and are an entering step and steps for each time they wake up.  The channels that
  wake them are counters of how often the channel was closed.  Go maps are association
  lists; \<^verbatim>\<open>joined\<close>, whose values are all true, is the list of its keys.  Times and
  durations are integers in nanoseconds, the clock an argument.  Index and nil
  dereferences that Go checks at run time are the value \<open>Panic\<close>.
\<close>

subsection \<open>Members and groups\<close>

datatype GroupState = StateEmpty | StatePreparingRebalance | StateCompletingRebalance | StateStable

definition GroupState_String :: "GroupState \<Rightarrow> gostring" where
  "GroupState_String s =
     (case s of
        StateEmpty \<Rightarrow> str ''Empty''
      | StatePreparingRebalance \<Rightarrow> str ''PreparingRebalance''
      | StateCompletingRebalance \<Rightarrow> str ''CompletingRebalance''
      | StateStable \<Rightarrow> str ''Stable'')"

record Member =
  m_ID :: gostring
  m_InstanceID :: "gostring option"
  m_SessionTimeout :: int32
  m_RebalanceTimeout :: int
  m_ProtocolType :: gostring
  m_Protocols :: "JoinGroupRequestProtocol list"
  m_LastHeartbeat :: int

record Group =
  g_Name :: gostring
  g_State :: GroupState
  g_Generation :: int32
  g_ProtocolType :: gostring
  g_Protocol :: gostring
  g_LeaderID :: gostring
  g_Members :: "(gostring \<times> Member) list"
  g_JoinOrder :: "gostring list"
  g_assignments :: "(gostring \<times> bytes option) list"
  g_assignmentsChanged :: nat
  g_joined :: "gostring list"
  g_rebalanceDeadline :: int
  g_joinNotify :: nat

definition Millisecond :: int where "Millisecond = 1000000"
definition Second :: int where "Second = 1000000000"

definition syncWaitTimeout :: int where "syncWaitTimeout = 10 * Second"

record GroupManager =
  gm_groups :: "(gostring \<times> Group) list"
  gm_offsets :: OffsetStore
  gm_brokerNodeID :: int32
  gm_brokerHost :: gostring
  gm_brokerPort :: int32
  gm_defaultSession :: int32
  gm_defaultRebalance :: int
  gm_nextMemberSeq :: int
  gm_producers :: ProducerIDManager

definition NewGroupManager :: "OffsetStore \<Rightarrow> int32 \<Rightarrow> gostring \<Rightarrow> int32 \<Rightarrow> int32 \<Rightarrow> GroupManager" where
  "NewGroupManager offsets nodeID host port defaultSession =
     \<lparr>gm_groups = [], gm_offsets = offsets, gm_brokerNodeID = nodeID, gm_brokerHost = host, gm_brokerPort = port,
      gm_defaultSession = defaultSession, gm_defaultRebalance = 0, gm_nextMemberSeq = 0,
      gm_producers = NewProducerIDManager\<rparr>"

definition WithDefaultRebalanceTimeout :: "GroupManager \<Rightarrow> int \<Rightarrow> GroupManager" where
  "WithDefaultRebalanceTimeout gm d = gm\<lparr>gm_defaultRebalance := d\<rparr>"

definition NextProducerID :: "GroupManager \<Rightarrow> gostring option \<Rightarrow> (int64 \<times> int16 \<times> GroupManager) res" where
  "NextProducerID gm txn = res_bind (NextPid (gm_producers gm) txn) (\<lambda>(pid, epoch, m). Inr (pid, epoch, gm\<lparr>gm_producers := m\<rparr>))"

definition ValidateProducer :: "GroupManager \<Rightarrow> gostring \<Rightarrow> int64 \<Rightarrow> int16 \<Rightarrow> bool" where
  "ValidateProducer gm txn pid epoch = ValidatePid (gm_producers gm) txn pid epoch"

definition PruneOffsets :: "compact_io \<Rightarrow> GroupManager \<Rightarrow> int \<Rightarrow> int \<Rightarrow> nat \<times> GroupManager" where
  "PruneOffsets io gm now retention =
     (if retention \<le> 0 then (0, gm)
      else case PruneOlderThan io (gm_offsets gm) (Some (word_of_int (now - retention))) of
             (n, s) \<Rightarrow> (n, gm\<lparr>gm_offsets := s\<rparr>))"

definition newGroup :: "gostring \<Rightarrow> Group" where
  "newGroup name =
     \<lparr>g_Name = name, g_State = StateEmpty, g_Generation = 0, g_ProtocolType = [], g_Protocol = [], g_LeaderID = [],
      g_Members = [], g_JoinOrder = [], g_assignments = [], g_assignmentsChanged = 0, g_joined = [],
      g_rebalanceDeadline = 0, g_joinNotify = 0\<rparr>"

definition get_group :: "GroupManager \<Rightarrow> gostring \<Rightarrow> Group option" where
  "get_group gm name = map_of (gm_groups gm) name"

definition put_group :: "gostring \<Rightarrow> Group \<Rightarrow> GroupManager \<Rightarrow> GroupManager" where
  "put_group name g gm = gm\<lparr>gm_groups := AList.update name g (gm_groups gm)\<rparr>"

definition getOrCreate :: "GroupManager \<Rightarrow> gostring \<Rightarrow> Group \<times> GroupManager" where
  "getOrCreate gm name =
     (case get_group gm name of
        Some g \<Rightarrow> (g, gm)
      | None \<Rightarrow> (newGroup name, put_group name (newGroup name) gm))"

definition memberName :: "int \<Rightarrow> gostring" where
  "memberName seq = str ''pocketkafka-'' @ Sprint_int seq"

definition nextMemberID :: "GroupManager \<Rightarrow> gostring \<times> GroupManager" where
  "nextMemberID gm =
     (let seq = s64 (gm_nextMemberSeq gm + 1) in (memberName seq, gm\<lparr>gm_nextMemberSeq := seq\<rparr>))"

definition FindCoordinator :: "GroupManager \<Rightarrow> FindCoordinatorRequest \<Rightarrow> FindCoordinatorResponse" where
  "FindCoordinator gm req =
     \<lparr>fcs_Version = fcq_Version req, fcs_ThrottleTimeMs = 0, fcs_ErrorCode = ErrNone, fcs_ErrorMessage = None,
      fcs_NodeID = gm_brokerNodeID gm, fcs_Host = gm_brokerHost gm, fcs_Port = gm_brokerPort gm\<rparr>"

subsection \<open>Rebalancing\<close>

definition closeJoinWaiters :: "Group \<Rightarrow> Group" where
  "closeJoinWaiters g = g\<lparr>g_joinNotify := Suc (g_joinNotify g)\<rparr>"

text \<open>The length of a member's turn in \<^verbatim>\<open>beginRebalanceLocked\<close>, and the loop that takes the longest.\<close>

definition member_wait :: "Member \<Rightarrow> int" where
  "member_wait m = (if m_RebalanceTimeout m \<le> 0 then sint (m_SessionTimeout m) * Millisecond else m_RebalanceTimeout m)"

definition deadline_step :: "int \<Rightarrow> Member \<Rightarrow> int \<times> bool \<Rightarrow> int \<times> bool" where
  "deadline_step now m st =
     (case st of (deadline, first) \<Rightarrow>
        if member_wait m \<le> 0 then (deadline, first)
        else if first \<or> now + member_wait m > deadline then (now + member_wait m, False)
        else (deadline, first))"

definition beginRebalance :: "int \<Rightarrow> Group \<Rightarrow> Group" where
  "beginRebalance now g =
     g\<lparr>g_State := StatePreparingRebalance, g_joined := [],
       g_rebalanceDeadline := fst (fold (deadline_step now) (map snd (g_Members g)) (now + 10 * Second, True))\<rparr>"

definition supports :: "Member \<Rightarrow> gostring \<Rightarrow> bool" where
  "supports m name = list_ex (\<lambda>p. jrp_Name p = name) (m_Protocols m)"

definition chooseProtocol :: "(gostring \<times> Member) list \<Rightarrow> gostring list \<Rightarrow> Member \<Rightarrow> gostring" where
  "chooseProtocol members order leader =
     (case m_Protocols leader of
        [] \<Rightarrow> []
      | p # ps \<Rightarrow>
          (case find (\<lambda>cand. list_all (\<lambda>mid. case map_of members mid of None \<Rightarrow> True | Some m \<Rightarrow> supports m (jrp_Name cand)) order)
                  (m_Protocols leader) of
             Some cand \<Rightarrow> jrp_Name cand
           | None \<Rightarrow> jrp_Name p))"

definition completeJoin :: "Group \<Rightarrow> Group res" where
  "completeJoin g =
     (if g_Members g = []
      then Inr (closeJoinWaiters (g\<lparr>g_State := StateEmpty, g_LeaderID := [], g_joined := [], g_rebalanceDeadline := 0\<rparr>))
      else case g_JoinOrder g of
             [] \<Rightarrow> Inl Panic
           | lead # _ \<Rightarrow>
               (case map_of (g_Members g) lead of
                  None \<Rightarrow> Inl Panic
                | Some leader \<Rightarrow>
                    Inr (closeJoinWaiters
                      (g\<lparr>g_Generation := g_Generation g + 1, g_State := StateCompletingRebalance, g_LeaderID := lead,
                         g_ProtocolType := m_ProtocolType leader,
                         g_Protocol := chooseProtocol (g_Members g) (g_JoinOrder g) leader,
                         g_assignments := [], g_joined := [], g_rebalanceDeadline := 0\<rparr>))))"

definition filterOrder :: "gostring list \<Rightarrow> gostring list \<Rightarrow> gostring list" where
  "filterOrder order remove = filter (\<lambda>mid. mid \<notin> set remove) order"

definition removeMembers :: "gostring list \<Rightarrow> (gostring \<times> 'a) list \<Rightarrow> (gostring \<times> 'a) list" where
  "removeMembers dead ms = filter (\<lambda>(mid, _). mid \<notin> set dead) ms"

definition expireRebalance :: "Group \<Rightarrow> Group res" where
  "expireRebalance g =
     (let dead = filter (\<lambda>mid. mid \<notin> set (g_joined g)) (map fst (g_Members g))
      in completeJoin (g\<lparr>g_Members := removeMembers dead (g_Members g), g_JoinOrder := filterOrder (g_JoinOrder g) dead\<rparr>))"

subsection \<open>JoinGroup\<close>

definition sameStringPtr :: "gostring option \<Rightarrow> gostring option \<Rightarrow> bool" where
  "sameStringPtr a b = (case (a, b) of (Some x, Some y) \<Rightarrow> x = y | (None, None) \<Rightarrow> True | _ \<Rightarrow> False)"

fun same_protocols :: "JoinGroupRequestProtocol list \<Rightarrow> JoinGroupRequestProtocol list \<Rightarrow> bool" where
  "same_protocols (p # ps) (q # qs) =
     (if jrp_Name p \<noteq> jrp_Name q then False
      else if obytes (jrp_Metadata p) \<noteq> obytes (jrp_Metadata q) then False
      else same_protocols ps qs)"
| "same_protocols _ _ = True"

definition sameMemberMetadata :: "Member \<Rightarrow> JoinGroupRequest \<Rightarrow> bool" where
  "sameMemberMetadata m req =
     (if m_ProtocolType m \<noteq> jgq_ProtocolType req then False
      else if \<not> sameStringPtr (m_InstanceID m) (jgq_InstanceID req) then False
      else if length (m_Protocols m) \<noteq> length (jgq_Protocols req) then False
      else same_protocols (m_Protocols m) (jgq_Protocols req))"

definition rebalanceTimeout :: "GroupManager \<Rightarrow> JoinGroupRequest \<Rightarrow> int" where
  "rebalanceTimeout gm req =
     (let ms = (if sint (jgq_RebalanceTimeoutMs req) \<le> 0 then jgq_SessionTimeoutMs req else jgq_RebalanceTimeoutMs req)
      in if sint ms \<le> 0
         then (if gm_defaultRebalance gm > 0 then gm_defaultRebalance gm else 10000 * Millisecond)
         else sint ms * Millisecond)"

definition member_response :: "gostring \<Rightarrow> Member \<Rightarrow> JoinGroupResponseMember" where
  "member_response proto m =
     \<lparr>jsm_MemberID = m_ID m, jsm_InstanceID = m_InstanceID m,
      jsm_Metadata = (case find (\<lambda>p. jrp_Name p = proto) (m_Protocols m) of None \<Rightarrow> None | Some p \<Rightarrow> jrp_Metadata p)\<rparr>"

definition fillJoinResponse :: "Group \<Rightarrow> JoinGroupResponse \<Rightarrow> gostring \<Rightarrow> JoinGroupResponse" where
  "fillJoinResponse g resp memberID =
     resp\<lparr>jgs_GenerationID := g_Generation g, jgs_ProtocolName := g_Protocol g, jgs_LeaderID := g_LeaderID g,
          jgs_MemberID := memberID,
          jgs_Members := (if memberID \<noteq> g_LeaderID g then []
             else map (member_response (g_Protocol g)) (List.map_filter (map_of (g_Members g)) (g_JoinOrder g)))\<rparr>"

record join_wait =
  jw_group :: gostring
  jw_member :: gostring
  jw_deadline :: int
  jw_notify :: nat
  jw_resp :: JoinGroupResponse

datatype join_outcome = JoinDone JoinGroupResponse | JoinWait join_wait

text \<open>The head of the waiting loop, up to giving up the lock, with what follows the loop.\<close>

definition join_loop :: "int \<Rightarrow> gostring \<Rightarrow> gostring \<Rightarrow> int \<Rightarrow> JoinGroupResponse \<Rightarrow> Group \<Rightarrow> (join_outcome \<times> Group) res" where
  "join_loop now name memberID deadline resp g =
     (if g_State g \<noteq> StatePreparingRebalance then Inr (JoinDone (fillJoinResponse g resp memberID), g)
      else if deadline - now \<le> 0
      then res_bind (expireRebalance g) (\<lambda>g'. Inr (JoinDone (fillJoinResponse g' resp memberID), g'))
      else Inr (JoinWait \<lparr>jw_group = name, jw_member = memberID, jw_deadline = deadline,
                  jw_notify = g_joinNotify g, jw_resp = resp\<rparr>, g))"

text \<open>The rest of the loop body, once the lock is held again.\<close>

definition join_wake :: "int \<Rightarrow> join_wait \<Rightarrow> Group \<Rightarrow> (join_outcome \<times> Group) res" where
  "join_wake now w g =
     (if map_of (g_Members g) (jw_member w) = None
      then Inr (JoinDone ((jw_resp w)\<lparr>jgs_ErrorCode := ErrUnknownMemberID\<rparr>), g)
      else if \<not> now < jw_deadline w
      then res_bind (expireRebalance g) (\<lambda>g'. Inr (JoinDone (fillJoinResponse g' (jw_resp w) (jw_member w)), g'))
      else join_loop now (jw_group w) (jw_member w) (jw_deadline w) (jw_resp w) g)"

text \<open>A member after a join: the new one, or the old one with the fields of the request.\<close>

definition joinedMember :: "GroupManager \<Rightarrow> int \<Rightarrow> JoinGroupRequest \<Rightarrow> gostring \<Rightarrow> Member" where
  "joinedMember gm now req mid =
     \<lparr>m_ID = mid, m_InstanceID = jgq_InstanceID req, m_SessionTimeout = jgq_SessionTimeoutMs req,
      m_RebalanceTimeout = rebalanceTimeout gm req, m_ProtocolType = jgq_ProtocolType req,
      m_Protocols = jgq_Protocols req, m_LastHeartbeat = now\<rparr>"

text \<open>The second half of \<^verbatim>\<open>JoinGroup\<close>, from \<^verbatim>\<open>if g.State != StatePreparingRebalance\<close> on.\<close>

definition join_round :: "int \<Rightarrow> gostring \<Rightarrow> JoinGroupResponse \<Rightarrow> Group \<Rightarrow> (join_outcome \<times> Group) res" where
  "join_round now memberID resp g =
     (let g1 = (if g_State g \<noteq> StatePreparingRebalance then beginRebalance now g else g);
          g2 = g1\<lparr>g_joined := List.insert memberID (g_joined g1)\<rparr>
      in if length (g_joined g2) \<ge> length (g_Members g2)
         then res_bind (completeJoin g2) (\<lambda>g3. Inr (JoinDone (fillJoinResponse g3 resp memberID), g3))
         else join_loop now (g_Name g) memberID (g_rebalanceDeadline g2) resp g2)"

definition join_response :: "JoinGroupRequest \<Rightarrow> JoinGroupResponse" where
  "join_response req =
     \<lparr>jgs_Version = jgq_Version req, jgs_ThrottleTimeMs = 0, jgs_ErrorCode = ErrNone, jgs_GenerationID = -1,
      jgs_ProtocolName = [], jgs_LeaderID = [], jgs_MemberID = jgq_MemberID req, jgs_Members = []\<rparr>"

definition join_rest :: "int \<Rightarrow> GroupManager \<Rightarrow> JoinGroupRequest \<Rightarrow> gostring \<Rightarrow> Group \<Rightarrow> (join_outcome \<times> GroupManager) res" where
  "join_rest now gm req mid g =
     res_bind (join_round now mid ((join_response req)\<lparr>jgs_MemberID := mid\<rparr>) g) (\<lambda>(r, g').
       Inr (r, put_group (jgq_Group req) g' gm))"

text \<open>The empty string is never a member id, so a request without an id is one of a new member.\<close>

definition known_member :: "JoinGroupRequest \<Rightarrow> Group \<Rightarrow> Member option" where
  "known_member req g = (if jgq_MemberID req = [] then None else map_of (g_Members g) (jgq_MemberID req))"

definition JoinGroup :: "int \<Rightarrow> GroupManager \<Rightarrow> JoinGroupRequest \<Rightarrow> (join_outcome \<times> GroupManager) res" where
  "JoinGroup now gm0 req =
     (case getOrCreate gm0 (jgq_Group req) of (g, gm) \<Rightarrow>
        if jgq_Protocols req = []
        then Inr (JoinDone ((join_response req)\<lparr>jgs_ErrorCode := ErrInconsistentGroupProtocol\<rparr>), gm)
        else case known_member req g of
          Some member \<Rightarrow>
            let mid = jgq_MemberID req
            in if g_State g = StateStable \<and> sameMemberMetadata member req
               then let g1 = g\<lparr>g_Members := AList.update mid (member\<lparr>m_LastHeartbeat := now\<rparr>) (g_Members g)\<rparr>
                    in Inr (JoinDone (fillJoinResponse g1 (join_response req) mid), put_group (jgq_Group req) g1 gm)
               else join_rest now gm req mid
                      (g\<lparr>g_Members := AList.update mid ((joinedMember gm now req mid)\<lparr>m_ID := m_ID member\<rparr>) (g_Members g)\<rparr>)
        | None \<Rightarrow>
            (case nextMemberID gm of (mid, gm1) \<Rightarrow>
               join_rest now gm1 req mid
                 (g\<lparr>g_Members := AList.update mid (joinedMember gm now req mid) (g_Members g),
                    g_JoinOrder := g_JoinOrder g @ [mid]\<rparr>)))"

end
