(* ===== verification/Group_Requests.thy ===== *)
theory Group_Requests
  imports Group_State
begin

text \<open>
  The other handlers of the consumer groups (\<^verbatim>\<open>src/internal/coordinator/group.go\<close>):
  SyncGroup, Heartbeat, LeaveGroup, OffsetCommit, OffsetFetch, the administrative calls
  and the session reaper.
\<close>

subsection \<open>SyncGroup\<close>

record sync_wait =
  sw_req :: SyncGroupRequest
  sw_deadline :: int
  sw_changed :: nat

datatype sync_outcome = SyncDone SyncGroupResponse | SyncWait sync_wait

definition sync_response :: "SyncGroupRequest \<Rightarrow> int16 \<Rightarrow> SyncGroupResponse" where
  "sync_response req code =
     \<lparr>sgs_Version = sgq_Version req, sgs_ThrottleTimeMs = 0, sgs_ErrorCode = code, sgs_Assignment = None\<rparr>"

text \<open>What follows the waiting loop.\<close>

definition sync_finish :: "SyncGroupRequest \<Rightarrow> Group \<Rightarrow> sync_outcome \<times> Group" where
  "sync_finish req g =
     (let resp = (case map_of (g_assignments g) (sgq_MemberID req) of
                    Some a \<Rightarrow> (sync_response req ErrNone)\<lparr>sgs_Assignment := a\<rparr>
                  | None \<Rightarrow> sync_response req ErrNone)
      in (SyncDone resp,
          if g_State g = StateCompletingRebalance \<and> sgq_GenerationID req = g_Generation g
          then g\<lparr>g_State := StateStable\<rparr> else g))"

text \<open>One pass of the loop, from its head to the wait; it is also what runs after a wake-up.\<close>

definition sync_loop :: "int \<Rightarrow> int \<Rightarrow> SyncGroupRequest \<Rightarrow> Group \<Rightarrow> sync_outcome \<times> Group" where
  "sync_loop now deadline req g =
     (if map_of (g_assignments g) (sgq_MemberID req) \<noteq> None then sync_finish req g
      else if g_State g \<noteq> StateCompletingRebalance \<or> g_Generation g \<noteq> sgq_GenerationID req then sync_finish req g
      else if deadline - now \<le> 0 then sync_finish req g
      else (SyncWait \<lparr>sw_req = req, sw_deadline = deadline, sw_changed = g_assignmentsChanged g\<rparr>, g))"

definition store_assignments :: "SyncGroupRequest \<Rightarrow> Group \<Rightarrow> Group" where
  "store_assignments req g =
     g\<lparr>g_assignments := fold (\<lambda>a. AList.update (sra_MemberID a) (sra_Assignment a)) (sgq_Assignments req) (g_assignments g),
       g_assignmentsChanged := Suc (g_assignmentsChanged g)\<rparr>"

definition sync_group :: "int \<Rightarrow> SyncGroupRequest \<Rightarrow> Group \<Rightarrow> sync_outcome \<times> Group" where
  "sync_group now req g =
     (if g_State g = StatePreparingRebalance then (SyncDone (sync_response req ErrRebalanceInProgress), g)
      else if map_of (g_Members g) (sgq_MemberID req) = None then (SyncDone (sync_response req ErrUnknownMemberID), g)
      else if sgq_GenerationID req \<noteq> g_Generation g then (SyncDone (sync_response req ErrIllegalGeneration), g)
      else let g1 = store_assignments req g
           in if map_of (g_assignments g1) (sgq_MemberID req) = None \<and> sgq_MemberID req \<noteq> g_LeaderID g1
              then sync_loop now (now + syncWaitTimeout) req g1
              else sync_finish req g1)"

definition SyncGroup :: "int \<Rightarrow> GroupManager \<Rightarrow> SyncGroupRequest \<Rightarrow> sync_outcome \<times> GroupManager" where
  "SyncGroup now gm0 req =
     (case getOrCreate gm0 (sgq_Group req) of (g, gm) \<Rightarrow>
        case sync_group now req g of (r, g') \<Rightarrow> (r, put_group (sgq_Group req) g' gm))"

definition sync_wake :: "int \<Rightarrow> sync_wait \<Rightarrow> Group \<Rightarrow> sync_outcome \<times> Group" where
  "sync_wake now w g = sync_loop now (sw_deadline w) (sw_req w) g"

subsection \<open>Heartbeat and LeaveGroup\<close>

definition hb_response :: "HeartbeatRequest \<Rightarrow> int16 \<Rightarrow> HeartbeatResponse" where
  "hb_response req code = \<lparr>hbs_Version = hbq_Version req, hbs_ThrottleTimeMs = 0, hbs_ErrorCode = code\<rparr>"

definition Heartbeat :: "int \<Rightarrow> GroupManager \<Rightarrow> HeartbeatRequest \<Rightarrow> HeartbeatResponse \<times> GroupManager" where
  "Heartbeat now gm req =
     (case get_group gm (hbq_Group req) of
        None \<Rightarrow> (hb_response req ErrUnknownMemberID, gm)
      | Some g \<Rightarrow>
          (case map_of (g_Members g) (hbq_MemberID req) of
             None \<Rightarrow> (hb_response req ErrUnknownMemberID, gm)
           | Some member \<Rightarrow>
               if g_State g = StatePreparingRebalance then (hb_response req ErrRebalanceInProgress, gm)
               else if hbq_GenerationID req \<noteq> g_Generation g then (hb_response req ErrIllegalGeneration, gm)
               else (hb_response req ErrNone,
                     put_group (hbq_Group req)
                       (g\<lparr>g_Members := AList.update (hbq_MemberID req) (member\<lparr>m_LastHeartbeat := now\<rparr>) (g_Members g)\<rparr>) gm)))"

text \<open>The members a request names, and those of them that are taken out.\<close>

definition leaving :: "LeaveGroupRequest \<Rightarrow> gostring list" where
  "leaving req = (if sint (lgq_Version req) < 3 then [lgq_MemberID req] else map lgqm_MemberID (lgq_Members req))"

fun leave_loop :: "gostring list \<Rightarrow> Group \<Rightarrow> LeaveGroupResponseMember list \<times> Group" where
  "leave_loop [] g = ([], g)"
| "leave_loop (mid # ids) g =
     (if map_of (g_Members g) mid \<noteq> None
      then case leave_loop ids (g\<lparr>g_Members := removeMembers [mid] (g_Members g), g_joined := removeAll mid (g_joined g)\<rparr>) of
             (ms, g') \<Rightarrow> (\<lparr>lgsm_MemberID = mid, lgsm_InstanceID = None\<rparr> # ms, g')
      else leave_loop ids g)"

definition leave_group :: "int \<Rightarrow> gostring list \<Rightarrow> Group \<Rightarrow> (LeaveGroupResponseMember list \<times> Group) res" where
  "leave_group now toRemove g =
     (case leave_loop toRemove g of (ms, g1) \<Rightarrow>
        let g2 = g1\<lparr>g_JoinOrder := filterOrder (g_JoinOrder g1) toRemove\<rparr>
        in if g_Members g2 = [] then Inr (ms, g2\<lparr>g_State := StateEmpty, g_Generation := 0, g_LeaderID := []\<rparr>)
           else if g_State g2 = StatePreparingRebalance \<and> length (g_joined g2) \<ge> length (g_Members g2)
           then res_bind (completeJoin g2) (\<lambda>g3. Inr (ms, g3))
           else Inr (ms, beginRebalance now g2))"

definition LeaveGroup :: "int \<Rightarrow> GroupManager \<Rightarrow> LeaveGroupRequest \<Rightarrow> (LeaveGroupResponse \<times> GroupManager) res" where
  "LeaveGroup now gm req =
     (let resp = \<lparr>lgs_Version = lgq_Version req, lgs_ThrottleTimeMs = 0, lgs_ErrorCode = ErrNone, lgs_Members = []\<rparr>
      in case get_group gm (lgq_Group req) of
           None \<Rightarrow> Inr (resp, gm)
         | Some g \<Rightarrow>
             res_bind (leave_group now (leaving req) g) (\<lambda>(ms, g').
               Inr (resp\<lparr>lgs_Members := ms\<rparr>, put_group (lgq_Group req) g' gm)))"

subsection \<open>Offsets\<close>

definition commit_fence :: "OffsetCommitRequest \<Rightarrow> Group \<Rightarrow> int16" where
  "commit_fence req g =
     (if sint (ocq_Generation req) \<ge> 0
      then (if g_State g = StatePreparingRebalance then ErrRebalanceInProgress
            else if map_of (g_Members g) (ocq_MemberID req) = None then ErrUnknownMemberID
            else if ocq_Generation req \<noteq> g_Generation g then ErrIllegalGeneration
            else ErrNone)
      else ErrNone)"

definition commit_topic :: "int16 \<Rightarrow> OffsetCommitRequestTopic \<Rightarrow> OffsetCommitResponseTopic" where
  "commit_topic code t =
     \<lparr>ocst_Topic = ocrt_Topic t,
      ocst_Partitions = map (\<lambda>p. \<lparr>ocsp_Partition = ocrp_Partition p, ocsp_ErrorCode = code\<rparr>) (ocrt_Partitions t)\<rparr>"

definition commit_records :: "OffsetCommitRequest \<Rightarrow> OffsetCommitRecord list" where
  "commit_records req =
     concat (map (\<lambda>t. map (\<lambda>p. \<lparr>ocr_Group = ocq_Group req, ocr_Topic = ocrt_Topic t, ocr_Partition = ocrp_Partition p,
                             ocr_Offset = \<lparr>co_Offset = ocrp_Offset p, co_Metadata = ocrp_Metadata p,
                                           co_LeaderEpoch = ocrp_LeaderEpoch p, co_UpdatedAt = 0\<rparr>\<rparr>)
                         (ocrt_Partitions t)) (ocq_Topics req))"

definition OffsetCommit :: "append_io \<Rightarrow> int64 \<Rightarrow> GroupManager \<Rightarrow> OffsetCommitRequest \<Rightarrow> OffsetCommitResponse \<times> GroupManager" where
  "OffsetCommit io now gm0 req =
     (case getOrCreate gm0 (ocq_Group req) of (g, gm) \<Rightarrow>
        let code = commit_fence req g;
            recs = (if code = ErrNone then commit_records req else []);
            answer = (\<lambda>c. \<lparr>ocs_Version = ocq_Version req, ocs_ThrottleTimeMs = 0, ocs_Topics = map (commit_topic c) (ocq_Topics req)\<rparr>)
        in if recs = [] then (answer code, gm)
           else case CommitBatch io now (gm_offsets gm) recs of
                  (Inl e, s) \<Rightarrow> (answer ErrUnknownServerError, gm\<lparr>gm_offsets := s\<rparr>)
                | (Inr _, s) \<Rightarrow> (answer code, gm\<lparr>gm_offsets := s\<rparr>))"

definition fetch_partition :: "GroupManager \<Rightarrow> gostring \<Rightarrow> gostring \<Rightarrow> int32 \<Rightarrow> OffsetFetchResponsePartition" where
  "fetch_partition gm grp topic pid =
     (case Fetch (gm_offsets gm) grp topic pid of
        None \<Rightarrow> \<lparr>ofsp_Partition = pid, ofsp_Offset = -1, ofsp_LeaderEpoch = -1, ofsp_Metadata = None, ofsp_ErrorCode = 0\<rparr>
      | Some c \<Rightarrow> \<lparr>ofsp_Partition = pid, ofsp_Offset = co_Offset c, ofsp_LeaderEpoch = co_LeaderEpoch c,
                   ofsp_Metadata = co_Metadata c, ofsp_ErrorCode = 0\<rparr>)"

definition OffsetFetch :: "GroupManager \<Rightarrow> OffsetFetchRequest \<Rightarrow> OffsetFetchResponse" where
  "OffsetFetch gm req =
     (let grp = ofq_Group req;
          lookups = (case ofq_Topics req of
                       None \<Rightarrow> map (\<lambda>t. (t, store_Partitions (gm_offsets gm) grp t)) (GroupTopics (gm_offsets gm) grp)
                     | Some ts \<Rightarrow> map (\<lambda>t. (ofrt_Topic t, olist (ofrt_Partitions t))) ts)
      in \<lparr>ofs_Version = ofq_Version req, ofs_ThrottleTimeMs = 0,
          ofs_Topics = map (\<lambda>(t, ps). \<lparr>ofst_Topic = t, ofst_Partitions = map (fetch_partition gm grp t) ps\<rparr>) lookups,
          ofs_ErrorCode = ErrNone\<rparr>)"

definition ResetOffsets :: "append_io \<Rightarrow> int64 \<Rightarrow> GroupManager \<Rightarrow> gostring \<Rightarrow> gostring \<Rightarrow> int32 \<Rightarrow> int64 \<Rightarrow> unit res \<times> GroupManager" where
  "ResetOffsets io now gm grp topic pid ofs =
     (case store_Commit io now (gm_offsets gm) grp topic pid
             \<lparr>co_Offset = ofs, co_Metadata = None, co_LeaderEpoch = 0, co_UpdatedAt = 0\<rparr> of
        (r, s) \<Rightarrow> (r, gm\<lparr>gm_offsets := s\<rparr>))"

definition CommittedGroups :: "GroupManager \<Rightarrow> (gostring \<times> (gostring \<times> (int32 \<times> int64) list) list) list" where
  "CommittedGroups gm =
     filter (\<lambda>(_, offsets). offsets \<noteq> []) (map (\<lambda>name. (name, GroupOffsets (gm_offsets gm) name)) (store_Groups (gm_offsets gm)))"

subsection \<open>Listing, describing and deleting groups\<close>

record GroupInfo =
  gi_Name :: gostring
  gi_State :: gostring
  gi_Generation :: int32
  gi_LeaderID :: gostring
  gi_Members :: "gostring list"
  gi_Offsets :: "(gostring \<times> (int32 \<times> int64) list) list"

definition group_info :: "GroupManager \<Rightarrow> gostring \<Rightarrow> Group \<Rightarrow> gostring list \<Rightarrow> GroupInfo" where
  "group_info gm name g members =
     \<lparr>gi_Name = name, gi_State = GroupState_String (g_State g), gi_Generation = g_Generation g,
      gi_LeaderID = g_LeaderID g, gi_Members = members, gi_Offsets = GroupOffsets (gm_offsets gm) name\<rparr>"

definition ListGroups :: "GroupManager \<Rightarrow> GroupInfo list" where
  "ListGroups gm = map (\<lambda>(name, g). group_info gm name g (g_JoinOrder g)) (gm_groups gm)"

definition ListGroupIDs :: "GroupManager \<Rightarrow> gostring list" where
  "ListGroupIDs gm = map fst (gm_groups gm)"

definition GroupExists :: "GroupManager \<Rightarrow> gostring \<Rightarrow> bool" where
  "GroupExists gm name = (map_of (gm_groups gm) name \<noteq> None)"

definition DescribeGroup :: "GroupManager \<Rightarrow> gostring \<Rightarrow> GroupInfo option" where
  "DescribeGroup gm name =
     map_option (\<lambda>g. group_info gm name g (filter (\<lambda>mid. map_of (g_Members g) mid \<noteq> None) (g_JoinOrder g))) (map_of (gm_groups gm) name)"

definition protocolMetadata :: "JoinGroupRequestProtocol list \<Rightarrow> gostring \<Rightarrow> bytes option" where
  "protocolMetadata ps chosen =
     (case find (\<lambda>p. jrp_Name p = chosen) ps of
        Some p \<Rightarrow> jrp_Metadata p
      | None \<Rightarrow> (case ps of [] \<Rightarrow> None | p # _ \<Rightarrow> jrp_Metadata p))"

text \<open>The loops of \<^verbatim>\<open>decodeAssignmentFrom\<close>: a failed read ends its own loop, and what was read stays.\<close>

primrec decode_parts :: "nat \<Rightarrow> Reader \<Rightarrow> int32 list \<times> Reader" where
  "decode_parts 0 r = ([], r)"
| "decode_parts (Suc n) r =
     (case ReadInt32 r of
        Inl _ \<Rightarrow> ([], r)
      | Inr (p, r') \<Rightarrow> (case decode_parts n r' of (ps, r'') \<Rightarrow> (p # ps, r'')))"

primrec decode_topics :: "nat \<Rightarrow> Reader \<Rightarrow> (gostring \<times> int32 list) list \<Rightarrow> (gostring \<times> int32 list) list" where
  "decode_topics 0 r out = out"
| "decode_topics (Suc n) r out =
     (case ReadString r of
        Inl _ \<Rightarrow> out
      | Inr (topic, r1) \<Rightarrow>
          (case ReadArrayLen r1 of
             Inl _ \<Rightarrow> out
           | Inr (pn, r2) \<Rightarrow>
               if pn < 0 then out
               else case decode_parts (nat pn) r2 of (ps, r3) \<Rightarrow> decode_topics n r3 (AList.update topic ps out)))"

definition decodeAssignmentFrom :: "bytes \<Rightarrow> (gostring \<times> int32 list) list" where
  "decodeAssignmentFrom b =
     (if b = [] then []
      else case ReadArrayLen (NewReader b) of
             Inl _ \<Rightarrow> []
           | Inr (n, r) \<Rightarrow> if n < 0 then [] else decode_topics (nat n) r [])"

record MemberInfo =
  mi_MemberID :: gostring
  mi_ClientID :: gostring
  mi_ClientHost :: gostring
  mi_ProtocolType :: gostring
  mi_Metadata :: "bytes option"
  mi_Assignment :: "bytes option"
  mi_Assigned :: "(gostring \<times> int32 list) list"

definition member_info :: "Group \<Rightarrow> gostring \<Rightarrow> Member \<Rightarrow> MemberInfo" where
  "member_info g mid m =
     (let mi = \<lparr>mi_MemberID = m_ID m, mi_ClientID = m_ID m, mi_ClientHost = str ''/'' @ m_ID m,
                mi_ProtocolType = m_ProtocolType m, mi_Metadata = protocolMetadata (m_Protocols m) (g_Protocol g),
                mi_Assignment = None, mi_Assigned = []\<rparr>
      in case map_of (g_assignments g) mid of
           None \<Rightarrow> mi
         | Some a \<Rightarrow> mi\<lparr>mi_Assignment := a, mi_Assigned := decodeAssignmentFrom (obytes a)\<rparr>)"

definition MembersDetail :: "GroupManager \<Rightarrow> gostring \<Rightarrow> MemberInfo list" where
  "MembersDetail gm name =
     (case map_of (gm_groups gm) name of
        None \<Rightarrow> []
      | Some g \<Rightarrow> List.map_filter (\<lambda>mid. map_option (member_info g mid) (map_of (g_Members g) mid)) (g_JoinOrder g))"

definition DeleteGroup :: "compact_io \<Rightarrow> GroupManager \<Rightarrow> gostring \<Rightarrow> unit res \<times> GroupManager" where
  "DeleteGroup io gm name =
     (case map_of (gm_groups gm) name of
        None \<Rightarrow> (Inr (), gm)
      | Some g \<Rightarrow>
          if g_Members g \<noteq> [] then (Inl NonEmptyGroup, gm)
          else case store_DeleteGroup io (gm_offsets gm) name of
                 (r, s) \<Rightarrow> (r, gm\<lparr>gm_groups := AList.delete name (gm_groups gm), gm_offsets := s\<rparr>))"

subsection \<open>The session reaper\<close>

definition expired :: "int \<Rightarrow> int32 \<Rightarrow> Member \<Rightarrow> bool" where
  "expired now defaultSession m =
     (let timeout = (if sint (m_SessionTimeout m) \<le> 0 then defaultSession else m_SessionTimeout m)
      in if sint timeout \<le> 0 then False else now - m_LastHeartbeat m > sint timeout * Millisecond)"

definition reapExpired :: "int \<Rightarrow> int32 \<Rightarrow> Group \<Rightarrow> (nat \<times> Group) res" where
  "reapExpired now defaultSession g =
     (let dead = map fst (filter (\<lambda>(_, m). expired now defaultSession m) (g_Members g))
      in if dead = [] then Inr (0, g)
         else let g1 = g\<lparr>g_Members := removeMembers dead (g_Members g),
                         g_joined := filter (\<lambda>mid. mid \<notin> set dead) (g_joined g),
                         g_JoinOrder := filterOrder (g_JoinOrder g) dead\<rparr>
              in if g_Members g1 = []
                 then Inr (length dead, g1\<lparr>g_State := StateEmpty, g_Generation := 0, g_LeaderID := []\<rparr>)
                 else if g_State g1 = StatePreparingRebalance
                 then (if length (g_joined g1) \<ge> length (g_Members g1)
                       then res_bind (completeJoin g1) (\<lambda>g2. Inr (length dead, g2))
                       else Inr (length dead, g1))
                 else Inr (length dead, beginRebalance now g1))"

fun reap_all :: "int \<Rightarrow> int32 \<Rightarrow> (gostring \<times> Group) list \<Rightarrow> (nat \<times> (gostring \<times> Group) list) res" where
  "reap_all now d [] = Inr (0, [])"
| "reap_all now d ((name, g) # gs) =
     res_bind (reapExpired now d g) (\<lambda>(k, g').
     res_bind (reap_all now d gs) (\<lambda>(n, gs'). Inr (k + n, (name, g') # gs')))"

definition ReapExpiredSessions :: "int \<Rightarrow> GroupManager \<Rightarrow> (nat \<times> GroupManager) res" where
  "ReapExpiredSessions now gm =
     res_bind (reap_all now (gm_defaultSession gm) (gm_groups gm)) (\<lambda>(n, gs). Inr (n, gm\<lparr>gm_groups := gs\<rparr>))"

end
