(* ===== verification/Group_Props.thy ===== *)
theory Group_Props
  imports Group_Requests
begin

text \<open>
  Invariant of a consumer group and what its operations do.  \<open>group_ok\<close> ties the member
  map, the join order, the set of members that joined the rebalance and the state together;
  every handler keeps it, and under it no handler panics.
\<close>

subsection \<open>Member maps\<close>

abbreviation member_ids :: "Group \<Rightarrow> gostring set" where
  "member_ids g \<equiv> fst ` set (g_Members g)"

lemma map_of_None_ids: "map_of xs k = None \<longleftrightarrow> k \<notin> fst ` set xs"
  by (rule map_of_eq_None_iff)

lemma removeMembers_keys: "map fst (removeMembers dead ms) = filter (\<lambda>i. i \<notin> set dead) (map fst ms)"
  by (induction ms) (auto simp: removeMembers_def)

lemma removeMembers_ids [simp]: "fst ` set (removeMembers dead ms) = fst ` set ms - set dead"
  by (force simp: removeMembers_def)

lemma map_of_removeMembers:
  "map_of (removeMembers dead ms) i = (if i \<in> set dead then None else map_of ms i)"
  by (induction ms) (auto simp: removeMembers_def)

lemma length_removeMembers: "length (removeMembers dead ms) = length (filter (\<lambda>i. i \<notin> set dead) (map fst ms))"
  by (metis length_map removeMembers_keys)

lemma update_same_keys: "map_of ms i \<noteq> None \<Longrightarrow> map fst (AList.update i m ms) = map fst ms"
  by (induction ms) auto

lemma update_new_keys: "map_of ms i = None \<Longrightarrow> map fst (AList.update i m ms) = map fst ms @ [i]"
  by (induction ms) (auto split: if_splits)

subsection \<open>The invariant\<close>

definition group_ok :: "Group \<Rightarrow> bool" where
  "group_ok g \<longleftrightarrow>
     distinct (map fst (g_Members g)) \<and> distinct (g_JoinOrder g) \<and> set (g_JoinOrder g) = member_ids g
     \<and> distinct (g_joined g) \<and> set (g_joined g) \<subseteq> member_ids g
     \<and> (g_State g = StateEmpty \<longleftrightarrow> g_Members g = [])
     \<and> (g_State g = StatePreparingRebalance \<longrightarrow> length (g_joined g) < length (g_Members g))
     \<and> (g_State g \<noteq> StatePreparingRebalance \<longrightarrow> g_joined g = [])
     \<and> (g_State g = StateCompletingRebalance \<or> g_State g = StateStable \<longrightarrow> g_LeaderID g = hd (g_JoinOrder g))"

text \<open>The part of it that holds in the middle of a handler as well.\<close>

definition members_ok :: "Group \<Rightarrow> bool" where
  "members_ok g \<longleftrightarrow>
     distinct (map fst (g_Members g)) \<and> distinct (g_JoinOrder g) \<and> set (g_JoinOrder g) = member_ids g
     \<and> distinct (g_joined g) \<and> set (g_joined g) \<subseteq> member_ids g"

lemma group_members_ok: "group_ok g \<Longrightarrow> members_ok g"
  by (simp add: group_ok_def members_ok_def)

lemma newGroup_ok: "group_ok (newGroup name)"
  by (simp add: group_ok_def newGroup_def)

lemma members_order: "members_ok g \<Longrightarrow> g_Members g \<noteq> [] \<Longrightarrow> \<exists>lead rest m. g_JoinOrder g = lead # rest \<and> map_of (g_Members g) lead = Some m"
proof -
  assume ok: "members_ok g" and "g_Members g \<noteq> []"
  then have "set (g_JoinOrder g) \<noteq> {}" by (simp add: members_ok_def)
  then obtain lead rest where "g_JoinOrder g = lead # rest" by (cases "g_JoinOrder g") auto
  moreover from this ok have "map_of (g_Members g) lead \<noteq> None" by (auto simp: members_ok_def map_of_None_ids)
  ultimately show ?thesis by auto
qed

subsection \<open>Rebalancing\<close>

lemma completeJoin_ok:
  assumes "members_ok g"
  shows "\<exists>g'. completeJoin g = Inr g' \<and> group_ok g' \<and> g_Members g' = g_Members g \<and> g_JoinOrder g' = g_JoinOrder g
    \<and> g_joined g' = [] \<and> g_State g' = (if g_Members g = [] then StateEmpty else StateCompletingRebalance)
    \<and> g_Name g' = g_Name g"
proof (cases "g_Members g = []")
  case True
  with assms show ?thesis by (simp add: completeJoin_def closeJoinWaiters_def group_ok_def members_ok_def)
next
  case False
  with members_order [OF assms] obtain lead rest m where
    "g_JoinOrder g = lead # rest" "map_of (g_Members g) lead = Some m" by blast
  with False assms show ?thesis by (simp add: completeJoin_def closeJoinWaiters_def group_ok_def members_ok_def)
qed

lemma beginRebalance_ok: "members_ok g \<Longrightarrow> g_Members g \<noteq> [] \<Longrightarrow> group_ok (beginRebalance now g)"
  by (simp add: beginRebalance_def group_ok_def members_ok_def)

lemma remove_members_ok:
  "members_ok g \<Longrightarrow> set joined = set (g_joined g) - set dead \<Longrightarrow> distinct joined \<Longrightarrow>
     members_ok (g\<lparr>g_Members := removeMembers dead (g_Members g), g_joined := joined, g_JoinOrder := filterOrder (g_JoinOrder g) dead\<rparr>)"
  by (auto simp: members_ok_def removeMembers_keys filterOrder_def)

lemma expireRebalance_ok:
  assumes "members_ok g"
  shows "\<exists>g'. expireRebalance g = Inr g' \<and> group_ok g'
    \<and> member_ids g' = set (g_joined g) \<and> g_joined g' = []
    \<and> g_State g' = (if g_joined g = [] then StateEmpty else StateCompletingRebalance) \<and> g_Name g' = g_Name g"
proof -
  let ?dead = "filter (\<lambda>i. i \<notin> set (g_joined g)) (map fst (g_Members g))"
  let ?g = "g\<lparr>g_Members := removeMembers ?dead (g_Members g), g_JoinOrder := filterOrder (g_JoinOrder g) ?dead\<rparr>"
  have ids: "member_ids ?g = set (g_joined g)" using assms by (auto simp: members_ok_def)
  have "set (g_joined g) = set (g_joined g) - set ?dead" by auto
  with remove_members_ok [OF assms, of "g_joined g" ?dead] assms have "members_ok ?g"
    by (simp add: members_ok_def)
  from completeJoin_ok [OF this] obtain g' where g': "completeJoin ?g = Inr g'" "group_ok g'" "g_Members g' = g_Members ?g"
    "g_joined g' = []" "g_State g' = (if g_Members ?g = [] then StateEmpty else StateCompletingRebalance)" "g_Name g' = g_Name g"
    by auto
  moreover have "g_Members ?g = [] \<longleftrightarrow> g_joined g = []" using ids by (metis image_is_empty set_empty)
  ultimately show ?thesis using ids by (auto simp: expireRebalance_def Let_def)
qed

subsection \<open>JoinGroup\<close>

text \<open>What a step of a handler may do to a group: keep the invariant and its name, add no member.\<close>

definition shrinks :: "Group \<Rightarrow> Group \<Rightarrow> bool" where
  "shrinks g g' \<longleftrightarrow> group_ok g' \<and> g_Name g' = g_Name g \<and> member_ids g' \<subseteq> member_ids g"

lemma shrinks_refl: "group_ok g \<Longrightarrow> shrinks g g"
  by (simp add: shrinks_def)

lemma completeJoin_shrinks: "members_ok g \<Longrightarrow> \<exists>g'. completeJoin g = Inr g' \<and> shrinks g g'"
  using completeJoin_ok [of g] by (auto simp: shrinks_def)

lemma expireRebalance_shrinks: "members_ok g \<Longrightarrow> \<exists>g'. expireRebalance g = Inr g' \<and> shrinks g g'"
  using expireRebalance_ok [of g] by (fastforce simp: shrinks_def members_ok_def)

lemma join_loop_ok: "group_ok g \<Longrightarrow> \<exists>r g'. join_loop now name i deadline resp g = Inr (r, g') \<and> shrinks g g'"
  using expireRebalance_shrinks [OF group_members_ok, of g] shrinks_refl [of g] by (auto simp: join_loop_def)

lemma join_wake_ok: "group_ok g \<Longrightarrow> \<exists>r g'. join_wake now w g = Inr (r, g') \<and> shrinks g g'"
  using expireRebalance_shrinks [OF group_members_ok, of g] shrinks_refl [of g] join_loop_ok [of g]
  by (auto simp: join_wake_def)

lemma beginRebalance_fields [simp]:
  "g_Members (beginRebalance now g) = g_Members g" "g_JoinOrder (beginRebalance now g) = g_JoinOrder g"
  "g_Name (beginRebalance now g) = g_Name g" "g_joined (beginRebalance now g) = []"
  "g_State (beginRebalance now g) = StatePreparingRebalance"
  by (simp_all add: beginRebalance_def)

lemma distinct_insert_list: "distinct xs \<Longrightarrow> distinct (List.insert x xs)"
  by (simp add: List.insert_def)

lemma join_round_ok:
  assumes "members_ok g" and "i \<in> member_ids g" and "g_State g \<noteq> StatePreparingRebalance \<longrightarrow> g_joined g = []"
  shows "\<exists>r g'. join_round now i resp g = Inr (r, g') \<and> shrinks g g'"
proof -
  let ?g1 = "if g_State g \<noteq> StatePreparingRebalance then beginRebalance now g else g"
  let ?g2 = "?g1\<lparr>g_joined := List.insert i (g_joined ?g1)\<rparr>"
  have eq: "g_Members ?g2 = g_Members g" "g_JoinOrder ?g2 = g_JoinOrder g" "g_Name ?g2 = g_Name g"
    "g_State ?g2 = StatePreparingRebalance" by auto
  have "set (g_joined ?g1) \<subseteq> member_ids g" "distinct (g_joined ?g1)" using assms(1) by (auto simp: members_ok_def)
  then have m: "members_ok ?g2" using assms(1,2) eq by (auto simp: members_ok_def distinct_insert_list)
  show ?thesis
  proof (cases "length (g_joined ?g2) \<ge> length (g_Members ?g2)")
    case True
    from completeJoin_shrinks [OF m] obtain g' where "completeJoin ?g2 = Inr g'" "shrinks ?g2 g'" by blast
    with True eq show ?thesis by (simp add: join_round_def Let_def shrinks_def)
  next
    case False
    then have "group_ok ?g2" using m eq assms(2) by (auto simp: group_ok_def members_ok_def)
    from join_loop_ok [OF this, of now "g_Name g" i "g_rebalanceDeadline ?g2" resp] False eq show ?thesis
      by (auto simp: join_round_def Let_def shrinks_def)
  qed
qed

lemma update_member_ok:
  "members_ok g \<Longrightarrow> map_of (g_Members g) i \<noteq> None \<Longrightarrow> members_ok (g\<lparr>g_Members := AList.update i m (g_Members g)\<rparr>)
    \<and> member_ids (g\<lparr>g_Members := AList.update i m (g_Members g)\<rparr>) = member_ids g"
  using update_same_keys [of "g_Members g" i m] by (simp add: members_ok_def flip: set_map)

lemma add_member_ok:
  assumes "members_ok g" and "i \<notin> member_ids g"
  shows "members_ok (g\<lparr>g_Members := AList.update i m (g_Members g), g_JoinOrder := g_JoinOrder g @ [i]\<rparr>)"
    and "fst ` set (AList.update i m (g_Members g)) = insert i (member_ids g)"
  using update_new_keys [of "g_Members g" i m] assms by (auto simp: members_ok_def map_of_None_ids simp flip: set_map)

text \<open>The member a request joins with: its own id when the group knows it, a fresh one otherwise.\<close>

lemma group_ok_same_members:
  "group_ok g \<Longrightarrow> map fst ms = map fst (g_Members g) \<Longrightarrow> group_ok (g\<lparr>g_Members := ms\<rparr>)"
proof -
  assume ok: "group_ok g" and eq: "map fst ms = map fst (g_Members g)"
  then have "length ms = length (g_Members g)" "ms = [] \<longleftrightarrow> g_Members g = []" by (metis length_map, metis map_is_Nil_conv)
  moreover have "fst ` set ms = member_ids g" using eq by (metis set_map)
  ultimately show ?thesis using ok eq by (simp add: group_ok_def)
qed

lemma update_same: "map_of xs k = Some v \<Longrightarrow> AList.update k v xs = xs"
  by (induction xs) auto

lemma put_same: "get_group gm name = Some g \<Longrightarrow> put_group name g gm = gm"
  by (simp add: get_group_def put_group_def update_same)

lemma get_put [simp]: "get_group (put_group name g gm) name' = (if name' = name then Some g else get_group gm name')"
  by (simp add: get_group_def put_group_def update_conv')

lemma getOrCreate_get: "getOrCreate gm0 name = (g, gm) \<Longrightarrow> get_group gm name = Some g"
  by (auto simp: getOrCreate_def split: option.splits)

lemma join_rest_ok:
  assumes "members_ok g1" and "i \<in> member_ids g1" and "g_State g1 \<noteq> StatePreparingRebalance \<longrightarrow> g_joined g1 = []"
  shows "\<exists>r g'. join_rest now gm req i g1 = Inr (r, put_group (jgq_Group req) g' gm) \<and> shrinks g1 g'"
  using join_round_ok [OF assms, where now = now and resp = "(join_response req)\<lparr>jgs_MemberID := i\<rparr>"] by (auto simp: join_rest_def)

lemma JoinGroup_ok:
  assumes get: "getOrCreate gm0 (jgq_Group req) = (g, gm)" and ok: "group_ok g"
    and new: "nextMemberID gm = (i, gm1)" and fresh: "i \<notin> member_ids g"
  shows "\<exists>r g' gm'. JoinGroup now gm0 req = Inr (r, put_group (jgq_Group req) g' gm') \<and> group_ok g' \<and> g_Name g' = g_Name g
    \<and> (gm' = gm \<and> member_ids g' \<subseteq> member_ids g \<or> gm' = gm1 \<and> member_ids g' \<subseteq> insert i (member_ids g))"
proof -
  note mok = group_members_ok [OF ok]
  have j: "g_State g \<noteq> StatePreparingRebalance \<longrightarrow> g_joined g = []" using ok by (simp add: group_ok_def)
  consider "jgq_Protocols req = []" | "jgq_Protocols req \<noteq> []" "known_member req g = None"
    | m where "jgq_Protocols req \<noteq> []" "known_member req g = Some m" by fastforce
  then show ?thesis
  proof cases
    case 1
    with get ok put_same [OF getOrCreate_get [OF get]] show ?thesis
      by (auto simp: JoinGroup_def intro!: exI [of _ g] exI [of _ gm])
  next
    case 2
    let ?m = "joinedMember gm now req i"
    let ?g1 = "g\<lparr>g_Members := AList.update i ?m (g_Members g), g_JoinOrder := g_JoinOrder g @ [i]\<rparr>"
    have ids: "member_ids ?g1 = insert i (member_ids g)" using add_member_ok(2) [OF mok fresh] by simp
    have "i \<in> member_ids ?g1" and j1: "g_State ?g1 \<noteq> StatePreparingRebalance \<longrightarrow> g_joined ?g1 = []"
      using ids j by simp_all
    from join_rest_ok [OF add_member_ok(1) [OF mok fresh] this] obtain r g' where
      r: "join_rest now gm1 req i ?g1 = Inr (r, put_group (jgq_Group req) g' gm1)" "shrinks ?g1 g'" by blast
    have "JoinGroup now gm0 req = Inr (r, put_group (jgq_Group req) g' gm1)"
      using 2 get new r(1) by (simp add: JoinGroup_def)
    with r(2) ids show ?thesis unfolding shrinks_def by auto
  next
    case (3 m)
    then have m: "map_of (g_Members g) (jgq_MemberID req) = Some m" by (simp add: known_member_def split: if_splits)
    let ?i = "jgq_MemberID req"
    have upd: "group_ok (g\<lparr>g_Members := AList.update ?i x (g_Members g)\<rparr>)"
      "member_ids (g\<lparr>g_Members := AList.update ?i x (g_Members g)\<rparr>) = member_ids g" for x
      using group_ok_same_members [OF ok] update_same_keys [of "g_Members g" ?i x] m update_member_ok [OF mok] by simp_all
    show ?thesis
    proof (cases "g_State g = StateStable \<and> sameMemberMetadata m req")
      case True
      let ?g1 = "g\<lparr>g_Members := AList.update ?i (m\<lparr>m_LastHeartbeat := now\<rparr>) (g_Members g)\<rparr>"
      have "JoinGroup now gm0 req = Inr (JoinDone (fillJoinResponse ?g1 (join_response req) ?i), put_group (jgq_Group req) ?g1 gm)"
        using True 3 get by (simp add: JoinGroup_def Let_def)
      moreover have "g_Name ?g1 = g_Name g" "member_ids ?g1 \<subseteq> member_ids g" using upd(2) by simp_all
      ultimately show ?thesis using upd(1) by blast
    next
      case False
      let ?m = "(joinedMember gm now req ?i)\<lparr>m_ID := m_ID m\<rparr>"
      let ?g1 = "g\<lparr>g_Members := AList.update ?i ?m (g_Members g)\<rparr>"
      have "?i \<in> member_ids ?g1" unfolding upd(2) using m by (metis map_of_None_ids option.distinct(1))
      moreover have "g_State ?g1 \<noteq> StatePreparingRebalance \<longrightarrow> g_joined ?g1 = []" using j by simp
      ultimately obtain r g' where
        r: "join_rest now gm req ?i ?g1 = Inr (r, put_group (jgq_Group req) g' gm)" "shrinks ?g1 g'"
        using join_rest_ok [OF group_members_ok [OF upd(1)]] by blast
      have "JoinGroup now gm0 req = Inr (r, put_group (jgq_Group req) g' gm)"
        using False 3 get r(1) by (auto simp: JoinGroup_def Let_def)
      with r(2) upd(2) [of ?m] show ?thesis unfolding shrinks_def by auto
    qed
  qed
qed

subsection \<open>The other handlers\<close>

lemma sync_finish_ok: "group_ok g \<Longrightarrow> shrinks g (snd (sync_finish req g))"
  by (auto simp: sync_finish_def Let_def shrinks_def group_ok_def)

lemma sync_loop_ok: "group_ok g \<Longrightarrow> shrinks g (snd (sync_loop now deadline req g))"
  using sync_finish_ok [of g req] shrinks_refl [of g] by (simp add: sync_loop_def)

lemma store_assignments_ok: "group_ok g \<Longrightarrow> group_ok (store_assignments req g)"
  by (simp add: store_assignments_def group_ok_def)

lemma store_assignments_fields [simp]:
  "g_Name (store_assignments req g) = g_Name g" "g_Members (store_assignments req g) = g_Members g"
  "g_State (store_assignments req g) = g_State g" "g_Generation (store_assignments req g) = g_Generation g"
  "g_LeaderID (store_assignments req g) = g_LeaderID g"
  by (simp_all add: store_assignments_def)

lemma sync_group_ok: "group_ok g \<Longrightarrow> shrinks g (snd (sync_group now req g))"
  using sync_loop_ok [OF store_assignments_ok, of g] sync_finish_ok [OF store_assignments_ok, of g] shrinks_refl [of g]
  by (auto simp: sync_group_def Let_def shrinks_def)

lemma removeMembers_Cons: "removeMembers ids (removeMembers [i] ms) = removeMembers (i # ids) ms"
  by (simp add: removeMembers_def case_prod_unfold conj_commute)

lemma removeMembers_stranger: "i \<notin> fst ` set ms \<Longrightarrow> removeMembers (i # ids) ms = removeMembers ids ms"
  by (force simp: removeMembers_def intro!: filter_cong)

lemma leave_loop_without:
  assumes "set (g_joined g) \<subseteq> member_ids g"
  shows "snd (leave_loop ids g) = g\<lparr>g_Members := removeMembers ids (g_Members g), g_joined := filter (\<lambda>i. i \<notin> set ids) (g_joined g)\<rparr>"
  using assms
proof (induction ids g rule: leave_loop.induct)
  case (1 g)
  then show ?case by (simp add: removeMembers_def)
next
  case (2 i ids g)
  show ?case
  proof (cases "map_of (g_Members g) i")
    case None
    then have i: "i \<notin> member_ids g" by (simp add: map_of_None_ids)
    with "2.prems" have "filter (\<lambda>j. j \<notin> set (i # ids)) (g_joined g) = filter (\<lambda>j. j \<notin> set ids) (g_joined g)"
      by (auto intro!: filter_cong)
    with None "2.IH"(2) "2.prems" removeMembers_stranger [OF i] show ?thesis by simp
  next
    case (Some m)
    let ?g = "g\<lparr>g_Members := removeMembers [i] (g_Members g), g_joined := removeAll i (g_joined g)\<rparr>"
    have "snd (leave_loop ids ?g) = ?g\<lparr>g_Members := removeMembers ids (g_Members ?g), g_joined := filter (\<lambda>i. i \<notin> set ids) (g_joined ?g)\<rparr>"
      using "2.IH"(1) "2.prems" Some by auto
    moreover have "filter (\<lambda>j. j \<notin> set ids) (removeAll i (g_joined g)) = filter (\<lambda>j. j \<notin> set (i # ids)) (g_joined g)"
      by (auto simp: removeAll_filter_not_eq intro!: filter_cong)
    ultimately show ?thesis using Some by (cases "leave_loop ids ?g") (simp add: removeMembers_Cons)
  qed
qed

lemma empty_group_ok:
  "members_ok g \<Longrightarrow> g_Members g = [] \<Longrightarrow> group_ok (g\<lparr>g_State := StateEmpty, g_Generation := 0, g_LeaderID := []\<rparr>)"
  by (simp add: group_ok_def members_ok_def)

lemma preparing_ok:
  "members_ok g \<Longrightarrow> g_State g = StatePreparingRebalance \<Longrightarrow> length (g_joined g) < length (g_Members g) \<Longrightarrow> group_ok g"
  by (auto simp: group_ok_def members_ok_def)

definition dead_members :: "int \<Rightarrow> int32 \<Rightarrow> Group \<Rightarrow> gostring list" where
  "dead_members now d g = map fst (filter (\<lambda>(_, m). expired now d m) (g_Members g))"

definition without :: "gostring list \<Rightarrow> Group \<Rightarrow> Group" where
  "without dead g = g\<lparr>g_Members := removeMembers dead (g_Members g), g_joined := filter (\<lambda>i. i \<notin> set dead) (g_joined g),
     g_JoinOrder := filterOrder (g_JoinOrder g) dead\<rparr>"

lemma without_fields [simp]:
  "member_ids (without dead g) = member_ids g - set dead" "g_Name (without dead g) = g_Name g"
  "g_State (without dead g) = g_State g"
  by (simp_all add: without_def)

lemma without_ok: "group_ok g \<Longrightarrow> members_ok (without dead g)"
  unfolding without_def by (intro remove_members_ok [OF group_members_ok]) (auto simp: group_ok_def)

lemma leave_group_without:
  assumes "group_ok g"
  shows "leave_group now ids g =
     (let ms = fst (leave_loop ids g); g2 = without ids g
      in if g_Members g2 = [] then Inr (ms, g2\<lparr>g_State := StateEmpty, g_Generation := 0, g_LeaderID := []\<rparr>)
         else if g_State g2 = StatePreparingRebalance \<and> length (g_joined g2) \<ge> length (g_Members g2)
         then res_bind (completeJoin g2) (\<lambda>g3. Inr (ms, g3))
         else Inr (ms, beginRebalance now g2))"
proof -
  obtain ms g1 where l: "leave_loop ids g = (ms, g1)" by fastforce
  have "set (g_joined g) \<subseteq> member_ids g" using assms by (simp add: group_ok_def)
  from leave_loop_without [OF this, of ids] l have "g1\<lparr>g_JoinOrder := filterOrder (g_JoinOrder g1) ids\<rparr> = without ids g"
    by (simp add: without_def)
  then show ?thesis unfolding leave_group_def l Let_def prod.case fst_conv by (simp only:)
qed

lemma leave_group_ok:
  assumes "group_ok g"
  shows "\<exists>ms g'. leave_group now ids g = Inr (ms, g') \<and> shrinks g g' \<and> member_ids g' = member_ids g - set ids"
proof -
  define g2 where "g2 = without ids g"
  have m: "members_ok g2" "member_ids g2 = member_ids g - set ids" "g_Name g2 = g_Name g"
    using without_ok [OF assms] by (simp_all add: g2_def)
  note r = leave_group_without [OF assms, of now ids, unfolded Let_def, folded g2_def]
  consider "g_Members g2 = []" | "g_Members g2 \<noteq> []" "g_State g2 = StatePreparingRebalance \<and> length (g_joined g2) \<ge> length (g_Members g2)"
    | "g_Members g2 \<noteq> []" "\<not> (g_State g2 = StatePreparingRebalance \<and> length (g_joined g2) \<ge> length (g_Members g2))" by blast
  then show ?thesis
  proof cases
    case 1
    with r m empty_group_ok [OF m(1)] show ?thesis by (simp add: shrinks_def)
  next
    case 2
    with r m completeJoin_ok [OF m(1)] show ?thesis by (auto simp: shrinks_def)
  next
    case 3
    then have "leave_group now ids g = Inr (fst (leave_loop ids g), beginRebalance now g2)" unfolding r by (simp only: if_False)
    with 3 m beginRebalance_ok [OF m(1), of now] show ?thesis by (simp add: shrinks_def)
  qed
qed

lemma reapExpired_without:
  "reapExpired now d g =
     (let dead = dead_members now d g; g1 = without dead g
      in if dead = [] then Inr (0, g)
         else if g_Members g1 = [] then Inr (length dead, g1\<lparr>g_State := StateEmpty, g_Generation := 0, g_LeaderID := []\<rparr>)
         else if g_State g1 = StatePreparingRebalance
         then (if length (g_joined g1) \<ge> length (g_Members g1) then res_bind (completeJoin g1) (\<lambda>g2. Inr (length dead, g2))
               else Inr (length dead, g1))
         else Inr (length dead, beginRebalance now g1))"
  unfolding reapExpired_def dead_members_def without_def Let_def by simp

lemma reapExpired_ok:
  assumes "group_ok g"
  shows "\<exists>n g'. reapExpired now d g = Inr (n, g') \<and> shrinks g g' \<and> member_ids g' = member_ids g - set (dead_members now d g)"
proof -
  define dead where "dead = dead_members now d g"
  define g1 where "g1 = without dead g"
  have m: "members_ok g1" "member_ids g1 = member_ids g - set dead" "g_Name g1 = g_Name g"
    using without_ok [OF assms] by (simp_all add: g1_def)
  have r: "reapExpired now d g = (if dead = [] then Inr (0, g)
      else if g_Members g1 = [] then Inr (length dead, g1\<lparr>g_State := StateEmpty, g_Generation := 0, g_LeaderID := []\<rparr>)
      else if g_State g1 = StatePreparingRebalance
      then (if length (g_joined g1) \<ge> length (g_Members g1) then res_bind (completeJoin g1) (\<lambda>g2. Inr (length dead, g2))
            else Inr (length dead, g1))
      else Inr (length dead, beginRebalance now g1))"
    unfolding reapExpired_without Let_def dead_def [symmetric] g1_def [symmetric] ..
  consider "dead = []" | "dead \<noteq> []" "g_Members g1 = []"
    | "dead \<noteq> []" "g_Members g1 \<noteq> []" "g_State g1 = StatePreparingRebalance" "length (g_joined g1) \<ge> length (g_Members g1)"
    | "dead \<noteq> []" "g_Members g1 \<noteq> []" "g_State g1 = StatePreparingRebalance" "length (g_joined g1) < length (g_Members g1)"
    | "dead \<noteq> []" "g_Members g1 \<noteq> []" "g_State g1 \<noteq> StatePreparingRebalance" by fastforce
  then have "\<exists>n g'. reapExpired now d g = Inr (n, g') \<and> shrinks g g' \<and> member_ids g' = member_ids g - set dead"
  proof cases
    case 1
    with r shrinks_refl [OF assms] show ?thesis by simp
  next
    case 2
    with r m empty_group_ok [OF m(1)] show ?thesis by (simp add: shrinks_def)
  next
    case 3
    with r m completeJoin_ok [OF m(1)] show ?thesis by (auto simp: shrinks_def)
  next
    case 4
    with r m preparing_ok [OF m(1)] show ?thesis by (simp add: shrinks_def)
  next
    case 5
    with r m beginRebalance_ok [OF m(1), of now] show ?thesis by (simp add: shrinks_def)
  qed
  then show ?thesis by (simp only: dead_def)
qed

lemma dead_members_expired:
  assumes "group_ok g" and "map_of (g_Members g) i = Some m"
  shows "i \<in> set (dead_members now d g) \<longleftrightarrow> expired now d m"
proof -
  have d: "distinct (map fst (g_Members g))" using assms by (simp add: group_ok_def)
  have "(i, y) \<in> set (g_Members g) \<longleftrightarrow> y = m" for y using map_of_eq_Some_iff [OF d] assms(2) by (metis option.inject)
  then show ?thesis by (force simp: dead_members_def)
qed

end
