(* ===== verification/Group_System.thy ===== *)
theory Group_System
  imports Group_Props
begin

text \<open>
  The coordinator as a transition system: any number of clients send requests, requests
  that wait are woken up, time passes.  \<open>cstep\<close> has one rule for each handler of
  \<^verbatim>\<open>src/internal/coordinator/group.go\<close> and one for each wake-up; the invariant of the groups
  and the fencing of members that left hold in every reachable state.
\<close>

subsection \<open>Steps\<close>

record coord =
  c_now :: int
  c_gm :: GroupManager
  c_joins :: "join_wait list"
  c_syncs :: "sync_wait list"

definition start_coord :: "GroupManager \<Rightarrow> int \<Rightarrow> coord" where
  "start_coord gm now = \<lparr>c_now = now, c_gm = gm, c_joins = [], c_syncs = []\<rparr>"

definition after_join :: "join_outcome \<Rightarrow> coord \<Rightarrow> coord" where
  "after_join out s = (case out of JoinDone _ \<Rightarrow> s | JoinWait w \<Rightarrow> s\<lparr>c_joins := w # c_joins s\<rparr>)"

definition after_sync :: "sync_outcome \<Rightarrow> coord \<Rightarrow> coord" where
  "after_sync out s = (case out of SyncDone _ \<Rightarrow> s | SyncWait w \<Rightarrow> s\<lparr>c_syncs := w # c_syncs s\<rparr>)"

inductive cstep :: "coord \<Rightarrow> coord \<Rightarrow> bool" where
  tick: "c_now s \<le> t \<Longrightarrow> cstep s (s\<lparr>c_now := t\<rparr>)"
| join: "gm_nextMemberSeq (c_gm s) < 2 ^ 63 - 1 \<Longrightarrow> JoinGroup (c_now s) (c_gm s) req = Inr (out, gm') \<Longrightarrow>
     cstep s (after_join out (s\<lparr>c_gm := gm'\<rparr>))"
| join_wakes: "c_joins s = ws1 @ w # ws2 \<Longrightarrow> get_group (c_gm s) (jw_group w) = Some g \<Longrightarrow>
     jw_notify w \<noteq> g_joinNotify g \<or> jw_deadline w \<le> c_now s \<Longrightarrow> join_wake (c_now s) w g = Inr (out, g') \<Longrightarrow>
     cstep s (after_join out (s\<lparr>c_joins := ws1 @ ws2, c_gm := put_group (jw_group w) g' (c_gm s)\<rparr>))"
| join_orphan: "c_joins s = ws1 @ w # ws2 \<Longrightarrow> get_group (c_gm s) (jw_group w) = None \<Longrightarrow> cstep s (s\<lparr>c_joins := ws1 @ ws2\<rparr>)"
| sync: "SyncGroup (c_now s) (c_gm s) req = (out, gm') \<Longrightarrow> cstep s (after_sync out (s\<lparr>c_gm := gm'\<rparr>))"
| sync_wakes: "c_syncs s = ws1 @ w # ws2 \<Longrightarrow> get_group (c_gm s) (sgq_Group (sw_req w)) = Some g \<Longrightarrow>
     sync_wake (c_now s) w g = (out, g') \<Longrightarrow>
     cstep s (after_sync out (s\<lparr>c_syncs := ws1 @ ws2, c_gm := put_group (sgq_Group (sw_req w)) g' (c_gm s)\<rparr>))"
| sync_orphan: "c_syncs s = ws1 @ w # ws2 \<Longrightarrow> get_group (c_gm s) (sgq_Group (sw_req w)) = None \<Longrightarrow> cstep s (s\<lparr>c_syncs := ws1 @ ws2\<rparr>)"
| heartbeat: "Heartbeat (c_now s) (c_gm s) req = (resp, gm') \<Longrightarrow> cstep s (s\<lparr>c_gm := gm'\<rparr>)"
| leave: "LeaveGroup (c_now s) (c_gm s) req = Inr (resp, gm') \<Longrightarrow> cstep s (s\<lparr>c_gm := gm'\<rparr>)"
| reap: "ReapExpiredSessions (c_now s) (c_gm s) = Inr (n, gm') \<Longrightarrow> cstep s (s\<lparr>c_gm := gm'\<rparr>)"
| commit: "OffsetCommit io t (c_gm s) req = (resp, gm') \<Longrightarrow> cstep s (s\<lparr>c_gm := gm'\<rparr>)"
| delete: "DeleteGroup cio (c_gm s) name = (r, gm') \<Longrightarrow> cstep s (s\<lparr>c_gm := gm'\<rparr>)"
| reset_offsets: "ResetOffsets io t (c_gm s) name topic pid ofs = (r, gm') \<Longrightarrow> cstep s (s\<lparr>c_gm := gm'\<rparr>)"
| prune: "PruneOffsets cio (c_gm s) (c_now s) retention = (n, gm') \<Longrightarrow> cstep s (s\<lparr>c_gm := gm'\<rparr>)"

subsection \<open>The invariant of the manager\<close>

definition issued :: "GroupManager \<Rightarrow> gostring set" where
  "issued gm = memberName ` {1..gm_nextMemberSeq gm}"

definition group_entry_ok :: "int \<Rightarrow> gostring \<times> Group \<Rightarrow> bool" where
  "group_entry_ok seq x \<longleftrightarrow> group_ok (snd x) \<and> g_Name (snd x) = fst x \<and> member_ids (snd x) \<subseteq> memberName ` {1..seq}"

definition mgr_ok :: "GroupManager \<Rightarrow> bool" where
  "mgr_ok gm \<longleftrightarrow> distinct (map fst (gm_groups gm)) \<and> 0 \<le> gm_nextMemberSeq gm \<and> gm_nextMemberSeq gm < 2 ^ 63
     \<and> (\<forall>x \<in> set (gm_groups gm). group_entry_ok (gm_nextMemberSeq gm) x)"

definition members_in :: "GroupManager \<Rightarrow> gostring \<Rightarrow> gostring set" where
  "members_in gm name = (case get_group gm name of None \<Rightarrow> {} | Some g \<Rightarrow> member_ids g)"

text \<open>Between two states members come in only under ids that were not issued before.\<close>

definition evolves :: "GroupManager \<Rightarrow> GroupManager \<Rightarrow> bool" where
  "evolves gm gm' \<longleftrightarrow> mgr_ok gm' \<and> gm_nextMemberSeq gm \<le> gm_nextMemberSeq gm'
     \<and> (\<forall>name. members_in gm' name \<subseteq> members_in gm name \<union> memberName ` {gm_nextMemberSeq gm<..gm_nextMemberSeq gm'})"

lemma mgr_ok_get: "mgr_ok gm \<Longrightarrow> get_group gm name = Some g \<Longrightarrow> group_ok g \<and> g_Name g = name \<and> member_ids g \<subseteq> issued gm"
proof -
  assume "mgr_ok gm" and "get_group gm name = Some g"
  then have "group_entry_ok (gm_nextMemberSeq gm) (name, g)" unfolding mgr_ok_def get_group_def using map_of_SomeD by fast
  then show ?thesis by (simp add: group_entry_ok_def issued_def)
qed

lemma evolves_refl: "mgr_ok gm \<Longrightarrow> evolves gm gm"
  by (simp add: evolves_def)

lemma subset_chain: "C \<subseteq> B \<union> N2 \<Longrightarrow> B \<subseteq> A \<union> N1 \<Longrightarrow> N1 \<union> N2 \<subseteq> N \<Longrightarrow> C \<subseteq> A \<union> N"
  by blast

lemma evolves_trans: "evolves a b \<Longrightarrow> evolves b c \<Longrightarrow> evolves a c"
proof -
  assume ab: "evolves a b" and bc: "evolves b c"
  let ?N = "\<lambda>x y. memberName ` {gm_nextMemberSeq x<..gm_nextMemberSeq y}"
  have "gm_nextMemberSeq a \<le> gm_nextMemberSeq b" "gm_nextMemberSeq b \<le> gm_nextMemberSeq c"
    using ab bc by (simp_all add: evolves_def)
  then have "{gm_nextMemberSeq a<..gm_nextMemberSeq b} \<union> {gm_nextMemberSeq b<..gm_nextMemberSeq c}
      \<subseteq> {gm_nextMemberSeq a<..gm_nextMemberSeq c}" by auto
  then have "?N a b \<union> ?N b c \<subseteq> ?N a c" by (metis image_Un image_mono)
  note N = this
  have "members_in c n \<subseteq> members_in a n \<union> ?N a c" for n
  proof -
    have "members_in c n \<subseteq> members_in b n \<union> ?N b c" "members_in b n \<subseteq> members_in a n \<union> ?N a b"
      using ab bc by (simp_all add: evolves_def)
    from subset_chain [OF this N] show ?thesis .
  qed
  with ab bc show ?thesis by (simp add: evolves_def)
qed

lemma put_fields [simp]:
  "gm_offsets (put_group name g gm) = gm_offsets gm" "gm_nextMemberSeq (put_group name g gm) = gm_nextMemberSeq gm"
  by (simp_all add: put_group_def)

lemma members_in_put [simp]:
  "members_in (put_group name g gm) n = (if n = name then member_ids g else members_in gm n)"
  by (simp add: members_in_def)

lemma issued_mono: "gm_nextMemberSeq gm \<le> gm_nextMemberSeq gm' \<Longrightarrow> issued gm \<subseteq> issued gm'"
  unfolding issued_def by (rule image_mono) simp

lemma mgr_ok_groups:
  "mgr_ok (gm\<lparr>gm_offsets := s\<rparr>) = mgr_ok gm" "members_in (gm\<lparr>gm_offsets := s\<rparr>) = members_in gm"
  by (simp_all add: mgr_ok_def issued_def members_in_def get_group_def fun_eq_iff)

lemma evolves_offsets: "mgr_ok gm \<Longrightarrow> evolves gm (gm\<lparr>gm_offsets := s\<rparr>)"
  by (simp add: evolves_def mgr_ok_groups)

lemma members_in_issued: "mgr_ok gm \<Longrightarrow> members_in gm name \<subseteq> issued gm"
  by (cases "get_group gm name") (simp_all add: members_in_def mgr_ok_get)

lemma evolves_put:
  assumes "mgr_ok gm" and "group_ok g" and "g_Name g = name" and "member_ids g \<subseteq> members_in gm name"
  shows "evolves gm (put_group name g gm)"
proof -
  have "member_ids g \<subseteq> issued gm" using assms(4) members_in_issued [OF assms(1), of name] by (rule subset_trans)
  with assms have "group_entry_ok (gm_nextMemberSeq gm) (name, g)" by (simp add: group_entry_ok_def issued_def)
  with assms(1) have "\<forall>x \<in> set (AList.update name g (gm_groups gm)). group_entry_ok (gm_nextMemberSeq gm) x"
    unfolding mgr_ok_def by (intro update_all) simp_all
  with assms(1) have "mgr_ok (put_group name g gm)" by (simp add: mgr_ok_def put_group_def distinct_update)
  with assms(4) show ?thesis by (simp add: evolves_def)
qed

lemma evolves_create:
  assumes "mgr_ok gm0" and "getOrCreate gm0 name = (g, gm)"
  shows "evolves gm0 gm \<and> group_ok g \<and> g_Name g = name \<and> member_ids g = members_in gm name
    \<and> members_in gm = members_in gm0 \<and> gm_offsets gm = gm_offsets gm0 \<and> gm_nextMemberSeq gm = gm_nextMemberSeq gm0"
proof (cases "get_group gm0 name")
  case None
  with assms(2) have "g = newGroup name" "gm = put_group name (newGroup name) gm0" by (auto simp: getOrCreate_def)
  moreover have "g_Name (newGroup name) = name" "member_ids (newGroup name) = {}" by (simp_all add: newGroup_def)
  moreover have "members_in gm0 name = {}" using None by (simp add: members_in_def)
  ultimately show ?thesis
    using evolves_put [OF assms(1) newGroup_ok, of name name] newGroup_ok by (simp add: fun_eq_iff)
next
  case (Some g')
  with assms have "g = g'" "gm = gm0" by (simp_all add: getOrCreate_def)
  with Some assms(1) mgr_ok_get [OF assms(1) Some] show ?thesis by (simp add: evolves_refl members_in_def)
qed

subsection \<open>Every handler keeps the invariant\<close>

lemma memberName_inj: "memberName a = memberName b \<Longrightarrow> - (2 ^ 63) \<le> a \<Longrightarrow> a < 2 ^ 63 \<Longrightarrow> - (2 ^ 63) \<le> b \<Longrightarrow> b < 2 ^ 63 \<Longrightarrow> a = b"
  by (metis Sscan_Sprint memberName_def same_append_eq)

lemma fresh_name:
  assumes "mgr_ok gm" and "gm_nextMemberSeq gm < 2 ^ 63 - 1"
  shows "nextMemberID gm = (memberName (gm_nextMemberSeq gm + 1), gm\<lparr>gm_nextMemberSeq := gm_nextMemberSeq gm + 1\<rparr>)"
    and "memberName (gm_nextMemberSeq gm + 1) \<notin> issued gm"
proof -
  let ?n = "gm_nextMemberSeq gm"
  have n: "0 \<le> ?n" "?n + 1 < 2 ^ 63" using assms by (simp_all add: mgr_ok_def)
  then have "s64 (?n + 1) = ?n + 1" by (intro s64_id) simp_all
  then show "nextMemberID gm = (memberName (?n + 1), gm\<lparr>gm_nextMemberSeq := ?n + 1\<rparr>)"
    by (simp add: nextMemberID_def Let_def)
  show "memberName (?n + 1) \<notin> issued gm"
  proof
    assume "memberName (?n + 1) \<in> issued gm"
    then obtain k where k: "1 \<le> k" "k \<le> ?n" "memberName (?n + 1) = memberName k" by (auto simp: issued_def)
    with n memberName_inj [of "?n + 1" k] show False by simp
  qed
qed

lemma group_entry_mono: "group_entry_ok n x \<Longrightarrow> n \<le> m \<Longrightarrow> group_entry_ok m x"
proof -
  assume x: "group_entry_ok n x" and "n \<le> m"
  then have "memberName ` {1..n} \<subseteq> memberName ` {1..m}" by (intro image_mono) simp
  with x show ?thesis unfolding group_entry_ok_def by (meson subset_trans)
qed

lemma evolves_new_member:
  assumes "mgr_ok gm" and "gm_nextMemberSeq gm < 2 ^ 63 - 1" and "group_ok g" and "g_Name g = name"
    and "member_ids g \<subseteq> insert (memberName (gm_nextMemberSeq gm + 1)) (members_in gm name)"
  shows "evolves gm (put_group name g (gm\<lparr>gm_nextMemberSeq := gm_nextMemberSeq gm + 1\<rparr>))"
proof -
  let ?n = "gm_nextMemberSeq gm" and ?gm = "gm\<lparr>gm_nextMemberSeq := gm_nextMemberSeq gm + 1\<rparr>"
  have n: "0 \<le> ?n" "?n + 1 < 2 ^ 63" using assms(1,2) by (simp_all add: mgr_ok_def)
  have up: "{1..?n + 1} = insert (?n + 1) {1..?n}" using n(1) by auto
  have "member_ids g \<subseteq> memberName ` {1..?n + 1}"
    using assms(5) insert_mono [OF members_in_issued [OF assms(1), of name]] unfolding up issued_def image_insert by (rule subset_trans)
  with assms(3,4) have "group_entry_ok (?n + 1) (name, g)" by (simp add: group_entry_ok_def)
  moreover have "\<forall>x \<in> set (gm_groups gm). group_entry_ok (?n + 1) x"
    using assms(1) group_entry_mono [of ?n _ "?n + 1"] by (simp add: mgr_ok_def)
  ultimately have "\<forall>x \<in> set (AList.update name g (gm_groups gm)). group_entry_ok (?n + 1) x" by (intro update_all)
  then have "mgr_ok (put_group name g ?gm)"
    using assms(1) n by (simp add: mgr_ok_def put_group_def distinct_update)
  moreover have "memberName ` {?n<..?n + 1} = {memberName (?n + 1)}"
  proof -
    have "{?n<..?n + 1} = {?n + 1}" by auto
    then show ?thesis by simp
  qed
  moreover have "members_in ?gm = members_in gm" by (simp add: members_in_def get_group_def fun_eq_iff)
  ultimately show ?thesis using assms(5) by (simp add: evolves_def subset_insertI)
qed

lemma JoinGroup_evolves:
  assumes "mgr_ok gm0" and "gm_nextMemberSeq gm0 < 2 ^ 63 - 1"
  shows "\<exists>r gm'. JoinGroup now gm0 req = Inr (r, gm') \<and> evolves gm0 gm'"
proof -
  obtain g gm where c: "getOrCreate gm0 (jgq_Group req) = (g, gm)" by fastforce
  from evolves_create [OF assms(1) c] have e: "evolves gm0 gm" "group_ok g" "g_Name g = jgq_Group req"
    "member_ids g = members_in gm (jgq_Group req)" "gm_nextMemberSeq gm < 2 ^ 63 - 1" using assms(2) by simp_all
  then have ok: "mgr_ok gm" by (simp add: evolves_def)
  note f = fresh_name [OF ok e(5)]
  have "memberName (gm_nextMemberSeq gm + 1) \<notin> member_ids g" using f(2) e(4) members_in_issued [OF ok] by blast
  from JoinGroup_ok [OF c e(2) f(1) this, of now] obtain r g' gm' where
    j: "JoinGroup now gm0 req = Inr (r, put_group (jgq_Group req) g' gm')" "group_ok g'" "g_Name g' = g_Name g"
    "gm' = gm \<and> member_ids g' \<subseteq> member_ids g \<or> gm' = gm\<lparr>gm_nextMemberSeq := gm_nextMemberSeq gm + 1\<rparr>
       \<and> member_ids g' \<subseteq> insert (memberName (gm_nextMemberSeq gm + 1)) (member_ids g)" by blast
  from j(4) have "evolves gm (put_group (jgq_Group req) g' gm')"
  proof
    assume "gm' = gm \<and> member_ids g' \<subseteq> member_ids g"
    with evolves_put [OF ok j(2)] j(3) e(3,4) show ?thesis by simp
  next
    assume "gm' = gm\<lparr>gm_nextMemberSeq := gm_nextMemberSeq gm + 1\<rparr>
       \<and> member_ids g' \<subseteq> insert (memberName (gm_nextMemberSeq gm + 1)) (member_ids g)"
    with evolves_new_member [OF ok e(5) j(2)] j(3) e(3,4) show ?thesis by simp
  qed
  with j(1) evolves_trans [OF e(1)] show ?thesis by blast
qed

lemma evolves_shrinks:
  assumes "mgr_ok gm" and "get_group gm name = Some g" and "shrinks g g'"
  shows "evolves gm (put_group name g' gm)"
  using evolves_put [OF assms(1), of g' name] mgr_ok_get [OF assms(1,2)] assms(2,3)
  by (simp add: shrinks_def members_in_def)

lemma evolves_created:
  assumes "mgr_ok gm0" and "getOrCreate gm0 name = (g, gm)" and "shrinks g g'"
  shows "evolves gm0 (put_group name g' gm)"
proof -
  from evolves_create [OF assms(1,2)] have "evolves gm0 gm" by simp
  moreover from this have "evolves gm (put_group name g' gm)"
    by (intro evolves_shrinks [OF _ getOrCreate_get [OF assms(2)] assms(3)]) (simp add: evolves_def)
  ultimately show ?thesis by (rule evolves_trans)
qed

lemma SyncGroup_evolves: "mgr_ok gm \<Longrightarrow> evolves gm (snd (SyncGroup now gm req))"
proof -
  assume ok: "mgr_ok gm"
  obtain g gm1 where c: "getOrCreate gm (sgq_Group req) = (g, gm1)" by fastforce
  from evolves_create [OF ok c] have "shrinks g (snd (sync_group now req g))" by (intro sync_group_ok) simp
  from evolves_created [OF ok c this] show ?thesis by (cases "sync_group now req g") (simp add: SyncGroup_def c)
qed

lemma Heartbeat_evolves: "mgr_ok gm \<Longrightarrow> evolves gm (snd (Heartbeat now gm req))"
proof -
  assume ok: "mgr_ok gm"
  have "evolves gm (put_group (hbq_Group req) (g\<lparr>g_Members := AList.update (hbq_MemberID req) m' (g_Members g)\<rparr>) gm)"
    if "get_group gm (hbq_Group req) = Some g" "map_of (g_Members g) (hbq_MemberID req) = Some m" for g m m'
  proof (rule evolves_shrinks [OF ok that(1)])
    have g: "group_ok g" using mgr_ok_get [OF ok that(1)] by simp
    have k: "map fst (AList.update (hbq_MemberID req) m' (g_Members g)) = map fst (g_Members g)"
      using that(2) by (simp add: update_same_keys)
    moreover have "fst ` set (AList.update (hbq_MemberID req) m' (g_Members g)) = member_ids g" using k by (metis set_map)
    ultimately show "shrinks g (g\<lparr>g_Members := AList.update (hbq_MemberID req) m' (g_Members g)\<rparr>)"
      using group_ok_same_members [OF g] by (simp add: shrinks_def)
  qed
  then show ?thesis using evolves_refl [OF ok] by (simp add: Heartbeat_def split: option.splits)
qed

lemma LeaveGroup_evolves: "mgr_ok gm \<Longrightarrow> \<exists>r gm'. LeaveGroup now gm req = Inr (r, gm') \<and> evolves gm gm'"
proof -
  assume ok: "mgr_ok gm"
  show ?thesis
  proof (cases "get_group gm (lgq_Group req)")
    case None
    then show ?thesis using evolves_refl [OF ok] by (simp add: LeaveGroup_def Let_def)
  next
    case (Some g)
    then have "group_ok g" using mgr_ok_get [OF ok] by simp
    from leave_group_ok [OF this, of now "leaving req"] obtain ms g' where
      "leave_group now (leaving req) g = Inr (ms, g')" "shrinks g g'" by blast
    with Some evolves_shrinks [OF ok Some] show ?thesis by (simp add: LeaveGroup_def Let_def)
  qed
qed

lemma OffsetCommit_evolves: "mgr_ok gm \<Longrightarrow> evolves gm (snd (OffsetCommit io t gm req))"
proof -
  assume ok: "mgr_ok gm"
  obtain g gm1 where c: "getOrCreate gm (ocq_Group req) = (g, gm1)" by fastforce
  from evolves_create [OF ok c] have e: "evolves gm gm1" by simp
  then have "evolves gm (gm1\<lparr>gm_offsets := s\<rparr>)" for s
    using evolves_trans [OF e evolves_offsets] by (simp add: evolves_def)
  with e show ?thesis by (simp add: OffsetCommit_def c Let_def split: prod.splits sum.splits)
qed

lemma DeleteGroup_evolves:
  assumes ok: "mgr_ok gm"
  shows "evolves gm (snd (DeleteGroup io gm name))"
proof -
  have "evolves gm (gm\<lparr>gm_groups := AList.delete name (gm_groups gm), gm_offsets := s\<rparr>)" for s
  proof -
    let ?gm = "gm\<lparr>gm_groups := AList.delete name (gm_groups gm), gm_offsets := s\<rparr>"
    have "mgr_ok ?gm" using ok by (auto simp: mgr_ok_def AList.delete_eq distinct_map_filter)
    moreover have "members_in ?gm n \<subseteq> members_in gm n" for n
      by (simp add: members_in_def get_group_def delete_conv')
    ultimately show ?thesis by (simp add: evolves_def)
  qed
  then show ?thesis using evolves_refl [OF ok] by (simp add: DeleteGroup_def split: option.splits prod.splits)
qed

lemma reap_all_ok:
  "\<forall>x \<in> set gs. group_entry_ok n x \<Longrightarrow>
     \<exists>k gs'. reap_all now d gs = Inr (k, gs') \<and> list_all2 (\<lambda>x y. fst y = fst x \<and> shrinks (snd x) (snd y)) gs gs'"
proof (induction gs)
  case (Cons x gs)
  obtain name g where x: "x = (name, g)" by (cases x)
  with Cons.prems have "group_ok g" by (simp add: group_entry_ok_def)
  from reapExpired_ok [OF this, of now d] obtain k g' where "reapExpired now d g = Inr (k, g')" "shrinks g g'" by blast
  moreover from Cons obtain k' gs' where "reap_all now d gs = Inr (k', gs')"
    "list_all2 (\<lambda>x y. fst y = fst x \<and> shrinks (snd x) (snd y)) gs gs'" by auto
  ultimately show ?case by (simp add: x)
qed simp

lemma shrunk_keys:
  "list_all2 (\<lambda>x y. fst y = fst x \<and> shrinks (snd x) (snd y)) gs gs' \<Longrightarrow> map fst gs' = map fst gs"
  by (induction rule: list_all2_induct) auto

lemma group_entry_shrinks:
  assumes "group_entry_ok n x" and "shrinks (snd x) (snd y)" and "fst y = fst x"
  shows "group_entry_ok n y"
proof -
  have "member_ids (snd y) \<subseteq> member_ids (snd x)" "member_ids (snd x) \<subseteq> memberName ` {1..n}"
    using assms(1,2) by (simp_all add: shrinks_def group_entry_ok_def)
  then have "member_ids (snd y) \<subseteq> memberName ` {1..n}" by (rule subset_trans)
  with assms show ?thesis by (simp add: shrinks_def group_entry_ok_def)
qed

lemma shrunk_entries:
  "list_all2 (\<lambda>x y. fst y = fst x \<and> shrinks (snd x) (snd y)) gs gs' \<Longrightarrow> \<forall>x \<in> set gs. group_entry_ok n x \<Longrightarrow>
     \<forall>x \<in> set gs'. group_entry_ok n x"
proof (induction rule: list_all2_induct)
  case (Cons x xs y ys)
  then have "group_entry_ok n y" by (intro group_entry_shrinks [of n x y]) simp_all
  with Cons show ?case by simp
qed simp

lemma shrunk_lookup:
  "list_all2 (\<lambda>x y. fst y = fst x \<and> shrinks (snd x) (snd y)) gs gs' \<Longrightarrow> map_of gs' name = Some g' \<Longrightarrow>
     \<exists>g. map_of gs name = Some g \<and> shrinks g g'"
  by (induction rule: list_all2_induct) (auto split: if_splits)

lemma Reap_evolves:
  assumes ok: "mgr_ok gm"
  shows "\<exists>n gm'. ReapExpiredSessions now gm = Inr (n, gm') \<and> evolves gm gm'"
proof -
  have entries: "\<forall>x \<in> set (gm_groups gm). group_entry_ok (gm_nextMemberSeq gm) x" using ok by (simp add: mgr_ok_def)
  from reap_all_ok [OF this, of now "gm_defaultSession gm"] obtain k gs where
    r: "reap_all now (gm_defaultSession gm) (gm_groups gm) = Inr (k, gs)"
    "list_all2 (\<lambda>x y. fst y = fst x \<and> shrinks (snd x) (snd y)) (gm_groups gm) gs" by blast
  let ?gm = "gm\<lparr>gm_groups := gs\<rparr>"
  have "mgr_ok ?gm" using ok shrunk_keys [OF r(2)] shrunk_entries [OF r(2) entries] by (simp add: mgr_ok_def)
  moreover have "members_in ?gm n \<subseteq> members_in gm n" for n
  proof (cases "map_of gs n")
    case None
    then show ?thesis by (simp add: members_in_def get_group_def)
  next
    case (Some g')
    from shrunk_lookup [OF r(2) Some] obtain g where "map_of (gm_groups gm) n = Some g" "shrinks g g'" by blast
    with Some show ?thesis by (simp add: members_in_def get_group_def shrinks_def)
  qed
  ultimately have "evolves gm ?gm" by (simp add: evolves_def)
  with r(1) show ?thesis by (simp add: ReapExpiredSessions_def)
qed

subsection \<open>Reachable states\<close>

lemma after_gm [simp]: "c_gm (after_join out s) = c_gm s" "c_gm (after_sync out' s) = c_gm s"
  by (simp_all add: after_join_def after_sync_def split: join_outcome.splits sync_outcome.splits)

lemma cstep_evolves: "cstep s s' \<Longrightarrow> mgr_ok (c_gm s) \<Longrightarrow> evolves (c_gm s) (c_gm s')"
proof (induction rule: cstep.induct)
  case (join s req out gm')
  with JoinGroup_evolves [OF join.prems join.hyps(1), of "c_now s" req] show ?case by auto
next
  case (join_wakes s ws1 w ws2 g out g')
  then have "group_ok g" using mgr_ok_get by blast
  with join_wake_ok [of g "c_now s" w] join_wakes have "shrinks g g'" by auto
  with evolves_shrinks [OF join_wakes.prems join_wakes.hyps(2)] show ?case by simp
next
  case (sync s req out gm')
  with SyncGroup_evolves [OF sync.prems, of "c_now s" req] show ?case by simp
next
  case (sync_wakes s ws1 w ws2 g out g')
  then have "group_ok g" using mgr_ok_get by blast
  with sync_loop_ok [of g "c_now s" "sw_deadline w" "sw_req w"] sync_wakes have "shrinks g g'" by (simp add: sync_wake_def)
  with evolves_shrinks [OF sync_wakes.prems sync_wakes.hyps(2)] show ?case by simp
next
  case (heartbeat s req resp gm')
  with Heartbeat_evolves [OF heartbeat.prems, of "c_now s" req] show ?case by simp
next
  case (leave s req resp gm')
  with LeaveGroup_evolves [OF leave.prems, of "c_now s" req] show ?case by auto
next
  case (reap s n gm')
  with Reap_evolves [OF reap.prems, of "c_now s"] show ?case by auto
next
  case (commit io t s req resp gm')
  with OffsetCommit_evolves [OF commit.prems, of io t req] show ?case by simp
next
  case (delete cio s name r gm')
  with DeleteGroup_evolves [OF delete.prems, of cio name] show ?case by simp
next
  case (reset_offsets io t s name topic pid ofs r gm')
  then show ?case using evolves_offsets [OF reset_offsets.prems] by (auto simp: ResetOffsets_def split: prod.splits)
next
  case (prune cio s retention n gm')
  then show ?case using evolves_offsets [OF prune.prems] evolves_refl [OF prune.prems]
    by (auto simp: PruneOffsets_def split: prod.splits if_splits)
qed (simp_all add: evolves_refl)

lemma csteps_evolves: "cstep\<^sup>*\<^sup>* s s' \<Longrightarrow> mgr_ok (c_gm s) \<Longrightarrow> evolves (c_gm s) (c_gm s')"
proof (induction rule: rtranclp_induct)
  case base
  then show ?case by (rule evolves_refl)
next
  case (step t u)
  then have "mgr_ok (c_gm t)" by (simp add: evolves_def)
  with step cstep_evolves evolves_trans show ?case by blast
qed

lemma new_manager_ok: "mgr_ok (NewGroupManager offsets node host port session)"
  by (simp add: mgr_ok_def NewGroupManager_def)

lemma reachable_ok:
  "cstep\<^sup>*\<^sup>* (start_coord (NewGroupManager offsets node host port session) t) s \<Longrightarrow> mgr_ok (c_gm s)"
proof -
  let ?s = "start_coord (NewGroupManager offsets node host port session) t"
  assume "cstep\<^sup>*\<^sup>* ?s s"
  moreover have "mgr_ok (c_gm ?s)" by (simp add: start_coord_def new_manager_ok)
  ultimately have "evolves (c_gm ?s) (c_gm s)" by (rule csteps_evolves)
  then show ?thesis by (simp add: evolves_def)
qed

end
