(* ===== verification/Group_Claims.thy ===== *)
theory Group_Claims
  imports Group_System
begin

text \<open>
  What the consumer-group coordinator guarantees, and where it does not keep what a group
  member relies on.
\<close>

subsection \<open>A sample run\<close>

definition sample_join_req :: "gostring \<Rightarrow> JoinGroupRequest" where
  "sample_join_req mid = \<lparr>jgq_Version = 5, jgq_Group = str ''g'', jgq_SessionTimeoutMs = 100, jgq_RebalanceTimeoutMs = 200,
     jgq_MemberID = mid, jgq_InstanceID = None, jgq_ProtocolType = str ''consumer'',
     jgq_Protocols = [\<lparr>jrp_Name = str ''range'', jrp_Metadata = Some [7]\<rparr>]\<rparr>"

definition sample_store :: OffsetStore where
  "sample_store = \<lparr>os_file = False, os_offsets = [], os_snapshot = NoSnapshot, os_wal = [], os_walN = 0,
     os_compacting = False, os_closed = False\<rparr>"

definition sample_manager :: GroupManager where
  "sample_manager = NewGroupManager sample_store 0 [] 9092 1000"

text \<open>One member joins a new group at time 0; two more join at time 1 and wait for the first.\<close>

definition run_join :: "int \<Rightarrow> GroupManager \<Rightarrow> GroupManager \<times> join_wait list" where
  "run_join now gm = (case JoinGroup now gm (sample_join_req []) of
     Inr (JoinDone r, gm') \<Rightarrow> (gm', []) | Inr (JoinWait w, gm') \<Rightarrow> (gm', [w]) | Inl e \<Rightarrow> (gm, []))"

definition sample_gm1 :: GroupManager where "sample_gm1 = fst (run_join 0 sample_manager)"
definition sample_gm2 :: GroupManager where "sample_gm2 = fst (run_join 1 sample_gm1)"
definition sample_gm3 :: GroupManager where "sample_gm3 = fst (run_join 1 sample_gm2)"
definition sample_w2 :: join_wait where "sample_w2 = hd (snd (run_join 1 sample_gm1))"
definition sample_w3 :: join_wait where "sample_w3 = hd (snd (run_join 1 sample_gm2))"

definition sample_start :: coord where "sample_start = start_coord sample_manager 0"
definition sample_state :: coord where
  "sample_state = \<lparr>c_now = 1, c_gm = sample_gm3, c_joins = [sample_w3, sample_w2], c_syncs = []\<rparr>"

definition sample_group :: Group where
  "sample_group = the (get_group sample_gm3 (str ''g''))"

lemma sample_join1: "\<exists>r. JoinGroup 0 sample_manager (sample_join_req []) = Inr (JoinDone r, sample_gm1)"
proof -
  have "case JoinGroup 0 sample_manager (sample_join_req []) of Inr (JoinDone r, gm) \<Rightarrow> gm = sample_gm1 | _ \<Rightarrow> False"
    by code_simp
  then show ?thesis by (auto split: sum.splits prod.splits join_outcome.splits)
qed

lemma sample_join2: "JoinGroup 1 sample_gm1 (sample_join_req []) = Inr (JoinWait sample_w2, sample_gm2)"
  by code_simp

lemma sample_join3: "JoinGroup 1 sample_gm2 (sample_join_req []) = Inr (JoinWait sample_w3, sample_gm3)"
  by code_simp

lemma sample_seqs:
  "gm_nextMemberSeq sample_manager = 0" "gm_nextMemberSeq sample_gm1 = 1" "gm_nextMemberSeq sample_gm2 = 2"
  "gm_nextMemberSeq sample_gm3 = 3"
  by code_simp+

lemma sample_get: "get_group sample_gm3 (str ''g'') = Some sample_group"
  by code_simp

lemma sample_facts:
  "g_State sample_group = StatePreparingRebalance" "g_joined sample_group = [memberName 3, memberName 2]"
  "jw_member sample_w2 = memberName 2" "jw_member sample_w3 = memberName 3"
  "jw_deadline sample_w2 = 200000001" "jw_deadline sample_w3 = 200000001" "g_Name sample_group = str ''g''"
  "jgs_ErrorCode (jw_resp sample_w2) = ErrNone" "jgs_ErrorCode (jw_resp sample_w3) = ErrNone"
  "map fst (g_Members sample_group) = [memberName 1, memberName 2, memberName 3]"
  by code_simp+

lemma sample_reachable: "cstep\<^sup>*\<^sup>* sample_start sample_state"
proof -
  obtain r where r: "JoinGroup 0 sample_manager (sample_join_req []) = Inr (JoinDone r, sample_gm1)" using sample_join1 by blast
  let ?s1 = "\<lparr>c_now = 0, c_gm = sample_gm1, c_joins = [], c_syncs = []\<rparr>"
  let ?s2 = "\<lparr>c_now = 1, c_gm = sample_gm1, c_joins = [], c_syncs = []\<rparr>"
  let ?s3 = "\<lparr>c_now = 1, c_gm = sample_gm2, c_joins = [sample_w2], c_syncs = []\<rparr>"
  have "cstep sample_start ?s1"
    using cstep.join [of sample_start "sample_join_req []" "JoinDone r" sample_gm1] r
    by (simp add: sample_start_def start_coord_def sample_seqs after_join_def)
  moreover have "cstep ?s1 ?s2" using cstep.tick [of ?s1 1] by simp
  moreover have "cstep ?s2 ?s3"
    using cstep.join [of ?s2 "sample_join_req []" "JoinWait sample_w2" sample_gm2] sample_join2
    by (simp add: sample_seqs after_join_def)
  moreover have "cstep ?s3 sample_state"
    using cstep.join [of ?s3 "sample_join_req []" "JoinWait sample_w3" sample_gm3] sample_join3
    by (simp add: sample_seqs after_join_def sample_state_def)
  ultimately show ?thesis by (meson converse_rtranclp_into_rtranclp rtranclp.rtrancl_refl)
qed

lemma sample_start_eq: "sample_start = start_coord (NewGroupManager sample_store 0 [] 9092 1000) 0"
  by (simp add: sample_start_def sample_manager_def)

lemma sample_gm: "c_gm sample_state = sample_gm3"
  by (simp add: sample_state_def)

subsection \<open>Invariant and absence of panics\<close>

text \<open>
  C7.  In every reachable state of the coordinator each group is consistent: the join order
  lists every member once, the group is empty exactly when its state says so, a rebalance
  in preparation is missing at least one member, no one is marked as joined outside of it,
  and a group that has completed a rebalance has the member that joined first as leader.
\<close>

theorem coordinator_invariant:
  assumes "cstep\<^sup>*\<^sup>* (start_coord (NewGroupManager offsets node host port session) t) s"
    and "get_group (c_gm s) name = Some g"
  shows "distinct (g_JoinOrder g) \<and> set (g_JoinOrder g) = fst ` set (g_Members g)
    \<and> (g_State g = StateEmpty \<longleftrightarrow> g_Members g = [])
    \<and> (if g_State g = StatePreparingRebalance
       then set (g_joined g) \<subset> fst ` set (g_Members g) else g_joined g = [])
    \<and> (g_State g = StateCompletingRebalance \<or> g_State g = StateStable \<longrightarrow>
         g_LeaderID g = hd (g_JoinOrder g) \<and> g_LeaderID g \<in> fst ` set (g_Members g))"
proof -
  have ok: "group_ok g" using mgr_ok_get [OF reachable_ok [OF assms(1)] assms(2)] by simp
  have "set (g_joined g) \<subset> member_ids g" if "g_State g = StatePreparingRebalance"
  proof -
    have "length (g_joined g) < length (g_Members g)" using ok that by (simp add: group_ok_def)
    moreover have "card (set (g_joined g)) = length (g_joined g)" "card (member_ids g) = length (g_Members g)"
      using ok by (simp_all add: group_ok_def distinct_card flip: set_map)
    ultimately have "set (g_joined g) \<noteq> member_ids g" by auto
    with ok show ?thesis by (auto simp: group_ok_def)
  qed
  moreover have "g_LeaderID g = hd (g_JoinOrder g) \<and> g_LeaderID g \<in> member_ids g"
    if "g_State g = StateCompletingRebalance \<or> g_State g = StateStable"
  proof -
    have l: "g_LeaderID g = hd (g_JoinOrder g)" "g_Members g \<noteq> []" "set (g_JoinOrder g) = member_ids g"
      using ok that by (auto simp: group_ok_def)
    then have "g_JoinOrder g \<noteq> []" by auto
    with l show ?thesis by (metis hd_in_set)
  qed
  moreover have "distinct (g_JoinOrder g)" "set (g_JoinOrder g) = member_ids g" "g_State g = StateEmpty \<longleftrightarrow> g_Members g = []"
    "g_State g \<noteq> StatePreparingRebalance \<longrightarrow> g_joined g = []" using ok by (simp_all add: group_ok_def)
  ultimately show ?thesis by argo
qed

theorem coordinator_invariant_witness:
  "\<exists>g. get_group (c_gm sample_state) (str ''g'') = Some g \<and> cstep\<^sup>*\<^sup>* sample_start sample_state
    \<and> g_State g = StatePreparingRebalance \<and> set (g_joined g) \<subset> fst ` set (g_Members g)"
  using coordinator_invariant [OF sample_reachable [unfolded sample_start_eq], of "str ''g''" sample_group]
    sample_get sample_reachable sample_facts(1)
  by (auto simp: sample_gm)

text \<open>
  C15.  No handler panics.  In every reachable state, JoinGroup (while member ids have not run
  out), a JoinGroup that wakes up, LeaveGroup and the session reaper return without one of
  the run-time errors that the index of the join order and the member lookups could raise.
\<close>

theorem coordinator_never_panics:
  assumes "cstep\<^sup>*\<^sup>* (start_coord (NewGroupManager offsets node host port session) t) s"
  shows "(gm_nextMemberSeq (c_gm s) < 2 ^ 63 - 1 \<longrightarrow> (\<exists>r. JoinGroup now (c_gm s) jreq = Inr r))
    \<and> (get_group (c_gm s) (jw_group w) = Some g \<longrightarrow> (\<exists>r. join_wake now w g = Inr r))
    \<and> (\<exists>r. LeaveGroup now (c_gm s) lreq = Inr r)
    \<and> (\<exists>r. ReapExpiredSessions now (c_gm s) = Inr r)"
proof -
  have ok: "mgr_ok (c_gm s)" by (rule reachable_ok [OF assms])
  have "\<exists>r. join_wake now w g = Inr r" if "get_group (c_gm s) (jw_group w) = Some g"
    using mgr_ok_get [OF ok that] join_wake_ok [of g now w] by auto
  with JoinGroup_evolves [OF ok, of now jreq] LeaveGroup_evolves [OF ok, of now lreq] Reap_evolves [OF ok, of now]
  show ?thesis by blast
qed

theorem coordinator_never_panics_witness:
  "(\<exists>r. JoinGroup 5 sample_gm3 (sample_join_req (memberName 1)) = Inr r) \<and> (\<exists>r. join_wake 5 sample_w2 sample_group = Inr r)
    \<and> (\<exists>r. ReapExpiredSessions 5 sample_gm3 = Inr r)"
proof -
  have "get_group sample_gm3 (jw_group sample_w2) = Some sample_group" "gm_nextMemberSeq sample_gm3 < 2 ^ 63 - 1"
    by code_simp (simp add: sample_seqs)
  with coordinator_never_panics [OF sample_reachable [unfolded sample_start_eq], of 5 "sample_join_req (memberName 1)" sample_w2 sample_group,
      unfolded sample_gm]
  show ?thesis by blast
qed

subsection \<open>Fencing\<close>

lemma gone_stays_gone:
  assumes "mgr_ok gm" and "evolves gm gm'" and "i \<in> issued gm" and "i \<notin> members_in gm name"
  shows "i \<notin> members_in gm' name"
proof
  assume "i \<in> members_in gm' name"
  with assms(2,4) have "i \<in> memberName ` {gm_nextMemberSeq gm<..gm_nextMemberSeq gm'}"
    unfolding evolves_def by blast
  then obtain k where k: "i = memberName k" "gm_nextMemberSeq gm < k" "k \<le> gm_nextMemberSeq gm'" by auto
  from assms(3) obtain j where j: "i = memberName j" "1 \<le> j" "j \<le> gm_nextMemberSeq gm" by (auto simp: issued_def)
  have "gm_nextMemberSeq gm' < 2 ^ 63" using assms(2) by (simp add: evolves_def mgr_ok_def)
  with k j have "k = j" by (intro memberName_inj) simp_all
  with k j show False by simp
qed

lemma fenced_commit:
  assumes "getOrCreate gm0 (ocq_Group req) = (g, gm)" and "commit_fence req g \<noteq> ErrNone"
  shows "OffsetCommit io t gm0 req = (\<lparr>ocs_Version = ocq_Version req, ocs_ThrottleTimeMs = 0,
      ocs_Topics = map (commit_topic (commit_fence req g)) (ocq_Topics req)\<rparr>, gm)"
  using assms by (simp add: OffsetCommit_def Let_def)


definition sample_leave :: LeaveGroupRequest where
  "sample_leave = \<lparr>lgq_Version = 0, lgq_Group = str ''g'', lgq_MemberID = memberName 3, lgq_Members = []\<rparr>"

definition sample_gm4 :: GroupManager where
  "sample_gm4 = (case LeaveGroup 2 sample_gm3 sample_leave of Inr (r, gm) \<Rightarrow> gm | Inl e \<Rightarrow> sample_gm3)"

definition sample_left :: coord where
  "sample_left = \<lparr>c_now = 2, c_gm = sample_gm4, c_joins = [sample_w3, sample_w2], c_syncs = []\<rparr>"

definition sample_offset_commit :: "gostring \<Rightarrow> int32 \<Rightarrow> OffsetCommitRequest" where
  "sample_offset_commit mid gen = \<lparr>ocq_Version = 7, ocq_Group = str ''g'', ocq_Generation = gen, ocq_MemberID = mid,
     ocq_InstanceID = None, ocq_Topics = [\<lparr>ocrt_Topic = str ''t'', ocrt_Partitions =
       [\<lparr>ocrp_Partition = 0, ocrp_Offset = 42, ocrp_LeaderEpoch = -1, ocrp_Metadata = None\<rparr>]\<rparr>]\<rparr>"

lemma sample_leaves: "\<exists>r. LeaveGroup 2 sample_gm3 sample_leave = Inr (r, sample_gm4)"
proof -
  have "case LeaveGroup 2 sample_gm3 sample_leave of Inr (r, gm) \<Rightarrow> True | Inl e \<Rightarrow> False" by code_simp
  then show ?thesis by (auto simp: sample_gm4_def split: sum.splits prod.splits)
qed

lemma sample_left_reachable: "cstep\<^sup>*\<^sup>* sample_start sample_left"
proof -
  obtain r where r: "LeaveGroup 2 sample_gm3 sample_leave = Inr (r, sample_gm4)" using sample_leaves by blast
  let ?s = "sample_state\<lparr>c_now := 2\<rparr>"
  have "cstep sample_state ?s" using cstep.tick [of sample_state 2] by (simp add: sample_state_def)
  moreover have "cstep ?s sample_left"
    using cstep.leave [of ?s sample_leave r sample_gm4] r by (simp add: sample_state_def sample_left_def)
  ultimately show ?thesis using sample_reachable by (meson rtranclp.rtrancl_into_rtrancl)
qed

lemma sample_left_members:
  "members_in sample_gm4 (str ''g'') = {memberName 1, memberName 2}" "gm_nextMemberSeq sample_gm4 = 3"
proof -
  have "map_option (\<lambda>g. map fst (g_Members g)) (get_group sample_gm4 (str ''g'')) = Some [memberName 1, memberName 2]"
    by code_simp
  then obtain g where "get_group sample_gm4 (str ''g'') = Some g" "map fst (g_Members g) = [memberName 1, memberName 2]" by auto
  then show "members_in sample_gm4 (str ''g'') = {memberName 1, memberName 2}" by (simp add: members_in_def flip: set_map)
  show "gm_nextMemberSeq sample_gm4 = 3" by code_simp
qed


subsection \<open>Rebalances\<close>

text \<open>
  C35.  A rebalance that times out with two or more members waiting throws everyone out.  The
  first waiting JoinGroup that wakes up at the deadline removes the members that did not
  join and completes the rebalance; the next one, at the same deadline, runs the expiry
  again, although the rebalance is complete.  No one is marked as joined by then, so it
  removes every member, the two that waited included.  Both requests are answered without
  an error.
\<close>

theorem rebalance_timeout_empties_group:
  assumes "group_ok g" and "g_State g = StatePreparingRebalance"
    and "jw_member w1 \<in> set (g_joined g)" and "jw_member w2 \<in> set (g_joined g)"
    and "jw_deadline w1 \<le> now1" and "jw_deadline w2 \<le> now2"
  shows "\<exists>r1 g1 r2 g2. join_wake now1 w1 g = Inr (JoinDone r1, g1) \<and> g_State g1 = StateCompletingRebalance
    \<and> fst ` set (g_Members g1) = set (g_joined g) \<and> jgs_ErrorCode r1 = jgs_ErrorCode (jw_resp w1)
    \<and> join_wake now2 w2 g1 = Inr (JoinDone r2, g2) \<and> g_State g2 = StateEmpty \<and> g_Members g2 = []
    \<and> jgs_ErrorCode r2 = jgs_ErrorCode (jw_resp w2)"
proof -
  have sub: "set (g_joined g) \<subseteq> member_ids g" using assms(1) by (simp add: group_ok_def)
  from expireRebalance_ok [OF group_members_ok [OF assms(1)]] obtain g1 where g1: "expireRebalance g = Inr g1" "group_ok g1"
    "member_ids g1 = set (g_joined g)" "g_joined g1 = []" "g_State g1 = (if g_joined g = [] then StateEmpty else StateCompletingRebalance)"
    by blast
  from expireRebalance_ok [OF group_members_ok [OF g1(2)]] obtain g2 where g2: "expireRebalance g1 = Inr g2"
    "member_ids g2 = {}" "g_State g2 = StateEmpty" unfolding g1(4) by auto
  have "jw_member w1 \<in> member_ids g" "jw_member w2 \<in> member_ids g1" using assms(3,4) sub g1(3) by blast+
  then have "map_of (g_Members g) (jw_member w1) \<noteq> None" "map_of (g_Members g1) (jw_member w2) \<noteq> None"
    by (simp_all add: map_of_None_ids)
  then have "join_wake now1 w1 g = Inr (JoinDone (fillJoinResponse g1 (jw_resp w1) (jw_member w1)), g1)"
    "join_wake now2 w2 g1 = Inr (JoinDone (fillJoinResponse g2 (jw_resp w2) (jw_member w2)), g2)"
    using g1(1) g2(1) assms(5,6) by (auto simp: join_wake_def)
  moreover have "g_joined g \<noteq> []" using assms(3) by auto
  ultimately show ?thesis using g1 g2 by (auto simp: fillJoinResponse_def)
qed

lemma sample_group_ok: "group_ok sample_group"
  using mgr_ok_get [OF reachable_ok [OF sample_reachable [unfolded sample_start_eq]], of "str ''g''" sample_group]
  by (simp add: sample_gm sample_get)

theorem rebalance_timeout_empties_group_witness:
  "\<exists>r2 g1 r3 g2. join_wake 200000001 sample_w2 sample_group = Inr (JoinDone r2, g1) \<and> jgs_ErrorCode r2 = ErrNone
    \<and> fst ` set (g_Members g1) = {memberName 2, memberName 3}
    \<and> join_wake 200000001 sample_w3 g1 = Inr (JoinDone r3, g2) \<and> jgs_ErrorCode r3 = ErrNone \<and> g_Members g2 = []"
  using rebalance_timeout_empties_group [OF sample_group_ok, of sample_w2 sample_w3 200000001 200000001]
  by (auto simp: sample_facts insert_commute)

text \<open>
  Someone else's LeaveGroup throws out a member that is waiting in a rebalance.  The
  rebalance starts over and forgets who has joined, but the requests that joined keep
  waiting; when the deadline of such a request passes, its member is removed as one that
  did not join, and the request is answered without an error.
\<close>

theorem leave_forgets_joined:
  assumes "group_ok g" and "g_State g = StatePreparingRebalance" and "jw_member w \<in> set (g_joined g)"
    and "jw_member w \<notin> set ids" and "member_ids g - set ids \<noteq> set (g_joined g) - set ids" and "jw_deadline w \<le> later"
  shows "\<exists>ms g1 r g2. leave_group now ids g = Inr (ms, g1) \<and> jw_member w \<in> fst ` set (g_Members g1) \<and> g_joined g1 = []
    \<and> join_wake later w g1 = Inr (JoinDone r, g2) \<and> jw_member w \<notin> fst ` set (g_Members g2)
    \<and> jgs_ErrorCode r = jgs_ErrorCode (jw_resp w)"
proof -
  define g0 where "g0 = without ids g"
  have sub: "set (g_joined g) \<subseteq> member_ids g" using assms(1) by (simp add: group_ok_def)
  have m: "members_ok g0" unfolding g0_def by (rule without_ok [OF assms(1)])
  have ids: "member_ids g0 = member_ids g - set ids" "set (g_joined g0) = set (g_joined g) - set ids" "g_State g0 = g_State g"
    by (auto simp: g0_def without_def)
  have "length (g_joined g0) < length (g_Members g0)"
  proof -
    have "set (g_joined g0) \<subset> member_ids g0" using ids(1,2) assms(5) sub by blast
    then have "card (set (g_joined g0)) < card (member_ids g0)" by (intro psubset_card_mono) simp_all
    then show ?thesis using m by (simp add: members_ok_def distinct_card flip: set_map)
  qed
  moreover from this have "g_Members g0 \<noteq> []" by auto
  ultimately have l: "leave_group now ids g = Inr (fst (leave_loop ids g), beginRebalance now g0)"
    unfolding leave_group_without [OF assms(1)] Let_def g0_def [symmetric] by simp
  let ?g1 = "beginRebalance now g0"
  have ok: "group_ok ?g1" by (rule beginRebalance_ok [OF m \<open>g_Members g0 \<noteq> []\<close>])
  from expireRebalance_ok [OF group_members_ok [OF ok]] obtain g2 where g2: "expireRebalance ?g1 = Inr g2" "member_ids g2 = {}"
    by auto
  have w: "jw_member w \<in> member_ids ?g1" using ids(1) sub assms(3,4) by auto
  then have "map_of (g_Members ?g1) (jw_member w) \<noteq> None" using map_of_None_ids by metis
  then have "join_wake later w ?g1 = Inr (JoinDone (fillJoinResponse g2 (jw_resp w) (jw_member w)), g2)"
    using assms(6) g2(1) by (auto simp: join_wake_def)
  with l w g2(2) show ?thesis by (auto simp: fillJoinResponse_def)
qed

theorem leave_forgets_joined_witness:
  "\<exists>ms g1 r g2. leave_group 2 [memberName 3] sample_group = Inr (ms, g1) \<and> memberName 2 \<in> fst ` set (g_Members g1)
    \<and> join_wake 200000001 sample_w2 g1 = Inr (JoinDone r, g2) \<and> memberName 2 \<notin> fst ` set (g_Members g2)
    \<and> jgs_ErrorCode r = ErrNone"
proof -
  have ne: "memberName 1 \<noteq> memberName 2" "memberName 1 \<noteq> memberName 3" "memberName 2 \<noteq> memberName 3"
    using memberName_inj [of 1 2] memberName_inj [of 1 3] memberName_inj [of 2 3] by auto
  have ids: "member_ids sample_group = {memberName 1, memberName 2, memberName 3}"
    using sample_facts(10) by (simp flip: set_map)
  then have "member_ids sample_group - set [memberName 3] \<noteq> set (g_joined sample_group) - set [memberName 3]"
    using ne by (auto simp: sample_facts(2))
  moreover have "jw_member sample_w2 \<in> set (g_joined sample_group)" "jw_member sample_w2 \<notin> set [memberName 3]"
    "jw_deadline sample_w2 \<le> 200000001" using ne by (simp_all add: sample_facts)
  ultimately show ?thesis
    using leave_forgets_joined [OF sample_group_ok sample_facts(1), of sample_w2 "[memberName 3]" 200000001 2]
    unfolding sample_facts(3,8) by blast
qed

text \<open>The protocol a complete rebalance settles on.\<close>

lemma supports_name: "p \<in> set (m_Protocols m) \<Longrightarrow> supports m (jrp_Name p)"
  by (auto simp: supports_def list_ex_iff)

lemma chooseProtocol_common:
  assumes "p \<in> set (m_Protocols leader)" and "\<forall>i \<in> set order. \<forall>m. map_of members i = Some m \<longrightarrow> supports m (jrp_Name p)"
  shows "supports leader (chooseProtocol members order leader)
    \<and> (\<forall>i \<in> set order. \<forall>m. map_of members i = Some m \<longrightarrow> supports m (chooseProtocol members order leader))"
proof -
  let ?all = "\<lambda>cand. list_all (\<lambda>i. case map_of members i of None \<Rightarrow> True | Some m \<Rightarrow> supports m (jrp_Name cand)) order"
  have "?all p" using assms(2) by (simp add: list_all_iff split: option.splits)
  with assms(1) have "find ?all (m_Protocols leader) \<noteq> None" by (auto simp: find_None_iff)
  then obtain c where c: "find ?all (m_Protocols leader) = Some c" by auto
  then have "c \<in> set (m_Protocols leader)" "?all c" by (auto simp: find_Some_iff)
  moreover have "chooseProtocol members order leader = jrp_Name c"
    using assms(1) c by (cases "m_Protocols leader") (simp_all add: chooseProtocol_def)
  ultimately show ?thesis by (auto simp: list_all_iff supports_name split: option.splits)
qed

text \<open>
  C13.  The last member to join completes the rebalance.  When every other member of a group
  in preparation has joined, a JoinGroup round returns at once: the generation goes up by
  one, the answer carries it, the leader is the first member of the join order, and the
  leader's answer lists every member in that order.  If the leader offers a protocol that
  all members support, the protocol chosen is one that all members support.
\<close>

theorem rebalance_completes:
  assumes "group_ok g" and "g_State g = StatePreparingRebalance" and "i \<in> member_ids g"
    and "insert i (set (g_joined g)) = member_ids g"
  shows "\<exists>r g' leader. join_round now i resp g = Inr (JoinDone r, g') \<and> g_State g' = StateCompletingRebalance
    \<and> g_Members g' = g_Members g \<and> g_Generation g' = g_Generation g + 1 \<and> jgs_GenerationID r = g_Generation g'
    \<and> g_LeaderID g' = hd (g_JoinOrder g) \<and> jgs_LeaderID r = g_LeaderID g' \<and> jgs_ProtocolName r = g_Protocol g'
    \<and> map_of (g_Members g) (g_LeaderID g') = Some leader
    \<and> (i = g_LeaderID g' \<longrightarrow> jgs_Members r = map (\<lambda>j. member_response (g_Protocol g') (the (map_of (g_Members g) j))) (g_JoinOrder g))
    \<and> ((\<exists>p \<in> set (m_Protocols leader). \<forall>m \<in> snd ` set (g_Members g). supports m (jrp_Name p)) \<longrightarrow>
         (\<forall>m \<in> snd ` set (g_Members g). supports m (g_Protocol g')))"
proof -
  let ?g = "g\<lparr>g_joined := List.insert i (g_joined g)\<rparr>"
  have d: "distinct (map fst (g_Members g))" "distinct (g_joined g)" "set (g_JoinOrder g) = member_ids g" "g_Members g \<noteq> []"
    using assms(1,2) by (auto simp: group_ok_def)
  have m: "members_ok ?g" using assms(1,3) by (auto simp: group_ok_def members_ok_def distinct_insert_list)
  have "card (set (List.insert i (g_joined g))) = card (member_ids g)" using assms(4) by simp
  then have len: "length (List.insert i (g_joined g)) = length (g_Members g)"
    using d(1,2) by (simp add: distinct_card distinct_insert_list flip: set_map del: List.set_insert)
  from members_order [OF m] d(4) obtain lead rest leader where
    o: "g_JoinOrder g = lead # rest" "map_of (g_Members g) lead = Some leader" by auto
  let ?p = "chooseProtocol (g_Members g) (g_JoinOrder g) leader"
  let ?g' = "closeJoinWaiters (?g\<lparr>g_Generation := g_Generation g + 1, g_State := StateCompletingRebalance, g_LeaderID := lead,
      g_ProtocolType := m_ProtocolType leader, g_Protocol := ?p, g_assignments := [], g_joined := [], g_rebalanceDeadline := 0\<rparr>)"
  have c: "completeJoin ?g = Inr ?g'" using d(4) o by (simp add: completeJoin_def)
  then have j: "join_round now i resp g = Inr (JoinDone (fillJoinResponse ?g' resp i), ?g')"
    using assms(2) len by (simp add: join_round_def Let_def)
  have mf: "List.map_filter (map_of (g_Members g)) (g_JoinOrder g) = map (\<lambda>j. the (map_of (g_Members g) j)) (g_JoinOrder g)"
  proof -
    have "\<forall>j \<in> set (g_JoinOrder g). map_of (g_Members g) j \<noteq> None" using d(3) by (simp add: map_of_None_ids)
    then show ?thesis by (simp add: List.map_filter_def)
  qed
  have "(\<forall>m \<in> snd ` set (g_Members g). supports m ?p)"
    if "p \<in> set (m_Protocols leader)" "\<forall>m \<in> snd ` set (g_Members g). supports m (jrp_Name p)" for p
  proof -
    have "\<forall>i \<in> set (g_JoinOrder g). \<forall>m. map_of (g_Members g) i = Some m \<longrightarrow> supports m (jrp_Name p)"
      using that(2) by (force dest: map_of_SomeD)
    from chooseProtocol_common [OF that(1) this] show ?thesis
      using d(1,3) by (force simp: map_of_eq_Some_iff [OF d(1)])
  qed
  then show ?thesis
    using j o mf by (intro exI [of _ "fillJoinResponse ?g' resp i"] exI [of _ ?g'] exI [of _ leader])
      (auto simp: closeJoinWaiters_def fillJoinResponse_def comp_def)
qed

theorem rebalance_completes_witness:
  "\<exists>r g'. join_round 5 (memberName 1) (join_response (sample_join_req (memberName 1))) sample_group = Inr (JoinDone r, g')
    \<and> g_State g' = StateCompletingRebalance \<and> jgs_GenerationID r = g_Generation sample_group + 1"
proof -
  have m: "member_ids sample_group = {memberName 1, memberName 2, memberName 3}"
    using sample_facts(10) by (simp flip: set_map)
  then have "insert (memberName 1) (set (g_joined sample_group)) = member_ids sample_group" by (auto simp: sample_facts)
  moreover have "memberName 1 \<in> member_ids sample_group" unfolding m by simp
  ultimately obtain r g' where "join_round 5 (memberName 1) (join_response (sample_join_req (memberName 1))) sample_group = Inr (JoinDone r, g')"
    "g_State g' = StateCompletingRebalance" "g_Generation g' = g_Generation sample_group + 1" "jgs_GenerationID r = g_Generation g'"
    using rebalance_completes [OF sample_group_ok sample_facts(1)] by metis
  then show ?thesis by auto
qed

text \<open>
  C14.  Waiting ends.  From every reachable state, and for every JoinGroup that waits in it,
  the coordinator can reach, by letting the time pass to the request's deadline and waking
  the request up, a state in which it is answered; and at that time there is no other way:
  whatever has happened to the group, the request does not wait again.  The same holds for
  a waiting SyncGroup.
\<close>

theorem waiting_ends:
  assumes "cstep\<^sup>*\<^sup>* (start_coord (NewGroupManager offsets node host port session) t) s"
  shows "(\<forall>ws1 w ws2. c_joins s = ws1 @ w # ws2 \<longrightarrow>
      (\<exists>s'. cstep\<^sup>*\<^sup>* s s' \<and> c_joins s' = ws1 @ ws2)
      \<and> (\<forall>s' now g. cstep\<^sup>*\<^sup>* s s' \<and> jw_deadline w \<le> now \<and> get_group (c_gm s') (jw_group w) = Some g \<longrightarrow>
           (\<exists>r g'. join_wake now w g = Inr (JoinDone r, g'))))
    \<and> (\<forall>ws1 w ws2. c_syncs s = ws1 @ w # ws2 \<longrightarrow>
      (\<exists>s'. cstep\<^sup>*\<^sup>* s s' \<and> c_syncs s' = ws1 @ ws2)
      \<and> (\<forall>now g. sw_deadline w \<le> now \<longrightarrow> (\<exists>r g'. sync_wake now w g = (SyncDone r, g'))))"
proof -
  have ok: "mgr_ok (c_gm s)" by (rule reachable_ok [OF assms])
  have jdone: "\<exists>r g'. join_wake now w g = Inr (JoinDone r, g')" if "group_ok g" "jw_deadline w \<le> now" for now w g
    using expireRebalance_shrinks [OF group_members_ok [OF that(1)]] that(2) by (auto simp: join_wake_def)
  have sdone: "\<exists>r g'. sync_wake now w g = (SyncDone r, g')" if "sw_deadline w \<le> now" for now w g
    using that by (auto simp: sync_wake_def sync_loop_def sync_finish_def Let_def)
  have "\<exists>s'. cstep\<^sup>*\<^sup>* s s' \<and> c_joins s' = ws1 @ ws2" if w: "c_joins s = ws1 @ w # ws2" for ws1 w ws2
  proof -
    let ?s = "s\<lparr>c_now := max (c_now s) (jw_deadline w)\<rparr>"
    have tick: "cstep s ?s" by (rule cstep.tick) simp
    show ?thesis
    proof (cases "get_group (c_gm s) (jw_group w)")
      case None
      then have "cstep ?s (?s\<lparr>c_joins := ws1 @ ws2\<rparr>)" using w by (intro cstep.join_orphan) simp_all
      with tick show ?thesis by (intro exI [of _ "?s\<lparr>c_joins := ws1 @ ws2\<rparr>"]) auto
    next
      case (Some g)
      from jdone [of g w "c_now ?s"] mgr_ok_get [OF ok Some] obtain r g' where
        j: "join_wake (c_now ?s) w g = Inr (JoinDone r, g')" by auto
      let ?s' = "after_join (JoinDone r) (?s\<lparr>c_joins := ws1 @ ws2, c_gm := put_group (jw_group w) g' (c_gm ?s)\<rparr>)"
      have "cstep ?s ?s'" using w Some j by (intro cstep.join_wakes) simp_all
      with tick show ?thesis by (intro exI [of _ ?s']) (auto simp: after_join_def)
    qed
  qed
  moreover have "\<exists>s'. cstep\<^sup>*\<^sup>* s s' \<and> c_syncs s' = ws1 @ ws2" if w: "c_syncs s = ws1 @ w # ws2" for ws1 w ws2
  proof -
    let ?s = "s\<lparr>c_now := max (c_now s) (sw_deadline w)\<rparr>"
    have tick: "cstep s ?s" by (rule cstep.tick) simp
    show ?thesis
    proof (cases "get_group (c_gm s) (sgq_Group (sw_req w))")
      case None
      then have "cstep ?s (?s\<lparr>c_syncs := ws1 @ ws2\<rparr>)" using w by (intro cstep.sync_orphan) simp_all
      with tick show ?thesis by (intro exI [of _ "?s\<lparr>c_syncs := ws1 @ ws2\<rparr>"]) auto
    next
      case (Some g)
      from sdone [of w "c_now ?s" g] obtain r g' where j: "sync_wake (c_now ?s) w g = (SyncDone r, g')" by auto
      let ?s' = "after_sync (SyncDone r) (?s\<lparr>c_syncs := ws1 @ ws2, c_gm := put_group (sgq_Group (sw_req w)) g' (c_gm ?s)\<rparr>)"
      have "cstep ?s ?s'" using w Some j by (intro cstep.sync_wakes) simp_all
      with tick show ?thesis by (intro exI [of _ ?s']) (auto simp: after_sync_def)
    qed
  qed
  moreover have "\<exists>r g'. join_wake now w g = Inr (JoinDone r, g')"
    if "cstep\<^sup>*\<^sup>* s s'" "jw_deadline w \<le> now" "get_group (c_gm s') (jw_group w) = Some g" for s' now w g
    using csteps_evolves [OF that(1) ok] mgr_ok_get [OF _ that(3)] jdone [OF _ that(2)] by (simp add: evolves_def)
  ultimately show ?thesis using sdone by blast
qed

theorem waiting_ends_witness: "\<exists>s'. cstep\<^sup>*\<^sup>* sample_state s' \<and> c_joins s' = [sample_w3]"
proof -
  have "c_joins sample_state = [sample_w3] @ sample_w2 # []" by (simp add: sample_state_def)
  with waiting_ends [OF sample_reachable [unfolded sample_start_eq]] show ?thesis by (metis append_Nil2)
qed

subsection \<open>Commit and fetch\<close>

lemma fold_commits:
  "lookup (fold (commit_one now) rs m) =
     lookup m ++ map_of (rev (map (\<lambda>r. ((ocr_Group r, ocr_Topic r, ocr_Partition r), commit_record now r)) rs))"
proof (induction rs arbitrary: m)
  case (Cons r rs)
  then show ?case
    by (simp add: commit_one_def lookup_set) (auto simp: fun_eq_iff map_add_def split: option.splits)
qed simp

lemma CommitBatch_offsets: "os_offsets (snd (CommitBatch AppendOk now s rs)) = fold (commit_one now) rs (os_offsets s)"
  "fst (CommitBatch AppendOk now s rs) = Inr ()"
  by (cases "rs = []"; simp add: CommitBatch_def appendAndMaybeCompact_def appendBatch_def Let_def)+

definition committed_topic :: "OffsetCommitRequestTopic \<Rightarrow> OffsetFetchResponseTopic" where
  "committed_topic t = \<lparr>ofst_Topic = ocrt_Topic t, ofst_Partitions = map (\<lambda>p. \<lparr>ofsp_Partition = ocrp_Partition p,
     ofsp_Offset = ocrp_Offset p, ofsp_LeaderEpoch = ocrp_LeaderEpoch p, ofsp_Metadata = ocrp_Metadata p, ofsp_ErrorCode = 0\<rparr>)
     (ocrt_Partitions t)\<rparr>"

definition fetch_topic :: "OffsetCommitRequestTopic \<Rightarrow> OffsetFetchRequestTopic" where
  "fetch_topic t = \<lparr>ofrt_Topic = ocrt_Topic t, ofrt_Partitions = Some (map ocrp_Partition (ocrt_Partitions t))\<rparr>"

lemma commit_stored:
  assumes "distinct (map (\<lambda>r. (ocr_Topic r, ocr_Partition r)) (commit_records req))"
    and "t \<in> set (ocq_Topics req)" and "p \<in> set (ocrt_Partitions t)"
  shows "lookup (fold (commit_one now) (commit_records req) m) (ocq_Group req, ocrt_Topic t, ocrp_Partition p)
    = Some \<lparr>co_Offset = ocrp_Offset p, co_Metadata = ocrp_Metadata p, co_LeaderEpoch = ocrp_LeaderEpoch p, co_UpdatedAt = now\<rparr>"
proof -
  let ?c = "\<lparr>co_Offset = ocrp_Offset p, co_Metadata = ocrp_Metadata p, co_LeaderEpoch = ocrp_LeaderEpoch p, co_UpdatedAt = 0\<rparr>"
  let ?r = "\<lparr>ocr_Group = ocq_Group req, ocr_Topic = ocrt_Topic t, ocr_Partition = ocrp_Partition p, ocr_Offset = ?c\<rparr>"
  let ?kv = "map (\<lambda>r. ((ocr_Group r, ocr_Topic r, ocr_Partition r), commit_record now r)) (commit_records req)"
  have r: "?r \<in> set (commit_records req)" using assms(2,3) by (auto simp: commit_records_def)
  have "distinct (map fst (rev ?kv))"
  proof -
    have "map snd (map fst ?kv) = map (\<lambda>r. (ocr_Topic r, ocr_Partition r)) (commit_records req)" by simp
    with assms(1) have "distinct (map snd (map fst ?kv))" by (simp only:)
    then have "distinct (map fst ?kv)" by (simp only: distinct_map [of snd])
    then show ?thesis by (simp only: distinct_rev flip: rev_map)
  qed
  moreover have "((ocq_Group req, ocrt_Topic t, ocrp_Partition p), commit_record now ?r) \<in> set ?kv"
    using r by (force simp: image_iff)
  ultimately have "map_of (rev ?kv) (ocq_Group req, ocrt_Topic t, ocrp_Partition p) = Some (commit_record now ?r)"
    by (simp only: map_of_eq_Some_iff set_rev)
  then show ?thesis unfolding fold_commits by (simp add: map_add_def commit_record_def)
qed

text \<open>
  C12.  Committed offsets are fetched back.  When a commit is not fenced (a member of the
  current generation outside a rebalance, or a commit without a generation) and names each
  partition once, it is answered without an error for every partition, and a fetch of the
  same partitions returns exactly the offsets, epochs and metadata committed.
\<close>

theorem commit_then_fetch:
  assumes "getOrCreate gm (ocq_Group req) = (g, gm1)" and "commit_fence req g = ErrNone"
    and "distinct (map (\<lambda>r. (ocr_Topic r, ocr_Partition r)) (commit_records req))"
    and "OffsetCommit AppendOk now gm req = (resp, gm')"
  shows "ocs_Topics resp = map (commit_topic ErrNone) (ocq_Topics req)
    \<and> ofs_Topics (OffsetFetch gm' \<lparr>ofq_Version = v, ofq_Group = ocq_Group req, ofq_Topics = Some (map fetch_topic (ocq_Topics req))\<rparr>)
       = map committed_topic (ocq_Topics req)"
proof -
  let ?s = "snd (CommitBatch AppendOk now (gm_offsets gm1) (commit_records req))"
  have c: "resp = \<lparr>ocs_Version = ocq_Version req, ocs_ThrottleTimeMs = 0, ocs_Topics = map (commit_topic ErrNone) (ocq_Topics req)\<rparr>"
    "gm_offsets gm' = ?s"
    using assms(1,2,4) CommitBatch_offsets(2) [of now "gm_offsets gm1" "commit_records req"]
    by (auto simp: OffsetCommit_def Let_def CommitBatch_def split: prod.splits sum.splits if_splits)
  have "fetch_partition gm' (ocq_Group req) (ocrt_Topic t) (ocrp_Partition p) = \<lparr>ofsp_Partition = ocrp_Partition p,
      ofsp_Offset = ocrp_Offset p, ofsp_LeaderEpoch = ocrp_LeaderEpoch p, ofsp_Metadata = ocrp_Metadata p, ofsp_ErrorCode = 0\<rparr>"
    if "t \<in> set (ocq_Topics req)" "p \<in> set (ocrt_Partitions t)" for t p
    using commit_stored [OF assms(3) that]
    by (simp add: fetch_partition_def c(2) Fetch_lookup CommitBatch_offsets(1))
  then show ?thesis by (simp add: c(1) OffsetFetch_def committed_topic_def fetch_topic_def Let_def)
qed

theorem commit_then_fetch_witness:
  "\<exists>resp gm'. OffsetCommit AppendOk 9 sample_manager (sample_offset_commit [] (-1)) = (resp, gm')
    \<and> ofs_Topics (OffsetFetch gm' \<lparr>ofq_Version = 5, ofq_Group = str ''g'', ofq_Topics = Some (map fetch_topic (ocq_Topics (sample_offset_commit [] (-1))))\<rparr>)
       = map committed_topic (ocq_Topics (sample_offset_commit [] (-1)))"
proof -
  let ?req = "sample_offset_commit [] (-1)"
  obtain g gm1 where g: "getOrCreate sample_manager (ocq_Group ?req) = (g, gm1)" by fastforce
  obtain resp gm' where r: "OffsetCommit AppendOk 9 sample_manager ?req = (resp, gm')" by fastforce
  have "commit_fence ?req g = ErrNone" by (simp add: commit_fence_def sample_offset_commit_def)
  moreover have "distinct (map (\<lambda>r. (ocr_Topic r, ocr_Partition r)) (commit_records ?req))"
    by (simp add: commit_records_def sample_offset_commit_def)
  moreover have "ocq_Group ?req = str ''g''" by (simp add: sample_offset_commit_def)
  ultimately show ?thesis using commit_then_fetch [OF g _ _ r, of 5] r by auto
qed

end
