(* ===== verification/Compaction.thy ===== *)
theory Compaction
  imports Produce_Path
begin

text \<open>
  Log compaction (\<^verbatim>\<open>src/internal/storage/compaction.go\<close>): the scan over the batches of the
  segments, the first pass that finds the last index of each key, the second pass that
  writes the records to keep, and the writer with its batches and segments.  The scan of
  one segment re-reads the segment until it reaches the end and is a partial function:
  None is a scan that does not return.  The clock is read once per batch written; it is
  the parameter \<open>clock\<close>, a function of the offset the writer has reached.
\<close>

subsection \<open>Loops with an early return\<close>

fun each :: "('a \<Rightarrow> 's \<Rightarrow> unit res \<times> 's) \<Rightarrow> 'a list \<Rightarrow> 's \<Rightarrow> unit res \<times> 's" where
  "each f [] s = (Inr (), s)"
| "each f (x # xs) s = (case f x s of (Inl e, s') \<Rightarrow> (Inl e, s') | (Inr _, s') \<Rightarrow> each f xs s')"

lemma each_append:
  "each f (xs @ ys) s = (case each f xs s of (Inl e, s') \<Rightarrow> (Inl e, s') | (Inr _, s') \<Rightarrow> each f ys s')"
  by (induction xs arbitrary: s) (auto split: prod.splits sum.splits)

lemma each_concat: "each (\<lambda>x. each f (g x)) xs s = each f (concat (map g xs)) s"
  by (induction xs arbitrary: s) (auto simp: each_append split: prod.splits sum.splits)

lemma each_ok:
  assumes "\<And>x s. x \<in> set xs \<Longrightarrow> I s \<Longrightarrow> f x s = (Inr (), g x s) \<and> I (g x s)" and "I s"
  shows "each f xs s = (Inr (), fold g xs s) \<and> I (fold g xs s)"
  using assms by (induction xs arbitrary: s) auto

subsection \<open>The scan of the batches\<close>

function scan_batches ::
  "(RecordBatch \<Rightarrow> 's \<Rightarrow> unit res \<times> 's) \<Rightarrow> bytes \<Rightarrow> int \<Rightarrow> bool \<Rightarrow> 's \<Rightarrow> (int \<times> bool) res \<times> 's" where
  "scan_batches fn raw next advanced s =
     (if length raw < 12 then (Inr (next, advanced), s)
      else case ParseRecordBatchHeader raw of
        Inl _ \<Rightarrow> (Inr (next, advanced), s)
      | Inr h \<Rightarrow>
          (let tot = BatchTotalSize h
           in if tot \<le> 0 \<or> int (length raw) < tot then (Inr (next, advanced), s)
              else case DecodeRecordBatch (take (nat tot) raw) of
                Inl e \<Rightarrow>
                  if e = Panic then (Inl Panic, s)
                  else scan_batches fn (drop (nat tot) raw) next advanced s
              | Inr b \<Rightarrow>
                  (case fn b s of
                     (Inl e, s') \<Rightarrow> (Inl e, s')
                   | (Inr _, s') \<Rightarrow>
                       scan_batches fn (drop (nat tot) raw)
                         (s64 (s64 (sint (Uint64 (slice 0 8 raw)) + sint (bh_LastOffsetDelta h)) + 1)) True s')))"
  by pat_completeness auto
termination by (relation "measure (\<lambda>(fn, raw, next, advanced, s). length raw)") auto

declare scan_batches.simps [simp del]

definition compactReadBytes :: int where
  "compactReadBytes = 1048576"

partial_function (option) forEachBatchRange ::
  "(RecordBatch \<Rightarrow> 's \<Rightarrow> unit res \<times> 's) \<Rightarrow> Segment \<Rightarrow> int \<Rightarrow> int \<Rightarrow> 's \<Rightarrow> (unit res \<times> 's) option" where
  "forEachBatchRange fn seg next to s =
     (if next < to then
        (case seg_read seg next compactReadBytes of
           Inl e \<Rightarrow> Some (Inl e, s)
         | Inr raw \<Rightarrow>
             (case scan_batches fn raw next False s of
                (Inl e, s') \<Rightarrow> Some (Inl e, s')
              | (Inr (next', advanced), s') \<Rightarrow>
                  if advanced then forEachBatchRange fn seg next' to s' else Some (Inr (), s')))
      else Some (Inr (), s))"

fun forEachBatch ::
  "(RecordBatch \<Rightarrow> 's \<Rightarrow> unit res \<times> 's) \<Rightarrow> Segment list \<Rightarrow> int \<Rightarrow> 's \<Rightarrow> (unit res \<times> 's) option" where
  "forEachBatch fn [] fin s = Some (Inr (), s)"
| "forEachBatch fn (seg # segs) fin s =
     (let limit = sg_nextOffset seg; limit = (if 0 < fin \<and> fin < limit then fin else limit)
      in case forEachBatchRange fn seg (sg_baseOffset seg) limit s of
           None \<Rightarrow> None
         | Some (Inl e, s') \<Rightarrow> Some (Inl e, s')
         | Some (Inr _, s') \<Rightarrow> forEachBatch fn segs fin s')"

subsection \<open>First pass: the last index of each key\<close>

definition compactMaxKeyBytes :: int where
  "compactMaxKeyBytes = 268435456"

record compactionPlan =
  cp_last :: "(bytes \<times> int) list"
  cp_total :: int
  cp_planned :: int
  cp_keyBytes :: int

text \<open>The plan under construction with the two counters of the pass.\<close>

type_synonym plan_state = "compactionPlan \<times> int \<times> int"

definition plan_record :: "Record \<Rightarrow> plan_state \<Rightarrow> unit res \<times> plan_state" where
  "plan_record rec st =
     (case st of (plan, idx, nulls) \<Rightarrow>
        case Key rec of
          None \<Rightarrow> (Inr (), (plan, idx + 1, nulls + 1))
        | Some k \<Rightarrow>
            (let seen = (map_of (cp_last plan) k \<noteq> None);
                 plan1 = (if seen then plan else plan\<lparr>cp_keyBytes := cp_keyBytes plan + int (length k)\<rparr>)
             in if \<not> seen \<and> cp_keyBytes plan1 > compactMaxKeyBytes
                then (Inl (Errorf ''compaction key state above limit''), (plan1, idx, nulls))
                else (Inr (), (plan1\<lparr>cp_last := AList.update k idx (cp_last plan1)\<rparr>, idx + 1, nulls))))"

definition planCompaction :: "Segment list \<Rightarrow> int \<Rightarrow> compactionPlan res option" where
  "planCompaction segs fin =
     (case forEachBatch (\<lambda>b. each plan_record (Records b)) segs fin
             (\<lparr>cp_last = [], cp_total = 0, cp_planned = 0, cp_keyBytes = 0\<rparr>, 0, 0) of
        None \<Rightarrow> None
      | Some (Inl e, _) \<Rightarrow> Some (Inl e)
      | Some (Inr _, (plan, idx, nulls)) \<Rightarrow>
          Some (Inr (plan\<lparr>cp_total := idx, cp_planned := nulls + int (length (cp_last plan))\<rparr>)))"

subsection \<open>The writer\<close>

text \<open>
  The segments the writer has closed are kept in \<open>cw_closed\<close>; together with the open one
  they are the files of its directory.
\<close>

record compactWriter =
  cw_maxBytes :: int
  cw_interval :: int
  cw_base :: int
  cw_seg :: Segment
  cw_closed :: "Segment list"
  cw_batch :: "Record list"
  cw_pendingBytes :: int

definition compactBatchSize :: nat where
  "compactBatchSize = 500"

definition compactBatchBytes :: int where
  "compactBatchBytes = 1048576"

definition writer_files :: "compactWriter \<Rightarrow> part_dir" where
  "writer_files w = map (\<lambda>s. (sg_baseOffset s, files_of s)) (cw_closed w @ [cw_seg w])"

definition newCompactWriter :: "int \<Rightarrow> int \<Rightarrow> compactWriter res" where
  "newCompactWriter maxBytes interval =
     res_bind (openSegment no_files 0 maxBytes interval) (\<lambda>seg.
       Inr \<lparr>cw_maxBytes = maxBytes, cw_interval = interval, cw_base = 0, cw_seg = seg, cw_closed = [],
            cw_batch = [], cw_pendingBytes = 0\<rparr>)"

definition writer_roll :: "compactWriter \<Rightarrow> unit res \<times> compactWriter" where
  "writer_roll w =
     (case openSegment (case map_of (writer_files w) (cw_base w) of Some f \<Rightarrow> f | None \<Rightarrow> no_files)
             (cw_base w) (cw_maxBytes w) (cw_interval w) of
        Inl e \<Rightarrow> (Inl e, w)
      | Inr seg \<Rightarrow> (Inr (), w\<lparr>cw_seg := seg, cw_closed := cw_closed w @ [cw_seg w]\<rparr>))"

definition compact_batch :: "int64 \<Rightarrow> Record list \<Rightarrow> RecordBatch" where
  "compact_batch now rs =
     \<lparr>BaseOffset = 0, PartitionLeaderEpoch = 0, Magic = 0, CRC = 0, rb_Attributes = 0, LastOffsetDelta = 0,
      BaseTimestamp = now, MaxTimestamp = now, ProducerID = -1, ProducerEpoch = -1, BaseSequence = -1,
      Records = rs\<rparr>"

definition writer_flush :: "(int \<Rightarrow> int64) \<Rightarrow> compactWriter \<Rightarrow> unit res \<times> compactWriter" where
  "writer_flush clock w =
     (if cw_batch w = [] then (Inr (), w)
      else case EncodeRecordBatch (compact_batch (clock (sg_nextOffset (cw_seg w))) (cw_batch w)) of
        Inl e \<Rightarrow> (Inl e, w)
      | Inr (raw, _) \<Rightarrow>
          (case seg_append (cw_seg w) raw of
             Inl e \<Rightarrow> (Inl e, w)
           | Inr (_, _, seg) \<Rightarrow>
               (let w1 = w\<lparr>cw_seg := seg, cw_batch := [], cw_pendingBytes := 0\<rparr>
                in if seg_full seg then writer_roll (w1\<lparr>cw_base := sg_nextOffset seg\<rparr>) else (Inr (), w1))))"

definition copied :: "nat \<Rightarrow> Record \<Rightarrow> Record" where
  "copied i rec = \<lparr>rec_Attributes = 0, TimestampDelta = 0, OffsetDelta = of_nat i, Key = Key rec, Value = Value rec,
     Headers = Headers rec\<rparr>"

definition writer_add :: "(int \<Rightarrow> int64) \<Rightarrow> Record \<Rightarrow> compactWriter \<Rightarrow> unit res \<times> compactWriter" where
  "writer_add clock rec w =
     (let w1 = w\<lparr>cw_batch := cw_batch w @ [copied (length (cw_batch w)) rec],
                 cw_pendingBytes := cw_pendingBytes w + int (olen (Key rec)) + int (olen (Value rec))\<rparr>
      in if length (cw_batch w1) < compactBatchSize \<and> cw_pendingBytes w1 < compactBatchBytes
         then (Inr (), w1) else writer_flush clock w1)"

text \<open>\<^verbatim>\<open>finish\<close> closes the last segment; the names it returns are those of \<open>writer_files\<close>.\<close>

definition writer_finish :: "(int \<Rightarrow> int64) \<Rightarrow> compactWriter \<Rightarrow> unit res \<times> compactWriter" where
  "writer_finish clock w = writer_flush clock w"

subsection \<open>Second pass: the records to keep\<close>

definition stage_record ::
  "(int \<Rightarrow> int64) \<Rightarrow> compactionPlan \<Rightarrow> Record \<Rightarrow> int \<times> compactWriter \<Rightarrow> unit res \<times> (int \<times> compactWriter)" where
  "stage_record clock plan rec st =
     (case st of (idx, w) \<Rightarrow>
        let keep = (case Key rec of None \<Rightarrow> True | Some k \<Rightarrow> map_of (cp_last plan) k = Some idx)
        in if keep then (case writer_add clock rec w of (r, w') \<Rightarrow> (r, (idx + 1, w')))
           else (Inr (), (idx + 1, w)))"

definition stageCompaction ::
  "(int \<Rightarrow> int64) \<Rightarrow> int \<Rightarrow> int \<Rightarrow> Segment list \<Rightarrow> int \<Rightarrow> compactionPlan \<Rightarrow> compactWriter res option" where
  "stageCompaction clock maxSegBytes indexInterval segs fin plan =
     (case newCompactWriter maxSegBytes indexInterval of
        Inl e \<Rightarrow> Some (Inl e)
      | Inr w \<Rightarrow>
          (case forEachBatch (\<lambda>b. each (stage_record clock plan) (Records b)) segs fin (0, w) of
             None \<Rightarrow> None
           | Some (Inl e, _) \<Rightarrow> Some (Inl e)
           | Some (Inr _, (_, w')) \<Rightarrow> Some (Inr w')))"

subsection \<open>Compact\<close>

text \<open>
  \<^verbatim>\<open>Compact\<close> gives up the lock between staging and installing, so it is two steps here; the
  partition that the second one finds may have taken appends in between.  The scan and the
  writer run over the snapshot in between the two; \<open>Staged\<close> carries the writer and the end of the
  snapshot.  A failure of the first step leaves the partition as it is.
\<close>

definition compactionSource :: "Partition \<Rightarrow> Segment list \<times> int" where
  "compactionSource p =
     (if \<exists>s \<in> set (orderedSegments p). sg_remote s then ([], 0) else (orderedSegments p, p_nextOffset p))"

datatype compact_outcome = CompactReturned "unit res" | Staged compactWriter int

definition Compact_stage :: "(int \<Rightarrow> int64) \<Rightarrow> Partition \<Rightarrow> compact_outcome option" where
  "Compact_stage clock p =
     (if p_compacting p then Some (CompactReturned (Inl ErrCompactionRunning))
      else case compactionSource p of (segs, fin) \<Rightarrow>
        if segs = [] then Some (CompactReturned (Inr ()))
        else case planCompaction segs fin of
               None \<Rightarrow> None
             | Some (Inl e) \<Rightarrow> Some (CompactReturned (Inl e))
             | Some (Inr plan) \<Rightarrow>
                 if cp_planned plan \<ge> cp_total plan then Some (CompactReturned (Inr ()))
                 else case stageCompaction clock (p_maxSegmentBytes p) (p_indexInterval p) segs fin plan of
                        None \<Rightarrow> None
                      | Some (Inl e) \<Rightarrow> Some (CompactReturned (Inl e))
                      | Some (Inr w) \<Rightarrow> Some (Staged w fin))"

text \<open>
  The files of the writer replace those of the partition (theory \<open>Compaction_Swap\<close>) and the
  partition is opened on them.  When that fails the partition is left without an active
  segment, the inner None.
\<close>

definition installCompaction ::
  "(int \<Rightarrow> int64) \<Rightarrow> int \<Rightarrow> compactWriter \<Rightarrow> int \<Rightarrow> Partition \<Rightarrow> (unit res \<times> Partition option) option" where
  "installCompaction clock now w snapshotEnd p =
     (case forEachBatchRange (\<lambda>b. each (writer_add clock) (Records b)) (p_activeSegment p) snapshotEnd
             (p_nextOffset p) w of
        None \<Rightarrow> None
      | Some (Inl e, _) \<Rightarrow> Some (Inl e, Some p)
      | Some (Inr _, w1) \<Rightarrow>
          (case writer_finish clock w1 of
             (Inl e, _) \<Rightarrow> Some (Inl e, Some p)
           | (Inr _, w2) \<Rightarrow>
               (case part_recover (writer_files w2) (p_maxSegmentBytes p) (p_indexInterval p) of
                  Inl e \<Rightarrow> Some (Inl e, None)
                | Inr q \<Rightarrow>
                    Some (Inr (), Some (p\<lparr>p_closedSegments := p_closedSegments q, p_activeSegment := p_activeSegment q,
                      p_nextOffset := p_nextOffset q, p_highWatermark := p_highWatermark q,
                      p_lastCompactMs := now, p_bytesAtCompact := int (totalSize q)\<rparr>)))))"

end
