(* ===== verification/Compaction_Refine.thy ===== *)
theory Compaction_Refine
  imports Compaction
begin

text \<open>
  What compaction does to the records of a log.  The scan over segments is a fold over the
  decoded batches and always returns; the two passes together keep exactly the last record
  of every key and every record without a key; the writer's segments hold the records it
  was given, with offsets counted from 0.
\<close>

subsection \<open>Decoding a log\<close>

definition decoded :: "bytes \<Rightarrow> RecordBatch" where
  "decoded b = (case DecodeRecordBatch b of Inr x \<Rightarrow> x | Inl _ \<Rightarrow> compact_batch 0 [])"

definition decodes :: "bytes \<Rightarrow> bool" where
  "decodes b \<longleftrightarrow> DecodeRecordBatch b = Inr (decoded b)"

definition log_records :: "bytes list \<Rightarrow> Record list" where
  "log_records bs = concat (map (\<lambda>b. Records (decoded b)) bs)"

lemma log_records_append [simp]: "log_records (bs @ cs) = log_records bs @ log_records cs"
  by (simp add: log_records_def)

lemma log_records_Nil [simp]: "log_records [] = []"
  by (simp add: log_records_def)

lemma decodes_magic: "decodes b \<Longrightarrow> b ! 16 = 2"
  by (auto simp: decodes_def DecodeRecordBatch_def RecordMagic_def Let_def split: if_splits)

definition last_in_range :: "bytes \<Rightarrow> bool" where
  "last_in_range b \<longleftrightarrow> 0 \<le> batch_last b \<and> batch_last b < 2 ^ 62 + 2 ^ 32"

lemma log_small_range:
  assumes "log_small base bs" and "b \<in> set bs"
  shows "wf_batch b" "last_in_range b"
proof -
  from assms log_ok_members [of base bs b] have
    m: "wf_batch b" "base \<le> batch_base b" "batch_last b < log_end base bs" by (auto simp: log_small_def)
  then show "wf_batch b" by simp
  show "last_in_range b"
    using m assms(1) batch_last_ge [OF m(1)] by (simp add: last_in_range_def log_small_def)
qed

subsection \<open>Scanning what a read returned\<close>

lemma scan_short: "length raw < 12 \<Longrightarrow> scan_batches fn raw nxt adv s = (Inr (nxt, adv), s)"
  by (subst scan_batches.simps) simp

lemma scan_step:
  assumes "wf_batch b" and "last_in_range b"
  shows "scan_batches fn (b @ rest) nxt adv s =
    (if b ! 16 \<noteq> 2 then (Inr (nxt, adv), s)
     else case DecodeRecordBatch b of
       Inl e \<Rightarrow> if e = Panic then (Inl Panic, s) else scan_batches fn rest nxt adv s
     | Inr x \<Rightarrow> (case fn x s of (Inl e, s') \<Rightarrow> (Inl e, s')
               | (Inr _, s') \<Rightarrow> scan_batches fn rest (batch_last b + 1) True s'))"
proof -
  have l: "61 \<le> length b" "12 + batch_length_field b = int (length b)" using assms(1) by (simp_all add: wf_batch_def)
  have sl: "slice i j (b @ rest) = slice i j b" if "j \<le> 61" for i j
    using l(1) that by (simp add: slice_def min_def)
  have m: "(b @ rest) ! 16 = b ! 16" using l(1) by (simp add: nth_append)
  have s: "s64 (s64 (batch_base b + batch_delta b) + 1) = batch_last b + 1"
    using assms(2) unfolding batch_last_def [symmetric]
    by (subst s64_id; simp add: last_in_range_def s64_id)
  show ?thesis
  proof (cases "b ! 16 = 2")
    case False
    then show ?thesis using l m by (subst scan_batches.simps) (simp add: ParseRecordBatchHeader_def batchHeaderSize_def)
  next
    case True
    have h: "ParseRecordBatchHeader (b @ rest) = Inr \<lparr>bh_BaseOffset = Uint64 (slice 0 8 b),
        bh_Length = Uint32 (slice 8 12 b), bh_LastOffsetDelta = Uint32 (slice 23 27 b), bh_Count = Uint32 (slice 57 61 b)\<rparr>"
      using l True m by (simp add: ParseRecordBatchHeader_def batchHeaderSize_def sl)
    have t: "BatchTotalSize \<lparr>bh_BaseOffset = Uint64 (slice 0 8 b), bh_Length = Uint32 (slice 8 12 b),
        bh_LastOffsetDelta = Uint32 (slice 23 27 b), bh_Count = Uint32 (slice 57 61 b)\<rparr> = int (length b)"
      using l(2) by (simp add: BatchTotalSize_def batch_length_field_def)
    have "b \<noteq> []" using l(1) by auto
    moreover have "slice 0 8 (b @ rest) = slice 0 8 b" by (rule sl) simp
    ultimately show ?thesis
      using l(1) True s unfolding batch_base_def batch_delta_def
      by (subst scan_batches.simps) (simp add: h t Let_def cong: sum.case_cong prod.case_cong if_cong)
  qed
qed

text \<open>A scan that advances ends behind one of the batches, whether or not the others decode.\<close>

lemma scan_advances:
  assumes "\<forall>b \<in> set bs. wf_batch b \<and> last_in_range b"
    and "scan_batches fn (concat bs) nxt adv s = (Inr (nxt', adv'), s')"
  shows "(nxt' = nxt \<and> adv' = adv) \<or> (\<exists>b \<in> set bs. nxt' = batch_last b + 1)"
  using assms
proof (induction bs arbitrary: nxt adv s)
  case (Cons b bs)
  then have b: "wf_batch b" "last_in_range b" by simp_all
  show ?case
    using Cons.prems Cons.IH
    by (auto simp: scan_step [OF b] split: if_splits sum.splits prod.splits)
qed (simp add: scan_short)

lemma scan_decodes:
  assumes "\<forall>b \<in> set bs. wf_batch b \<and> last_in_range b \<and> decodes b"
  shows "scan_batches fn (concat bs) nxt adv s =
    (case each fn (map decoded bs) s of (Inl e, s') \<Rightarrow> (Inl e, s')
     | (Inr _, s') \<Rightarrow> (Inr (if bs = [] then (nxt, adv) else (batch_last (last bs) + 1, True)), s'))"
  using assms
proof (induction bs arbitrary: nxt adv s)
  case (Cons b bs)
  then have b: "wf_batch b" "last_in_range b" and d: "DecodeRecordBatch b = Inr (decoded b)" "b ! 16 = 2"
    using decodes_magic [of b] by (auto simp: decodes_def)
  show ?case
    using Cons.prems Cons.IH d by (auto simp: scan_step [OF b] split: sum.splits prod.splits)
qed (simp add: scan_short)

subsection \<open>The scan of a segment\<close>

lemma log_lasts_sorted: "log_ok n bs \<Longrightarrow> sorted_wrt (\<lambda>a b. batch_last a < batch_last b) bs"
proof (induction n bs rule: log_ok.induct)
  case (2 n b bs)
  have "batch_last b < batch_last c" if "c \<in> set bs" for c
    using 2 log_ok_members [of "batch_last b + 1" bs c] batch_last_ge [of c] that by auto
  with 2 show ?case by simp
qed simp

lemma take_bytes_prefix: "\<exists>zs. bs = take_bytes m bs @ zs"
proof (induction m bs rule: take_bytes.induct)
  case (2 m b bs)
  then show ?case by (cases "m \<le> 0") auto
qed simp

lemma take_bytes_nonempty: "0 < m \<Longrightarrow> bs \<noteq> [] \<Longrightarrow> take_bytes m bs \<noteq> []"
  by (cases bs) auto

text \<open>The batches left after a read are those behind its last batch.\<close>

lemma filter_after_prefix:
  assumes "log_ok n bs" and "filter (\<lambda>b. ofs \<le> batch_last b) bs = ys @ zs" and "ys \<noteq> []"
  shows "filter (\<lambda>b. batch_last (last ys) + 1 \<le> batch_last b) bs = zs" and "ofs \<le> batch_last (last ys)"
proof -
  let ?l = "batch_last (last ys)"
  have "sorted_wrt (\<lambda>a b. batch_last a < batch_last b) (ys @ zs)"
    using sorted_wrt_filter [OF log_lasts_sorted [OF assms(1)]] assms(2) by metis
  moreover have ys: "ys = butlast ys @ [last ys]" using assms(3) by simp
  ultimately have s: "sorted_wrt (\<lambda>a b. batch_last a < batch_last b) (butlast ys @ last ys # zs)"
    by (metis append.assoc append_Cons append_Nil)
  have "last ys \<in> set (filter (\<lambda>b. ofs \<le> batch_last b) bs)" using assms(2,3) by simp
  then show le: "ofs \<le> ?l" by simp
  have "filter (\<lambda>b. ?l + 1 \<le> batch_last b) bs
      = filter (\<lambda>b. ?l + 1 \<le> batch_last b) (filter (\<lambda>b. ofs \<le> batch_last b) bs)"
    using le by (simp add: filter_filter) (rule filter_cong; auto)
  also have "\<dots> = filter (\<lambda>b. ?l + 1 \<le> batch_last b) (butlast ys @ last ys # zs)"
    using assms(2) ys by (metis append.assoc append_Cons append_Nil)
  also have "\<dots> = zs"
  proof -
    have "\<forall>b \<in> set (butlast ys). batch_last b < ?l" "\<forall>b \<in> set zs. ?l < batch_last b"
      using s by (simp_all add: sorted_wrt_append)
    then have "filter (\<lambda>b. ?l + 1 \<le> batch_last b) (butlast ys) = []" "filter (\<lambda>b. ?l + 1 \<le> batch_last b) zs = zs"
      by (fastforce simp: filter_empty_conv intro: filter_True)+
    then show ?thesis by simp
  qed
  finally show "filter (\<lambda>b. ?l + 1 \<le> batch_last b) bs = zs" .
qed

lemma seg_ok_scan_read:
  assumes "seg_ok seg bs" and "sg_baseOffset seg \<le> nxt" and "nxt < sg_nextOffset seg"
  obtains ys zs where "filter (\<lambda>b. nxt \<le> batch_last b) bs = ys @ zs" "ys \<noteq> []"
    "seg_read seg nxt compactReadBytes = Inr (concat ys)"
proof -
  let ?f = "filter (\<lambda>b. nxt \<le> batch_last b) bs"
  have log: "log_ok (sg_baseOffset seg) bs" "sg_nextOffset seg = log_end (sg_baseOffset seg) bs"
    using seg_ok_log [OF assms(1)] seg_ok_next [OF assms(1)] by simp_all
  have "?f \<noteq> []"
  proof
    assume "?f = []"
    then have all: "\<forall>b \<in> set bs. batch_last b < nxt" by (auto simp: filter_empty_conv)
    have "log_end n bs \<le> max n nxt" if "log_ok n bs" "\<forall>b \<in> set bs. batch_last b < nxt" for n
      using that
    proof (induction n bs rule: log_ok.induct)
      case (2 n b bs)
      then show ?case using 2(1) by force
    qed simp
    from this [OF log(1) all] show False using log(2) assms(2,3) by simp
  qed
  moreover have "nxt - sg_baseOffset seg < 2 ^ 32"
    using assms(1,3) log(2) by (auto simp: seg_ok_def log_small_def)
  ultimately show thesis
    using that take_bytes_prefix [of ?f compactReadBytes] take_bytes_nonempty [of compactReadBytes ?f]
      segment_read [OF assms(1,2), of compactReadBytes]
    by (metis compactReadBytes_def zero_less_numeral)
qed

lemma seg_ok_members:
  assumes "seg_ok seg bs" and "b \<in> set bs"
  shows "wf_batch b" and "last_in_range b"
  using assms log_small_range [of "sg_baseOffset seg" bs b] by (simp_all add: seg_ok_def)

lemma forEachBatchRange_returns:
  assumes "seg_ok seg bs" and "sg_baseOffset seg \<le> nxt" and "to \<le> sg_nextOffset seg"
  shows "\<exists>r. forEachBatchRange fn seg nxt to s = Some r"
  using assms(2)
proof (induction "nat (to - nxt)" arbitrary: nxt s rule: less_induct)
  case less
  show ?case
  proof (cases "nxt < to")
    case True
    then obtain ys zs where r: "filter (\<lambda>b. nxt \<le> batch_last b) bs = ys @ zs" "ys \<noteq> []"
      "seg_read seg nxt compactReadBytes = Inr (concat ys)"
      using seg_ok_scan_read [OF assms(1) less.prems] assms(3) by (metis less_le_trans)
    have ys: "b \<in> set bs \<and> nxt \<le> batch_last b" if "b \<in> set ys" for b
      using arg_cong [OF r(1), of set] that by auto
    have range: "\<forall>b \<in> set ys. wf_batch b \<and> last_in_range b" using ys seg_ok_members [OF assms(1)] by blast
    obtain res s' where e: "scan_batches fn (concat ys) nxt False s = (res, s')" by fastforce
    show ?thesis
    proof (cases res)
      case (Inl err)
      then show ?thesis using True r(3) e by (subst forEachBatchRange.simps) simp
    next
      case (Inr p)
      obtain nxt' adv where p: "p = (nxt', adv)" by fastforce
      show ?thesis
      proof (cases adv)
        case False
        then show ?thesis using True r(3) e Inr p by (subst forEachBatchRange.simps) simp
      next
        case adv: True
        with scan_advances [OF range, of fn nxt False s nxt' adv s'] e Inr p ys have "nxt < nxt'" by auto
        then show ?thesis
          using less.hyps [of nxt' s'] less.prems True r(3) e Inr p adv by (subst forEachBatchRange.simps) simp
      qed
    qed
  qed (subst forEachBatchRange.simps, simp)
qed

lemma forEachBatchRange_fold:
  assumes "seg_ok seg bs" and "sg_baseOffset seg \<le> nxt" and "\<forall>b \<in> set bs. decodes b"
  shows "forEachBatchRange fn seg nxt (sg_nextOffset seg) s
    = Some (each fn (map decoded (filter (\<lambda>b. nxt \<le> batch_last b) bs)) s)"
  using assms(2)
proof (induction "nat (sg_nextOffset seg - nxt)" arbitrary: nxt s rule: less_induct)
  case less
  show ?case
  proof (cases "nxt < sg_nextOffset seg")
    case False
    have "filter (\<lambda>b. nxt \<le> batch_last b) bs = []"
      using False log_ok_members [OF seg_ok_log [OF assms(1)]] seg_ok_next [OF assms(1)]
      by (fastforce simp: filter_empty_conv)
    then show ?thesis using False by (subst forEachBatchRange.simps) simp
  next
    case True
    then obtain ys zs where r: "filter (\<lambda>b. nxt \<le> batch_last b) bs = ys @ zs" "ys \<noteq> []"
      "seg_read seg nxt compactReadBytes = Inr (concat ys)"
      using seg_ok_scan_read [OF assms(1) less.prems] by metis
    have "set ys \<subseteq> set bs" using arg_cong [OF r(1), of set] by auto
    then have "\<forall>b \<in> set ys. wf_batch b \<and> last_in_range b \<and> decodes b"
      using seg_ok_members [OF assms(1)] assms(3) by blast
    note scan = scan_decodes [OF this, of fn nxt False s]
    note after = filter_after_prefix [OF seg_ok_log [OF assms(1)] r(1,2)]
    show ?thesis
      using less.hyps [of "batch_last (last ys) + 1"] less.prems True r scan after
      by (subst forEachBatchRange.simps) (auto simp: each_append split: prod.splits sum.splits)
  qed
qed

subsection \<open>The scan of all segments\<close>

lemma forEachBatch_returns:
  assumes "list_all2 seg_ok segs bss"
  shows "\<exists>r. forEachBatch fn segs fin s = Some r"
  using assms
proof (induction segs bss arbitrary: s rule: list_all2_induct)
  case (Cons seg segs bs bss)
  let ?limit = "if 0 < fin \<and> fin < sg_nextOffset seg then fin else sg_nextOffset seg"
  have "?limit \<le> sg_nextOffset seg" by simp
  from forEachBatchRange_returns [OF Cons.hyps(1) order_refl this]
  obtain r where "forEachBatchRange fn seg (sg_baseOffset seg) ?limit s = Some r" ..
  then show ?case using Cons.IH by (cases r) (auto simp only: forEachBatch.simps Let_def split: sum.splits option.splits prod.splits)
qed simp

lemma forEachBatch_fold:
  assumes "list_all2 seg_ok segs bss" and "\<forall>seg \<in> set segs. sg_nextOffset seg \<le> fin"
    and "\<forall>b \<in> set (concat bss). decodes b"
  shows "forEachBatch fn segs fin s = Some (each fn (map decoded (concat bss)) s)"
  using assms
proof (induction segs bss arbitrary: s rule: list_all2_induct)
  case (Cons seg segs bs bss)
  have "sg_baseOffset seg \<le> batch_last b" if "b \<in> set bs" for b
    using log_ok_members [OF seg_ok_log [OF Cons.hyps(1)] that] batch_last_ge [of b] by simp
  then have "filter (\<lambda>b. sg_baseOffset seg \<le> batch_last b) bs = bs" by (auto intro: filter_True)
  then have "forEachBatchRange fn seg (sg_baseOffset seg) (sg_nextOffset seg) s = Some (each fn (map decoded bs) s)"
    using forEachBatchRange_fold [OF Cons.hyps(1), of "sg_baseOffset seg" fn s] Cons.prems by simp
  then show ?case
    using Cons.IH Cons.prems by (auto simp: Let_def each_append split: prod.splits sum.splits)
qed simp

subsection \<open>The first pass\<close>

definition record_keys :: "Record list \<Rightarrow> bytes set" where
  "record_keys rs = {k. Some k \<in> Key ` set rs}"

lemma record_keys_simps [simp]:
  "record_keys [] = {}"
  "record_keys (r # rs) = (case Key r of None \<Rightarrow> record_keys rs | Some k \<Rightarrow> insert k (record_keys rs))"
  "record_keys (rs @ rs') = record_keys rs \<union> record_keys rs'"
  by (auto simp: record_keys_def split: option.splits)

lemma finite_record_keys [simp]: "finite (record_keys rs)"
  by (induction rs) (auto split: option.splits)

definition key_bytes :: "Record list \<Rightarrow> int" where
  "key_bytes rs = (\<Sum>k \<in> record_keys rs. int (length k))"

lemma key_bytes_append: "key_bytes rs \<le> key_bytes (rs @ rs')"
  unfolding key_bytes_def by (rule sum_mono2) auto

text \<open>
  The state of the first pass after the records \<open>rs\<close>: the map has the last index of every
  key.
\<close>

definition plan_inv :: "Record list \<Rightarrow> plan_state \<Rightarrow> bool" where
  "plan_inv rs st \<longleftrightarrow> (case st of (plan, idx, nulls) \<Rightarrow>
     idx = int (length rs) \<and> nulls = int (length (filter (\<lambda>r. Key r = None) rs))
     \<and> cp_keyBytes plan = key_bytes rs \<and> distinct (map fst (cp_last plan)) \<and> fst ` set (cp_last plan) = record_keys rs
     \<and> (\<forall>as r bs. rs = as @ r # bs \<longrightarrow> (\<forall>k. Key r = Some k \<longrightarrow>
          (map_of (cp_last plan) k = Some (int (length as)) \<longleftrightarrow> k \<notin> record_keys bs))))"

lemma map_of_None_keys: "fst ` set m = K \<Longrightarrow> map_of m k = None \<longleftrightarrow> k \<notin> K"
  by (simp add: map_of_eq_None_iff)

lemma plan_record_step:
  assumes inv: "plan_inv rs st" and lim: "key_bytes (rs @ [r]) \<le> compactMaxKeyBytes"
  shows "\<exists>st'. plan_record r st = (Inr (), st') \<and> plan_inv (rs @ [r]) st'"
proof -
  obtain plan idx nulls where st: "st = (plan, idx, nulls)" by (cases st)
  note i' = inv [unfolded plan_inv_def st prod.case]
  then have i: "idx = int (length rs)" "nulls = int (length (filter (\<lambda>r. Key r = None) rs))"
    "cp_keyBytes plan = key_bytes rs" "distinct (map fst (cp_last plan))" "fst ` set (cp_last plan) = record_keys rs"
    by blast+
  have at: "map_of (cp_last plan) k = Some (int (length as)) \<longleftrightarrow> k \<notin> record_keys bs"
    if "rs = as @ a # bs" "Key a = Some k" for as a bs k
    using i' that by blast
  show ?thesis
  proof (cases "Key r")
    case None
    have "plan_inv (rs @ [r]) (plan, idx + 1, nulls + 1)"
      unfolding plan_inv_def prod.case
    proof (intro conjI allI impI)
      fix as a bs k
      assume e: "rs @ [r] = as @ a # bs" and k: "Key a = Some k"
      then obtain bs' where "bs = bs' @ [r]" "rs = as @ a # bs'"
        using None by (cases bs rule: rev_cases) auto
      with at [of as a bs' k] k None show "map_of (cp_last plan) k = Some (int (length as)) \<longleftrightarrow> k \<notin> record_keys bs" by simp
    qed (use i None in \<open>simp_all add: key_bytes_def\<close>)
    with None show ?thesis by (simp add: plan_record_def st)
  next
    case (Some k)
    let ?seen = "map_of (cp_last plan) k \<noteq> None"
    define plan1 where "plan1 = (if ?seen then plan else plan\<lparr>cp_keyBytes := cp_keyBytes plan + int (length k)\<rparr>)"
    have seen: "?seen \<longleftrightarrow> k \<in> record_keys rs" by (simp add: map_of_None_keys [OF i(5)])
    have keyBytes: "cp_keyBytes plan1 = key_bytes (rs @ [r])"
      using i Some seen by (auto simp: plan1_def key_bytes_def insert_absorb)
    have last1: "cp_last plan1 = cp_last plan" by (simp add: plan1_def)
    let ?plan' = "plan1\<lparr>cp_last := AList.update k idx (cp_last plan1)\<rparr>"
    have "plan_inv (rs @ [r]) (?plan', idx + 1, nulls)"
      unfolding plan_inv_def prod.case
    proof (intro conjI allI impI)
      fix as a bs j
      assume e: "rs @ [r] = as @ a # bs" and j: "Key a = Some j"
      show "map_of (cp_last ?plan') j = Some (int (length as)) \<longleftrightarrow> j \<notin> record_keys bs"
      proof (cases bs rule: rev_cases)
        case Nil
        with e j Some i(1) show ?thesis by (simp add: last1 update_conv')
      next
        case (snoc bs' b)
        with e have "rs = as @ a # bs'" "b = r" by simp_all
        with at [of as a bs' j] i(1) j Some snoc show ?thesis by (auto simp: last1 update_conv')
      qed
    qed (use i Some keyBytes in \<open>simp_all add: last1 distinct_update dom_update\<close>)
    moreover have "plan_record r st = (Inr (), (?plan', idx + 1, nulls))"
    proof (cases "map_of (cp_last plan) k")
      case None
      then have "plan1 = plan\<lparr>cp_keyBytes := cp_keyBytes plan + int (length k)\<rparr>" by (simp add: plan1_def)
      with Some keyBytes lim None show ?thesis by (simp add: plan_record_def st)
    next
      case (Some i)
      then have "plan1 = plan" by (simp add: plan1_def)
      with \<open>Key r = Some k\<close> Some show ?thesis by (simp add: plan_record_def st)
    qed
    ultimately show ?thesis by blast
  qed
qed

lemma plan_records:
  assumes "plan_inv rs st" and "key_bytes (rs @ rs') \<le> compactMaxKeyBytes"
  shows "\<exists>st'. each plan_record rs' st = (Inr (), st') \<and> plan_inv (rs @ rs') st'"
  using assms
proof (induction rs' arbitrary: rs st)
  case (Cons r rs')
  have "key_bytes (rs @ [r]) \<le> compactMaxKeyBytes" using key_bytes_append [of "rs @ [r]" rs'] Cons.prems(2) by simp
  from plan_record_step [OF Cons.prems(1) this] obtain st' where
    st': "plan_record r st = (Inr (), st')" "plan_inv (rs @ [r]) st'" by blast
  with Cons.IH [OF st'(2)] Cons.prems(2) show ?case by simp
qed simp

subsection \<open>The reference: the last record of every key\<close>

fun keep_last :: "Record list \<Rightarrow> Record list" where
  "keep_last [] = []"
| "keep_last (r # rs) = (if Key r = None \<or> Key r \<notin> Key ` set rs then r # keep_last rs else keep_last rs)"

definition plans :: "compactionPlan \<Rightarrow> Record list \<Rightarrow> bool" where
  "plans plan rs \<longleftrightarrow> (\<forall>as r bs. rs = as @ r # bs \<longrightarrow> (\<forall>k. Key r = Some k \<longrightarrow>
     (map_of (cp_last plan) k = Some (int (length as)) \<longleftrightarrow> k \<notin> record_keys bs)))"

lemma plansD:
  "plans plan (as @ r # bs) \<Longrightarrow> Key r = Some k \<Longrightarrow> map_of (cp_last plan) k = Some (int (length as)) \<longleftrightarrow> Some k \<notin> Key ` set bs"
  by (simp add: plans_def record_keys_def)

lemma plans_update [simp]: "plans (plan\<lparr>cp_total := a, cp_planned := b\<rparr>) rs = plans plan rs"
  by (simp add: plans_def)

lemma length_keep_last:
  "length (keep_last rs) = length (filter (\<lambda>r. Key r = None) rs) + card (record_keys rs)"
proof (induction rs)
  case (Cons r rs)
  show ?case
  proof (cases "Key r")
    case (Some k)
    have "Some k \<in> Key ` set rs \<longleftrightarrow> k \<in> record_keys rs" by (simp add: record_keys_def)
    with Cons Some show ?thesis by (simp add: insert_absorb del: image_iff)
  qed (use Cons in simp)
qed simp

lemma keep_last_le: "length (keep_last rs) \<le> length rs"
  by (induction rs) auto

lemma keep_last_same: "length rs \<le> length (keep_last rs) \<Longrightarrow> keep_last rs = rs"
proof (induction rs)
  case (Cons r rs)
  then show ?case using keep_last_le [of rs] by (auto split: if_splits)
qed simp

lemma planCompaction_ok:
  assumes "list_all2 seg_ok segs bss" and "\<forall>seg \<in> set segs. sg_nextOffset seg \<le> fin"
    and "\<forall>b \<in> set (concat bss). decodes b" and "key_bytes (log_records (concat bss)) \<le> compactMaxKeyBytes"
  defines "rs \<equiv> log_records (concat bss)"
  shows "\<exists>plan. planCompaction segs fin = Some (Inr plan) \<and> cp_total plan = int (length rs)
    \<and> cp_planned plan = int (length (keep_last rs)) \<and> plans plan rs"
proof -
  let ?st = "(\<lparr>cp_last = [], cp_total = 0, cp_planned = 0, cp_keyBytes = 0\<rparr>, 0, 0) :: plan_state"
  have "plan_inv [] ?st" by (simp add: plan_inv_def key_bytes_def)
  from plan_records [OF this, of rs] assms(4) obtain plan idx nulls where
    e: "each plan_record rs ?st = (Inr (), (plan, idx, nulls))" and inv: "plan_inv rs (plan, idx, nulls)"
    by (auto simp: rs_def)
  have "length (cp_last plan) = card (record_keys rs)"
    using inv distinct_card [of "map fst (cp_last plan)"] by (simp add: plan_inv_def)
  moreover have "each (\<lambda>b. each plan_record (Records b)) (map decoded (concat bss)) ?st = (Inr (), (plan, idx, nulls))"
    using e by (simp add: each_concat rs_def log_records_def comp_def)
  moreover have "plans plan rs" using inv unfolding plan_inv_def plans_def prod.case by (elim conjE)
  ultimately show ?thesis
    using inv forEachBatch_fold [OF assms(1-3), of "\<lambda>b. each plan_record (Records b)" ?st]
    by (simp add: planCompaction_def length_keep_last plan_inv_def)
qed

subsection \<open>The second pass\<close>

lemma stage_records:
  assumes "plans plan (as @ rs)"
  shows "\<exists>i. each (stage_record clock plan) rs (int (length as), w)
    = (case each (writer_add clock) (keep_last rs) w of (r, w') \<Rightarrow> (r, (i, w')))"
  using assms
proof (induction rs arbitrary: as w)
  case (Cons r rs)
  from Cons.prems have p: "plans plan ((as @ [r]) @ rs)" by simp
  have keep: "(case Key r of None \<Rightarrow> True | Some k \<Rightarrow> map_of (cp_last plan) k = Some (int (length as)))
      \<longleftrightarrow> Key r = None \<or> Key r \<notin> Key ` set rs"
    using plansD [OF Cons.prems] by (cases "Key r") (simp_all del: image_iff)
  have idx: "int (length as) + 1 = int (length (as @ [r]))" by simp
  show ?case
  proof (cases "Key r = None \<or> Key r \<notin> Key ` set rs")
    case False
    then show ?thesis
      using Cons.IH [OF p, of w] by (simp only: each.simps keep_last.simps stage_record_def prod.case Let_def keep idx if_False) simp
  next
    case True
    obtain res w1 where a: "writer_add clock r w = (res, w1)" by fastforce
    show ?thesis
    proof (cases res)
      case (Inl e)
      with True a show ?thesis
        by (simp only: each.simps keep_last.simps stage_record_def prod.case Let_def keep if_True) simp
    next
      case (Inr u)
      with True a Cons.IH [OF p, of w1] show ?thesis
        by (simp only: each.simps keep_last.simps stage_record_def prod.case Let_def keep idx if_True) simp
    qed
  qed
qed simp

lemma stageCompaction_ok:
  assumes "list_all2 seg_ok segs bss" and "\<forall>seg \<in> set segs. sg_nextOffset seg \<le> fin"
    and "\<forall>b \<in> set (concat bss). decodes b" and "plans plan (log_records (concat bss))"
    and "newCompactWriter m i = Inr w"
  shows "stageCompaction clock m i segs fin plan = Some (case each (writer_add clock) (keep_last (log_records (concat bss))) w of
    (Inl e, _) \<Rightarrow> Inl e | (Inr _, w') \<Rightarrow> Inr w')"
proof -
  from stage_records [of plan "[]" "log_records (concat bss)" clock w] assms(4) obtain j where
    "each (stage_record clock plan) (log_records (concat bss)) (0, w)
      = (case each (writer_add clock) (keep_last (log_records (concat bss))) w of (r, w') \<Rightarrow> (r, (j, w')))" by auto
  then show ?thesis
    using forEachBatch_fold [OF assms(1-3), of "\<lambda>b. each (stage_record clock plan) (Records b)" "(0, w)"] assms(5)
    by (simp add: stageCompaction_def each_concat log_records_def comp_def split: prod.splits sum.splits)
qed

subsection \<open>The writer\<close>

text \<open>The writer's segments as a partition, so that the lemmas on append and roll apply.\<close>

definition writer_part :: "compactWriter \<Rightarrow> Partition" where
  "writer_part w = \<lparr>p_closedSegments = cw_closed w, p_activeSegment = cw_seg w, p_nextOffset = sg_nextOffset (cw_seg w),
     p_highWatermark = sg_nextOffset (cw_seg w), p_maxSegmentBytes = cw_maxBytes w, p_indexInterval = cw_interval w,
     p_idempotence = [], p_compacting = False, p_lastCompactMs = 0, p_bytesAtCompact = 0\<rparr>"

lemma writer_part_fields [simp]:
  "p_closedSegments (writer_part w) = cw_closed w" "p_activeSegment (writer_part w) = cw_seg w"
  "p_nextOffset (writer_part w) = sg_nextOffset (cw_seg w)" "p_maxSegmentBytes (writer_part w) = cw_maxBytes w"
  "p_indexInterval (writer_part w) = cw_interval w" "p_highWatermark (writer_part w) = sg_nextOffset (cw_seg w)"
  by (simp_all add: writer_part_def)

lemma writer_files_part: "writer_files w = part_files (writer_part w)"
  by (simp add: writer_files_def part_files_def orderedSegments_def)

definition writer_ok :: "compactWriter \<Rightarrow> bytes list list \<Rightarrow> bool" where
  "writer_ok w bss \<longleftrightarrow> part_ok (writer_part w) bss \<and> log_start (writer_part w) = 0
     \<and> 0 < cw_maxBytes w \<and> \<not> seg_full (cw_seg w)"

lemma writer_roll_ok:
  assumes "part_ok (writer_part w) bss" and "log_start (writer_part w) = 0" and "0 < cw_maxBytes w"
    and "seg_full (cw_seg w)" and "cw_base w = sg_nextOffset (cw_seg w)" and "sg_nextOffset (cw_seg w) < 2 ^ 62"
  shows "\<exists>w'. writer_roll w = (Inr (), w') \<and> writer_ok w' (bss @ [[]])
    \<and> w' = w\<lparr>cw_seg := cw_seg w', cw_closed := cw_closed w'\<rparr> \<and> sg_nextOffset (cw_seg w') = sg_nextOffset (cw_seg w)"
proof -
  from part_roll_ok [OF assms(1)] assms obtain p' where
    p': "part_roll (writer_part w) = (Inr (), p')" "part_ok p' (bss @ [[]])"
    "p_nextOffset p' = sg_nextOffset (cw_seg w)" "log_start p' = 0" by auto
  then obtain seg where
    seg: "openSegment (case map_of (writer_files w) (cw_base w) of Some f \<Rightarrow> f | None \<Rightarrow> no_files)
        (cw_base w) (cw_maxBytes w) (cw_interval w) = Inr seg"
    "p' = (writer_part w)\<lparr>p_closedSegments := cw_closed w @ [cw_seg w], p_activeSegment := seg\<rparr>"
    using assms(5) by (auto simp: part_roll_def Let_def writer_files_part split: sum.splits)
  let ?w' = "w\<lparr>cw_seg := seg, cw_closed := cw_closed w @ [cw_seg w]\<rparr>"
  have nx: "sg_nextOffset seg = sg_nextOffset (cw_seg w)"
    using p'(2,3) seg(2) by (simp add: part_ok_def)
  then have part: "writer_part ?w' = p'" using seg(2) by (simp add: writer_part_def)
  have "seg_ok (p_activeSegment p') []" using p'(2) by (rule part_ok_active) simp
  moreover have "sg_maxSegmentBytes seg = cw_maxBytes w" using p'(2) seg(2) by (simp add: part_ok_def orderedSegments_def)
  ultimately have "seg_ok seg []" "sg_maxSegmentBytes seg = cw_maxBytes w" using seg(2) by simp_all
  then have "\<not> seg_full seg" using assms(3) by (simp add: seg_full_def seg_ok_def)
  then have "writer_ok ?w' (bss @ [[]])" using p' part assms(3) by (simp add: writer_ok_def)
  moreover have "writer_roll w = (Inr (), ?w')" using seg(1) by (simp add: writer_roll_def)
  ultimately show ?thesis using nx by (intro exI [of _ ?w']) simp
qed

text \<open>Sizes: no record takes more than \<open>B\<close> bytes in a batch, and a full segment and a batch stay below 2 GiB.\<close>

definition small_records :: "nat \<Rightarrow> Record list \<Rightarrow> bool" where
  "small_records B rs \<longleftrightarrow> (\<forall>r \<in> set rs. \<forall>d < compactBatchSize. length (EncodeRecord (copied d r)) \<le> B)"

lemma length_concat_le: "\<forall>x \<in> set xs. length (f x) \<le> B \<Longrightarrow> length (concat (map f xs)) \<le> length xs * B"
  by (induction xs) auto

definition payload :: "Record \<Rightarrow> bytes option \<times> bytes option \<times> RecordHeader list" where
  "payload r = (Key r, Value r, Headers r)"

definition written :: "Record \<Rightarrow> bytes option \<times> bytes option \<times> RecordHeader list" where
  "written r = (Some (obytes (Key r)), Value r, Headers r)"

lemma compact_batch_encoded:
  assumes "batch_fits (compact_batch now rs)" and "rs \<noteq> []"
  defines "raw \<equiv> fst (encode_batch (compact_batch now rs))"
  shows "EncodeRecordBatch (compact_batch now rs) = Inr (encode_batch (compact_batch now rs))"
    and "wf_batch raw" and "raw ! 16 = 2" and "batch_delta raw + 1 = int (length rs)"
    and "decodes (set_base n raw)" and "Records (decoded (set_base n raw)) = map stored_record rs"
proof -
  let ?b = "compact_batch now rs"
  have "length rs < 2 ^ 31" using batch_fits_parts(1) [OF assms(1)] by (simp add: short_list_def compact_batch_def)
  then have "sint (of_nat (length rs - 1) :: int32) = int (length rs - 1)" by (intro sint_of_nat_small) simp
  moreover have "LastOffsetDelta (filled ?b) = of_nat (length rs - 1)"
    using assms(2) by (simp add: filled_def encode_batch_def Let_def compact_batch_def)
  ultimately have d: "sint (LastOffsetDelta (filled ?b)) = int (length rs) - 1" using assms(2) by (cases rs) simp_all
  then show "wf_batch raw" "raw ! 16 = 2"
    using encode_batch_wf [OF assms(1)] assms(2) unfolding raw_def by (cases rs; simp)+
  show "batch_delta raw + 1 = int (length rs)" using d unfolding raw_def batch_delta_encode by simp
  have "DecodeRecordBatch (set_base n raw)
      = Inr ((filled ?b)\<lparr>Records := map stored_record (Records ?b), BaseOffset := word_of_int n\<rparr>)"
    using decode_set_base [OF _ decode_encode_batch [OF assms(1)]] by (simp add: length_encode_batch raw_def)
  then show "decodes (set_base n raw)" "Records (decoded (set_base n raw)) = map stored_record rs"
    by (simp_all add: decodes_def decoded_def compact_batch_def)
  show "EncodeRecordBatch ?b = Inr (encode_batch ?b)" by (rule EncodeRecordBatch_fits [OF assms(1)])
qed

lemma writer_flush_ok:
  fixes clock :: "int \<Rightarrow> int64" and w :: compactWriter
  assumes ok: "writer_ok w bss" and batch: "cw_batch w \<noteq> []"
  defines "b \<equiv> compact_batch (clock (sg_nextOffset (cw_seg w))) (cw_batch w)"
  assumes fits: "batch_fits b" and sz: "cw_maxBytes w + int (length (fst (encode_batch b))) < 2 ^ 31"
    and offs: "sg_nextOffset (cw_seg w) + int (length (cw_batch w)) < 2 ^ 31"
  shows "\<exists>w' bss'. writer_flush clock w = (Inr (), w') \<and> writer_ok w' bss'
    \<and> concat bss' = concat bss @ [set_base (sg_nextOffset (cw_seg w)) (fst (encode_batch b))]
    \<and> cw_batch w' = [] \<and> cw_pendingBytes w' = 0 \<and> cw_maxBytes w' = cw_maxBytes w \<and> cw_interval w' = cw_interval w
    \<and> sg_nextOffset (cw_seg w') = sg_nextOffset (cw_seg w) + int (length (cw_batch w))"
proof -
  let ?raw = "fst (encode_batch b)" and ?n = "sg_nextOffset (cw_seg w)"
  note enc = compact_batch_encoded [OF fits [unfolded b_def] batch, folded b_def]
  have part: "part_ok (writer_part w) bss" "\<not> seg_full (cw_seg w)" "0 < cw_maxBytes w" "log_start (writer_part w) = 0"
    using ok by (simp_all add: writer_ok_def)
  have base: "0 \<le> sg_baseOffset (cw_seg w)" "sg_maxSegmentBytes (cw_seg w) = cw_maxBytes w"
    using part_ok_local(2) [OF part(1), of "cw_seg w"] part(1) by (simp_all add: orderedSegments_def part_ok_def)
  from append_active [OF part(1) enc(2,3)] part(2) offs base sz enc(4) obtain p' bss' where
    p': "part_Append (writer_part w) ?raw = (Inr (?n, set_base ?n ?raw), p')" "part_ok p' bss'"
    "concat bss' = concat bss @ [set_base ?n ?raw]" "p_nextOffset p' = ?n + int (length (cw_batch w))" "log_start p' = 0"
    using part(4) by (auto simp: seg_full_def)
  then obtain seg where
    seg: "seg_append (cw_seg w) ?raw = Inr (?n, set_base ?n ?raw, seg)"
    "p' = (writer_part w)\<lparr>p_activeSegment := seg, p_nextOffset := sg_nextOffset seg, p_highWatermark := sg_nextOffset seg\<rparr>"
    using part(2) by (auto simp: part_Append_def split: sum.splits)
  let ?w1 = "w\<lparr>cw_seg := seg, cw_batch := [], cw_pendingBytes := 0\<rparr>"
  have nx: "sg_nextOffset seg = ?n + int (length (cw_batch w))" using p'(4) seg(2) by simp
  have flush: "writer_flush clock w = (if seg_full seg then writer_roll (?w1\<lparr>cw_base := sg_nextOffset seg\<rparr>) else (Inr (), ?w1))"
    using batch enc(1) seg(1) by (cases "encode_batch b") (simp add: writer_flush_def b_def)
  show ?thesis
  proof (cases "seg_full seg")
    case False
    have "writer_part ?w1 = p'" using seg(2) by (simp add: writer_part_def)
    with False p' part(3) have "writer_ok ?w1 bss'" by (simp add: writer_ok_def)
    with False flush p'(3) nx show ?thesis by (intro exI [of _ ?w1] exI [of _ bss']) simp
  next
    case True
    let ?w2 = "?w1\<lparr>cw_base := sg_nextOffset seg\<rparr>"
    have "writer_part ?w2 = p'" using seg(2) by (simp add: writer_part_def)
    with writer_roll_ok [of ?w2 bss'] True p' part(3) nx offs obtain w' where
      w': "writer_roll ?w2 = (Inr (), w')" "writer_ok w' (bss' @ [[]])"
      "w' = ?w2\<lparr>cw_seg := cw_seg w', cw_closed := cw_closed w'\<rparr>" "sg_nextOffset (cw_seg w') = sg_nextOffset seg"
      by auto
    from w'(3) have "cw_batch w' = []" "cw_pendingBytes w' = 0" "cw_maxBytes w' = cw_maxBytes w" "cw_interval w' = cw_interval w"
      by (metis compactWriter.select_convs compactWriter.surjective compactWriter.update_convs)+
    with w' flush True p'(3) nx show ?thesis by (intro exI [of _ w'] exI [of _ "bss' @ [[]]"]) simp
  qed
qed

text \<open>
  What the writer holds: the records \<open>rs\<close>, some in its segments and the rest pending, at
  most \<open>k\<close> of them.
\<close>

definition writer_holds :: "nat \<Rightarrow> nat \<Rightarrow> compactWriter \<Rightarrow> Record list \<Rightarrow> bool" where
  "writer_holds B k w rs \<longleftrightarrow> (\<exists>bss. writer_ok w bss \<and> (\<forall>b \<in> set (concat bss). decodes b)
     \<and> map payload (log_records (concat bss)) @ map written (cw_batch w) = map written rs
     \<and> sg_nextOffset (cw_seg w) = int (length (log_records (concat bss)))
     \<and> length (cw_batch w) \<le> k \<and> (\<forall>r \<in> set (cw_batch w). length (EncodeRecord r) \<le> B))"

definition sizes_fit :: "nat \<Rightarrow> int \<Rightarrow> Record list \<Rightarrow> bool" where
  "sizes_fit B m rs \<longleftrightarrow> small_records B rs \<and> m + 61 + int (compactBatchSize * B) < 2 ^ 31 \<and> length rs < 2 ^ 31"

lemma writer_flush_holds:
  assumes "writer_holds B compactBatchSize w rs" and "cw_maxBytes w + 61 + int (compactBatchSize * B) < 2 ^ 31"
    and "length rs < 2 ^ 31"
  shows "\<exists>w'. writer_flush clock w = (Inr (), w') \<and> writer_holds B 0 w' rs
    \<and> cw_maxBytes w' = cw_maxBytes w \<and> cw_interval w' = cw_interval w"
proof (cases "cw_batch w = []")
  case True
  with assms(1) have "writer_holds B 0 w rs" by (auto simp: writer_holds_def)
  with True show ?thesis by (simp add: writer_flush_def)
next
  case False
  from assms(1) obtain bss where h: "writer_ok w bss" "\<forall>b \<in> set (concat bss). decodes b"
    "map payload (log_records (concat bss)) @ map written (cw_batch w) = map written rs"
    "sg_nextOffset (cw_seg w) = int (length (log_records (concat bss)))"
    "length (cw_batch w) \<le> compactBatchSize" "\<forall>r \<in> set (cw_batch w). length (EncodeRecord r) \<le> B"
    unfolding writer_holds_def by blast
  define n where "n = sg_nextOffset (cw_seg w)"
  define b where "b = compact_batch (clock n) (cw_batch w)"
  have "length (concat (map EncodeRecord (cw_batch w))) \<le> length (cw_batch w) * B"
    using length_concat_le [OF h(6)] .
  also have "\<dots> \<le> compactBatchSize * B" using h(5) by simp
  finally have len: "length (batch_records b) \<le> compactBatchSize * B"
    by (simp add: b_def batch_records_def compact_batch_def)
  have m: "0 < cw_maxBytes w" using h(1) by (simp add: writer_ok_def)
  have fits: "batch_fits b" unfolding batch_fits_def using len m assms(2) by (simp add: compactBatchSize_def)
  have sz: "cw_maxBytes w + int (length (fst (encode_batch b))) < 2 ^ 31"
    unfolding length_encode_batch using len assms(2) by linarith
  have "length (log_records (concat bss)) + length (cw_batch w) = length rs"
    using arg_cong [OF h(3), of length] by simp
  then have offs: "n + int (length (cw_batch w)) < 2 ^ 31" using h(4) assms(3) unfolding n_def by simp
  from writer_flush_ok [OF h(1) False, of clock, folded n_def, folded b_def, OF fits sz offs] obtain w' bss' where
    w': "writer_flush clock w = (Inr (), w')" "writer_ok w' bss'"
    "concat bss' = concat bss @ [set_base n (fst (encode_batch b))]"
    "cw_batch w' = []" "cw_maxBytes w' = cw_maxBytes w" "cw_interval w' = cw_interval w"
    "sg_nextOffset (cw_seg w') = n + int (length (cw_batch w))" by blast
  note enc = compact_batch_encoded(5,6) [OF fits [unfolded b_def] False, of n, folded b_def]
  have recs: "log_records (concat bss') = log_records (concat bss) @ map stored_record (cw_batch w)"
    unfolding w'(3) using enc(2) by (simp add: log_records_def)
  have "payload \<circ> stored_record = written"
    by (simp add: payload_def stored_record_def written_def comp_def fun_eq_iff)
  then have "map payload (log_records (concat bss')) = map written rs" using recs h(3) by simp
  moreover have "\<forall>b \<in> set (concat bss'). decodes b" unfolding w'(3) using h(2) enc(1) by auto
  ultimately have "writer_holds B 0 w' rs"
    unfolding writer_holds_def using w'(2,4,7) h(4) recs unfolding n_def by (intro exI [of _ bss']) simp
  with w' show ?thesis by blast
qed

lemma written_copied [simp]: "written (copied d r) = written r"
  by (simp add: written_def copied_def)

lemma writer_holds_mono: "writer_holds B k w rs \<Longrightarrow> k \<le> k' \<Longrightarrow> writer_holds B k' w rs"
  unfolding writer_holds_def by (meson le_trans)

lemma writer_add_ok:
  assumes "writer_holds B (compactBatchSize - 1) w rs" and "sizes_fit B (cw_maxBytes w) (rs @ [r])"
  shows "\<exists>w'. writer_add clock r w = (Inr (), w') \<and> writer_holds B (compactBatchSize - 1) w' (rs @ [r])
    \<and> cw_maxBytes w' = cw_maxBytes w \<and> cw_interval w' = cw_interval w"
proof -
  let ?w1 = "w\<lparr>cw_batch := cw_batch w @ [copied (length (cw_batch w)) r],
    cw_pendingBytes := cw_pendingBytes w + int (olen (Key r)) + int (olen (Value r))\<rparr>"
  from assms(1) obtain bss where h: "writer_ok w bss" "\<forall>b \<in> set (concat bss). decodes b"
    "map payload (log_records (concat bss)) @ map written (cw_batch w) = map written rs"
    "sg_nextOffset (cw_seg w) = int (length (log_records (concat bss)))"
    "length (cw_batch w) \<le> compactBatchSize - 1" "\<forall>r \<in> set (cw_batch w). length (EncodeRecord r) \<le> B"
    unfolding writer_holds_def by blast
  have "length (cw_batch w) < compactBatchSize" using h(5) by (simp add: compactBatchSize_def)
  then have "length (EncodeRecord (copied (length (cw_batch w)) r)) \<le> B"
    using assms(2) by (simp add: sizes_fit_def small_records_def)
  moreover have "writer_ok ?w1 bss" using h(1) by (simp add: writer_ok_def writer_part_def)
  ultimately have h1: "writer_holds B (length (cw_batch ?w1)) ?w1 (rs @ [r])"
    unfolding writer_holds_def using h(2,3,4,6) by (intro exI [of _ bss]) auto
  show ?thesis
  proof (cases "length (cw_batch ?w1) < compactBatchSize \<and> cw_pendingBytes ?w1 < compactBatchBytes")
    case True
    then have "writer_add clock r w = (Inr (), ?w1)" by (simp add: writer_add_def Let_def)
    moreover have "writer_holds B (compactBatchSize - 1) ?w1 (rs @ [r])"
      using True by (intro writer_holds_mono [OF h1]) linarith
    ultimately show ?thesis by (intro exI [of _ ?w1]) simp
  next
    case False
    then have "writer_add clock r w = writer_flush clock ?w1" by (simp only: writer_add_def Let_def if_False)
    moreover have "writer_holds B compactBatchSize ?w1 (rs @ [r])"
      using h(5) by (intro writer_holds_mono [OF h1]) (simp add: compactBatchSize_def)
    ultimately show ?thesis
      using writer_flush_holds [of B ?w1 "rs @ [r]" clock] assms(2) writer_holds_mono [of B 0 _ "rs @ [r]"]
      by (force simp: sizes_fit_def)
  qed
qed

end
