(* ===== verification/Compaction_Claims.thy ===== *)
theory Compaction_Claims
  imports Compaction_Refine
begin

text \<open>
  The correctness of compaction: it returns, it keeps the last record of every key, and what
  becomes of records that have no key or arrive while it runs.
\<close>

subsection \<open>From the passes to the partition\<close>

lemma set_keep_last: "set (keep_last rs) \<subseteq> set rs"
  by (induction rs) auto

lemma sizes_fit_keep: "sizes_fit B m (rs @ rs') \<Longrightarrow> sizes_fit B m (keep_last rs @ rs')"
  using set_keep_last [of rs] keep_last_le [of rs] by (auto simp: sizes_fit_def small_records_def)

lemma sizes_fit_prefix: "sizes_fit B m (rs @ rs') \<Longrightarrow> sizes_fit B m rs"
  by (auto simp: sizes_fit_def small_records_def)

lemma writer_adds:
  assumes "writer_holds B (compactBatchSize - 1) w rs" and "sizes_fit B (cw_maxBytes w) (rs @ rs')"
  shows "\<exists>w'. each (writer_add clock) rs' w = (Inr (), w') \<and> writer_holds B (compactBatchSize - 1) w' (rs @ rs')
    \<and> cw_maxBytes w' = cw_maxBytes w \<and> cw_interval w' = cw_interval w"
  using assms
proof (induction rs' arbitrary: rs w)
  case (Cons r rs')
  have "sizes_fit B (cw_maxBytes w) (rs @ [r])" using sizes_fit_prefix [of B "cw_maxBytes w" "rs @ [r]" rs'] Cons.prems(2) by simp
  from writer_add_ok [OF Cons.prems(1) this, of clock] obtain w' where
    w': "writer_add clock r w = (Inr (), w')" "writer_holds B (compactBatchSize - 1) w' (rs @ [r])"
    "cw_maxBytes w' = cw_maxBytes w" "cw_interval w' = cw_interval w" by blast
  with Cons.IH [OF w'(2)] Cons.prems(2) show ?case by simp
qed simp

lemma newCompactWriter_ok:
  assumes "0 < m"
  shows "\<exists>w. newCompactWriter m i = Inr w \<and> writer_holds B (compactBatchSize - 1) w [] \<and> cw_maxBytes w = m \<and> cw_interval w = i"
proof -
  obtain seg where seg: "openSegment no_files 0 m i = Inr seg" "seg_ok seg []" "sg_baseOffset seg = 0"
    "sg_maxSegmentBytes seg = m" "sg_indexInterval seg = i"
    using openSegment_fresh [of 0 m i] by auto
  let ?w = "\<lparr>cw_maxBytes = m, cw_interval = i, cw_base = 0, cw_seg = seg, cw_closed = [], cw_batch = [], cw_pendingBytes = 0\<rparr>"
  have "writer_ok ?w [[]]"
    using seg assms by (simp add: writer_ok_def part_ok_def orderedSegments_def log_start_def seg_full_def seg_ok_def)
  then have "writer_holds B (compactBatchSize - 1) ?w []"
    unfolding writer_holds_def using seg_ok_next [OF seg(2)] seg(3) by (intro exI [of _ "[[]]"]) simp
  with seg(1) show ?thesis by (simp add: newCompactWriter_def)
qed

lemma part_ok_ends:
  assumes "part_ok p bss" and "seg \<in> set (orderedSegments p)"
  shows "sg_nextOffset seg \<le> p_nextOffset p"
  using assms chain_next_le [of "orderedSegments p" bss] by (simp add: part_ok_def)

lemma part_ok_source:
  assumes "part_ok p bss"
  shows "compactionSource p = (orderedSegments p, p_nextOffset p)"
  using part_ok_local(1) [OF assms] by (auto simp: compactionSource_def)

lemma Compact_stage_ok:
  assumes ok: "part_ok p bss" and m: "0 < p_maxSegmentBytes p" and idle: "\<not> p_compacting p"
    and dec: "\<forall>b \<in> set (concat bss). decodes b" and keys: "key_bytes (log_records (concat bss)) \<le> compactMaxKeyBytes"
    and fit: "sizes_fit B (p_maxSegmentBytes p) (log_records (concat bss))"
  defines "rs \<equiv> log_records (concat bss)"
  shows "if keep_last rs = rs then Compact_stage clock p = Some (CompactReturned (Inr ()))
    else \<exists>w. Compact_stage clock p = Some (Staged w (p_nextOffset p)) \<and> writer_holds B (compactBatchSize - 1) w (keep_last rs)
      \<and> cw_maxBytes w = p_maxSegmentBytes p \<and> cw_interval w = p_indexInterval p"
proof -
  have segs: "list_all2 seg_ok (orderedSegments p) bss" "\<forall>seg \<in> set (orderedSegments p). sg_nextOffset seg \<le> p_nextOffset p"
    using ok part_ok_ends [OF ok] by (simp_all add: part_ok_def)
  from planCompaction_ok [OF segs dec keys] obtain plan where
    plan: "planCompaction (orderedSegments p) (p_nextOffset p) = Some (Inr plan)" "cp_total plan = int (length rs)"
    "cp_planned plan = int (length (keep_last rs))" "plans plan rs" by (auto simp: rs_def)
  note step = Compact_stage_def [of clock p] part_ok_source [OF ok] idle plan(1)
  show ?thesis
  proof (cases "keep_last rs = rs")
    case True
    then show ?thesis using plan(2,3) by (simp add: step)
  next
    case False
    then have less: "\<not> cp_total plan \<le> cp_planned plan" using plan(2,3) keep_last_same [of rs] by auto
    obtain w0 where w0: "newCompactWriter (p_maxSegmentBytes p) (p_indexInterval p) = Inr w0"
      "writer_holds B (compactBatchSize - 1) w0 []" "cw_maxBytes w0 = p_maxSegmentBytes p" "cw_interval w0 = p_indexInterval p"
      using newCompactWriter_ok [OF m] by blast
    from writer_adds [OF w0(2), of "keep_last rs" clock] sizes_fit_keep [of B "p_maxSegmentBytes p" rs "[]"] fit w0(3)
    obtain w where w: "each (writer_add clock) (keep_last rs) w0 = (Inr (), w)"
      "writer_holds B (compactBatchSize - 1) w (keep_last rs)" "cw_maxBytes w = cw_maxBytes w0" "cw_interval w = cw_interval w0"
      by (auto simp: rs_def)
    have "stageCompaction clock (p_maxSegmentBytes p) (p_indexInterval p) (orderedSegments p) (p_nextOffset p) plan = Some (Inr w)"
      using stageCompaction_ok [OF segs dec _ w0(1), of plan clock] plan(4) w(1) by (simp add: rs_def)
    with less w w0 False show ?thesis by (simp add: step)
  qed
qed

lemma install_scanned:
  assumes w: "writer_holds B (compactBatchSize - 1) w rs" "cw_maxBytes w = p_maxSegmentBytes p" "cw_interval w = p_indexInterval p"
    and scan: "forEachBatchRange (\<lambda>b. each (writer_add clock) (Records b)) (p_activeSegment p) fin (p_nextOffset p) w
      = Some (each (writer_add clock) new w)"
    and fit: "sizes_fit B (p_maxSegmentBytes p) (rs @ new)"
  shows "\<exists>q bs'. installCompaction clock now w fin p = Some (Inr (), Some q) \<and> part_holds q bs'
    \<and> (\<forall>b \<in> set bs'. decodes b) \<and> map payload (log_records bs') = map written (rs @ new)
    \<and> log_start q = 0 \<and> p_nextOffset q = int (length (log_records bs'))
    \<and> p_idempotence q = p_idempotence p \<and> p_maxSegmentBytes q = p_maxSegmentBytes p \<and> p_compacting q = p_compacting p"
proof -
  from writer_adds [OF w(1), of new clock] fit w(2) obtain w1 where
    w1: "each (writer_add clock) new w = (Inr (), w1)" "writer_holds B (compactBatchSize - 1) w1 (rs @ new)"
    "cw_maxBytes w1 = p_maxSegmentBytes p" "cw_interval w1 = p_indexInterval p" using w(3) by auto
  have "writer_holds B compactBatchSize w1 (rs @ new)" using w1(2) by (rule writer_holds_mono) simp
  from writer_flush_holds [OF this, of clock] fit w1(3,4) obtain w2 where
    w2: "writer_flush clock w1 = (Inr (), w2)" "writer_holds B 0 w2 (rs @ new)" "cw_maxBytes w2 = p_maxSegmentBytes p"
    "cw_interval w2 = p_indexInterval p" by (auto simp: sizes_fit_def)
  from w2(2) obtain css where css: "writer_ok w2 css" "\<forall>b \<in> set (concat css). decodes b"
    "map payload (log_records (concat css)) = map written (rs @ new)"
    "sg_nextOffset (cw_seg w2) = int (length (log_records (concat css)))"
    by (auto simp: writer_holds_def)
  then have parts: "part_ok (writer_part w2) css" "log_start (writer_part w2) = 0" "0 < p_maxSegmentBytes p"
    using w2(3) by (simp_all add: writer_ok_def)
  from part_recover_ok [OF parts(1)] parts(2) w2(3,4) obtain q where
    q: "part_recover (writer_files w2) (p_maxSegmentBytes p) (p_indexInterval p) = Inr q" "part_ok q css" "log_start q = 0"
    "p_nextOffset q = sg_nextOffset (cw_seg w2)" by (auto simp: writer_files_part)
  have fields: "p_maxSegmentBytes q = p_maxSegmentBytes p" "p_indexInterval q = p_indexInterval p"
    using q(1) by (auto simp: part_recover_def res_bind_eq_Inr)
  let ?q = "p\<lparr>p_closedSegments := p_closedSegments q, p_activeSegment := p_activeSegment q,
    p_nextOffset := p_nextOffset q, p_highWatermark := p_highWatermark q,
    p_lastCompactMs := now, p_bytesAtCompact := int (totalSize q)\<rparr>"
  have segs: "orderedSegments ?q = orderedSegments q" by (simp add: orderedSegments_def)
  have "part_ok ?q css" using q(2) fields unfolding part_ok_def segs by simp
  then have "part_holds ?q (concat css)" using parts(3) by (auto simp: part_holds_def)
  moreover have "log_start ?q = 0" using q(3) unfolding log_start_def segs .
  moreover have "installCompaction clock now w fin p = Some (Inr (), Some ?q)"
    using scan w1(1) w2(1) q(1) by (simp add: installCompaction_def writer_finish_def)
  ultimately show ?thesis using css q(4) by (intro exI [of _ ?q] exI [of _ "concat css"]) simp
qed

lemma installCompaction_ok:
  assumes ok: "part_ok p (bss @ [bs])" and start: "sg_baseOffset (p_activeSegment p) \<le> fin"
    and w: "writer_holds B (compactBatchSize - 1) w rs" "cw_maxBytes w = p_maxSegmentBytes p" "cw_interval w = p_indexInterval p"
    and dec: "\<forall>b \<in> set bs. decodes b"
    and fit: "sizes_fit B (p_maxSegmentBytes p) (rs @ log_records (filter (\<lambda>b. fin \<le> batch_last b) bs))"
  shows "\<exists>q bs'. installCompaction clock now w fin p = Some (Inr (), Some q) \<and> part_holds q bs'
    \<and> (\<forall>b \<in> set bs'. decodes b)
    \<and> map payload (log_records bs') = map written (rs @ log_records (filter (\<lambda>b. fin \<le> batch_last b) bs))
    \<and> log_start q = 0 \<and> p_nextOffset q = int (length (log_records bs'))
    \<and> p_idempotence q = p_idempotence p \<and> p_maxSegmentBytes q = p_maxSegmentBytes p \<and> p_compacting q = p_compacting p"
proof (rule install_scanned [OF w _ fit])
  have seg: "seg_ok (p_activeSegment p) bs" using ok by (rule part_ok_active) simp
  have "p_nextOffset p = sg_nextOffset (p_activeSegment p)" using ok by (simp add: part_ok_def)
  then show "forEachBatchRange (\<lambda>b. each (writer_add clock) (Records b)) (p_activeSegment p) fin (p_nextOffset p) w
      = Some (each (writer_add clock) (log_records (filter (\<lambda>b. fin \<le> batch_last b) bs)) w)"
    using forEachBatchRange_fold [OF seg start dec, of "\<lambda>b. each (writer_add clock) (Records b)" w]
    by (simp add: each_concat log_records_def comp_def)
qed

subsection \<open>What compaction guarantees\<close>

lemma planCompaction_returns:
  assumes "list_all2 seg_ok segs bss"
  shows "\<exists>r. planCompaction segs fin = Some r"
proof -
  obtain r st where "forEachBatch (\<lambda>b. each plan_record (Records b)) segs fin
      (\<lparr>cp_last = [], cp_total = 0, cp_planned = 0, cp_keyBytes = 0\<rparr>, 0, 0) = Some (r, st)"
    using forEachBatch_returns [OF assms] by fastforce
  then show ?thesis by (cases r; cases st) (simp_all add: planCompaction_def)
qed

lemma stageCompaction_returns:
  assumes "list_all2 seg_ok segs bss"
  shows "\<exists>r. stageCompaction clock m i segs fin plan = Some r"
proof (cases "newCompactWriter m i")
  case (Inr w)
  obtain r st where "forEachBatch (\<lambda>b. each (stage_record clock plan) (Records b)) segs fin (0, w) = Some (r, st)"
    using forEachBatch_returns [OF assms] by fastforce
  with Inr show ?thesis by (cases r; cases st) (simp_all add: stageCompaction_def)
qed (simp add: stageCompaction_def)

text \<open>
  C18.  Compaction returns: on every well-formed partition, whether or not its batches
  decode, the two passes over the segments end, and so does the installation when the
  snapshot ends inside the active segment.
\<close>

theorem compaction_terminates:
  assumes "part_ok p bss" and "sg_baseOffset (p_activeSegment p) \<le> fin"
  shows "Compact_stage clock p \<noteq> None \<and> installCompaction clock now w fin p \<noteq> None"
proof
  have segs: "list_all2 seg_ok (orderedSegments p) bss" using assms(1) by (simp add: part_ok_def)
  obtain pr where plan: "planCompaction (orderedSegments p) (p_nextOffset p) = Some pr"
    using planCompaction_returns [OF segs] by blast
  have stage: "stageCompaction clock m i (orderedSegments p) n pl \<noteq> None" for m i n pl
    using stageCompaction_returns [OF segs, of clock m i n pl] by auto
  show "Compact_stage clock p \<noteq> None"
    by (cases pr) (simp_all add: Compact_stage_def part_ok_source [OF assms(1)] plan stage split: option.splits sum.splits
        del: not_None_eq)
  have seg: "seg_ok (p_activeSegment p) (last bss)" using assms(1) by (rule part_ok_active) simp
  have "p_nextOffset p = sg_nextOffset (p_activeSegment p)" using assms(1) by (simp add: part_ok_def)
  then obtain r where "forEachBatchRange (\<lambda>b. each (writer_add clock) (Records b)) (p_activeSegment p) fin (p_nextOffset p) w = Some r"
    using forEachBatchRange_returns [OF seg assms(2)] by (metis order_refl)
  then show "installCompaction clock now w fin p \<noteq> None"
    by (auto simp: installCompaction_def split: sum.splits prod.splits)
qed

lemma filter_new_batches:
  assumes "log_ok n (bs @ new)" and "fin = log_end n bs"
  shows "filter (\<lambda>b. fin \<le> batch_last b) (bs @ new) = new"
proof -
  have log: "log_ok n bs" "log_ok fin new" using assms by (simp_all add: log_ok_append)
  have "filter (\<lambda>b. fin \<le> batch_last b) bs = []" using log_ok_members [OF log(1)] assms(2) by (fastforce simp: filter_empty_conv)
  moreover have "filter (\<lambda>b. fin \<le> batch_last b) new = new"
    using log_ok_members [OF log(2)] batch_last_ge by (force intro: filter_True)
  ultimately show ?thesis by simp
qed

lemma key_bytes_mono: "set rs \<subseteq> set rs' \<Longrightarrow> key_bytes rs \<le> key_bytes rs'"
  unfolding key_bytes_def by (rule sum_mono2 [OF finite_record_keys]) (auto simp: record_keys_def)

text \<open>A compaction without appends in between, which has something to do.\<close>

lemma compaction_once:
  assumes "part_ok p (bss @ [bs])" and "0 < p_maxSegmentBytes p" and "\<not> p_compacting p"
    and "\<forall>b \<in> set (concat bss @ bs). decodes b"
    and "key_bytes (log_records (concat bss @ bs)) \<le> compactMaxKeyBytes"
    and "sizes_fit B (p_maxSegmentBytes p) (log_records (concat bss @ bs))"
    and "keep_last (log_records (concat bss @ bs)) \<noteq> log_records (concat bss @ bs)"
  shows "\<exists>w q bs'. Compact_stage clock p = Some (Staged w (p_nextOffset p))
    \<and> installCompaction clock now w (p_nextOffset p) p = Some (Inr (), Some q) \<and> part_holds q bs'
    \<and> (\<forall>b \<in> set bs'. decodes b) \<and> map payload (log_records bs') = map written (keep_last (log_records (concat bss @ bs)))
    \<and> p_maxSegmentBytes q = p_maxSegmentBytes p \<and> \<not> p_compacting q"
proof -
  let ?rs = "log_records (concat bss @ bs)" and ?n = "p_nextOffset p"
  have seg: "seg_ok (p_activeSegment p) bs" using part_ok_active [OF assms(1)] by auto
  have n: "?n = log_end (sg_baseOffset (p_activeSegment p)) bs" "sg_baseOffset (p_activeSegment p) \<le> ?n"
    using assms(1) seg_ok_next [OF seg] seg_ok_base_le [OF seg] by (simp_all add: part_ok_def)
  have none: "filter (\<lambda>b. ?n \<le> batch_last b) bs = []"
    using filter_new_batches [of "sg_baseOffset (p_activeSegment p)" bs "[]"] seg_ok_log [OF seg] n(1) by simp
  obtain w where w: "Compact_stage clock p = Some (Staged w ?n)" "writer_holds B (compactBatchSize - 1) w (keep_last ?rs)"
    "cw_maxBytes w = p_maxSegmentBytes p" "cw_interval w = p_indexInterval p"
    using Compact_stage_ok [OF assms(1-3), of B clock] assms(4-7) by auto
  with installCompaction_ok [OF assms(1) n(2) w(2-4), unfolded none, of clock now] sizes_fit_keep [of B _ ?rs "[]"] assms(3,4,6)
  show ?thesis by auto
qed


subsection \<open>Records without a key\<close>

lemma keep_last_nulls: "filter (\<lambda>r. Key r = None) (keep_last rs) = filter (\<lambda>r. Key r = None) rs"
  by (induction rs) auto

lemma keep_last_once:
  "length (filter (\<lambda>r. Key r = Some k) (keep_last rs)) = (if Some k \<in> Key ` set rs then 1 else 0)"
proof (induction rs)
  case (Cons r rs)
  then show ?case by (cases "Key r = Some k") (auto simp del: image_iff)
qed simp

text \<open>What the second compaction sees: every key is there, and the sizes have not changed.\<close>

lemma written_key: "payload r' = written r \<Longrightarrow> Key r' = Some (obytes (Key r))"
  by (simp add: payload_def written_def)

lemma written_encoded: "payload r' = written r \<Longrightarrow> EncodeRecord (copied d r') = EncodeRecord (copied d r)"
  by (cases "Key r")
    (simp_all add: payload_def written_def copied_def EncodeRecord_def record_body_def olen_def obytes_def)

lemma sum_length_drop_Nil: "finite K \<Longrightarrow> (\<Sum>k \<in> K. int (length k)) = (\<Sum>k \<in> K - {[]}. int (length k))"
  by (rule sum.mono_neutral_right) auto

lemma written_keys:
  assumes "map payload rs' = map written rs"
  shows "\<forall>r \<in> set rs'. Key r \<noteq> None" and "key_bytes rs' = key_bytes rs"
    and "sizes_fit B m rs \<Longrightarrow> sizes_fit B m rs'"
    and "length (filter (\<lambda>r. Key r = Some []) rs') = length (filter (\<lambda>r. obytes (Key r) = []) rs)"
proof -
  have len: "length rs' = length rs" using arg_cong [OF assms, of length] by simp
  have nth: "payload (rs' ! i) = written (rs ! i)" if "i < length rs" for i
    using arg_cong [OF assms, of "\<lambda>l. l ! i"] that len by simp
  have keys: "map Key rs' = map (\<lambda>r. Some (obytes (Key r))) rs"
    using nth written_key by (auto simp: list_eq_iff_nth_eq len)
  then show "\<forall>r \<in> set rs'. Key r \<noteq> None"
    by (metis (mono_tags, lifting) ex_map_conv image_eqI list.set_map option.distinct(1))
  have "record_keys rs' = (\<lambda>r. obytes (Key r)) ` set rs"
    using arg_cong [OF keys, of set] by (auto simp: record_keys_def)
  moreover have "k = obytes x \<longleftrightarrow> Some k = x" if "k \<noteq> []" for k x
    using that by (cases x) (auto simp: obytes_def)
  ultimately have "record_keys rs' - {[]} = record_keys rs - {[]}"
    by (auto simp: record_keys_def image_iff)
  then show "key_bytes rs' = key_bytes rs"
    unfolding key_bytes_def by (metis finite_record_keys sum_length_drop_Nil)
  have "small_records B rs'" if "small_records B rs"
    using that nth written_encoded unfolding small_records_def by (metis in_set_conv_nth len)
  then show "sizes_fit B m rs'" if "sizes_fit B m rs" using that len by (simp add: sizes_fit_def)
  have "length (filter (\<lambda>r. Key r = Some []) rs') = length (filter (\<lambda>k. k = Some []) (map Key rs'))"
    by (simp add: filter_map comp_def)
  also have "\<dots> = length (filter (\<lambda>r. obytes (Key r) = []) rs)" unfolding keys by (simp add: filter_map comp_def)
  finally show "length (filter (\<lambda>r. Key r = Some []) rs') = length (filter (\<lambda>r. obytes (Key r) = []) rs)" .
qed

text \<open>
  C37.  Records without a key do not survive a second compaction.  The first one keeps them
  all, but the encoder writes a missing key as an empty one; for the second they are records
  of one key, and it keeps one of them.
\<close>

theorem compaction_merges_null_keys:
  assumes "part_ok p (bss @ [bs])" and "0 < p_maxSegmentBytes p" and "\<not> p_compacting p"
    and "\<forall>b \<in> set (concat bss @ bs). decodes b"
    and "key_bytes (log_records (concat bss @ bs)) \<le> compactMaxKeyBytes"
    and "sizes_fit B (p_maxSegmentBytes p) (log_records (concat bss @ bs))"
  defines "rs \<equiv> log_records (concat bss @ bs)"
  assumes "keep_last rs \<noteq> rs" and "2 \<le> length (filter (\<lambda>r. Key r = None) rs)"
  shows "\<exists>w q bs1 w' q' bs2. Compact_stage clock p = Some (Staged w (p_nextOffset p))
    \<and> installCompaction clock now w (p_nextOffset p) p = Some (Inr (), Some q) \<and> part_holds q bs1
    \<and> length (filter (\<lambda>r. Key r = None) rs) \<le> length (filter (\<lambda>r. Key r = Some []) (log_records bs1))
    \<and> Compact_stage clock q = Some (Staged w' (p_nextOffset q))
    \<and> installCompaction clock now w' (p_nextOffset q) q = Some (Inr (), Some q') \<and> part_holds q' bs2
    \<and> length (filter (\<lambda>r. Key r = Some []) (log_records bs2)) = 1"
proof -
  let ?nulls = "filter (\<lambda>r. Key r = None) rs"
  from compaction_once [OF assms(1-6) assms(8) [unfolded rs_def], of clock now] obtain w q bs1 where
    one: "Compact_stage clock p = Some (Staged w (p_nextOffset p))"
    "installCompaction clock now w (p_nextOffset p) p = Some (Inr (), Some q)" "part_holds q bs1"
    "\<forall>b \<in> set bs1. decodes b" "map payload (log_records bs1) = map written (keep_last rs)"
    "p_maxSegmentBytes q = p_maxSegmentBytes p" "\<not> p_compacting q" by (auto simp: rs_def)
  note k1 = written_keys [OF one(5)]
  have "length ?nulls = length (filter (\<lambda>r. Key r = None) (keep_last rs))" by (simp add: keep_last_nulls)
  also have "\<dots> \<le> length (filter (\<lambda>r. obytes (Key r) = []) (keep_last rs))"
    by (induction rs) (auto simp: obytes_def)
  finally have le: "length ?nulls \<le> length (filter (\<lambda>r. Key r = Some []) (log_records bs1))" using k1(4) by simp
  obtain css cs where q: "part_ok q (css @ [cs])" "concat css @ cs = bs1"
    using one(3) part_ok_active [of q] by (auto simp: part_holds_def) (metis concat.simps concat_append append_Nil2)
  have more: "keep_last (log_records bs1) \<noteq> log_records bs1"
  proof
    assume "keep_last (log_records bs1) = log_records bs1"
    then have "length (filter (\<lambda>r. Key r = Some []) (log_records bs1)) \<le> 1" using keep_last_once [of "[]" "log_records bs1"] by simp
    with le assms(9) show False by simp
  qed
  have "key_bytes (log_records bs1) \<le> compactMaxKeyBytes"
    using k1(2) key_bytes_mono [of "keep_last rs" rs] set_keep_last [of rs] assms(5) by (simp add: rs_def)
  moreover have "sizes_fit B (p_maxSegmentBytes q) (log_records bs1)"
    using k1(3) sizes_fit_keep [of B "p_maxSegmentBytes p" rs "[]"] assms(6) one(6) by (simp add: rs_def)
  ultimately obtain w' q' bs2 where
    two: "Compact_stage clock q = Some (Staged w' (p_nextOffset q))"
    "installCompaction clock now w' (p_nextOffset q) q = Some (Inr (), Some q')" "part_holds q' bs2"
    "map payload (log_records bs2) = map written (keep_last (log_records bs1))"
    using compaction_once [OF q(1), of B clock now] q(2) one more assms(2) by auto
  have some: "Some [] \<in> Key ` set (log_records bs1)"
    using le assms(9) by (metis (mono_tags, lifting) One_nat_def filter_False image_eqI le_zero_eq length_0_conv not_numeral_le_zero)
  have "filter (\<lambda>r. obytes (Key r) = []) (keep_last (log_records bs1)) = filter (\<lambda>r. Key r = Some []) (keep_last (log_records bs1))"
    using k1(1) set_keep_last [of "log_records bs1"] by (intro filter_cong) (auto simp: obytes_def split: option.splits)
  then have "length (filter (\<lambda>r. Key r = Some []) (log_records bs2)) = 1"
    using written_keys(4) [OF two(4)] keep_last_once [of "[]" "log_records bs1"] some by simp
  with one two le show ?thesis by blast
qed

subsection \<open>A roll during compaction\<close>

lemma forEachBatchRange_below:
  assumes "seg_ok seg bs" and "sg_index seg = Some idx" and "ix_entries idx = []" and "nxt < sg_baseOffset seg"
    and "\<forall>b \<in> set bs. decodes b"
  shows "forEachBatchRange fn seg nxt (sg_nextOffset seg) s = Some (each fn (map decoded bs) s)"
proof -
  let ?ys = "take_bytes compactReadBytes bs"
  have to: "nxt < sg_nextOffset seg" using assms(4) seg_ok_base_le [OF assms(1)] by simp
  have log: "log_small (sg_baseOffset seg) bs" "sg_logFile seg = Some (concat bs)" "sg_size seg = length (concat bs)"
    using assms(1) by (auto simp: seg_ok_def)
  have all: "filter (\<lambda>b. nxt \<le> batch_last b) bs = bs"
    using log_ok_members [OF seg_ok_log [OF assms(1)]] batch_last_ge assms(4) by (force intro: filter_True)
  have read: "seg_read seg nxt compactReadBytes = Inr (concat ?ys)"
    using read_loop_batches [of "sg_baseOffset seg" bs "[]" "[]" nxt compactReadBytes] log log_small_end [OF log(1)] all assms(2,3)
    by (simp add: seg_read_def positionForOffset_def obytes_def log_small_def compactReadBytes_def)
  obtain zs where zs: "bs = ?ys @ zs" using take_bytes_prefix by blast
  have "set ?ys \<subseteq> set bs" using arg_cong [OF zs, of set] by auto
  then have "\<forall>b \<in> set ?ys. wf_batch b \<and> last_in_range b \<and> decodes b"
    using seg_ok_members [OF assms(1)] assms(5) by blast
  note scan = scan_decodes [OF this, of fn nxt False s]
  show ?thesis
  proof (cases "bs = []")
    case True
    with to read scan show ?thesis by (subst forEachBatchRange.simps) simp
  next
    case False
    then have ys: "?ys \<noteq> []" by (simp add: take_bytes_nonempty compactReadBytes_def)
    have l: "sg_baseOffset seg \<le> batch_last (last ?ys) + 1"
      using ys \<open>set ?ys \<subseteq> set bs\<close> log_ok_members [OF seg_ok_log [OF assms(1)], of "last ?ys"] batch_last_ge [of "last ?ys"]
      by (force dest: last_in_set)
    have "filter (\<lambda>b. batch_last (last ?ys) + 1 \<le> batch_last b) bs = zs"
      by (rule filter_after_prefix(1) [OF seg_ok_log [OF assms(1)] _ ys]) (use all zs in simp)
    moreover have "map decoded bs = map decoded ?ys @ map decoded zs" using arg_cong [OF zs, of "map decoded"] by simp
    ultimately show ?thesis
      using forEachBatchRange_fold [OF assms(1) l assms(5), of fn] to read scan ys
      by (subst forEachBatchRange.simps) (auto simp: each_append split: prod.splits sum.splits)
  qed
qed

text \<open>
  Compaction loses what was appended before a roll.  While it runs, the batches \<open>lost\<close>
  go to the active segment, then the partition rolls, and \<open>new\<close> goes to the next segment.
  The installation copies from the segment that is active at that moment only: the
  compacted partition has the records of \<open>new\<close> behind the kept ones, and none of \<open>lost\<close>.
\<close>

theorem compaction_drops_appends:
  assumes "part_ok p (bss @ [bs])" and "part_ok p' (bss @ [bs @ lost, new])"
    and "p_nextOffset p < sg_baseOffset (p_activeSegment p')"
    and "sg_index (p_activeSegment p') = Some idx" and "ix_entries idx = []"
    and "0 < p_maxSegmentBytes p" and "p_maxSegmentBytes p' = p_maxSegmentBytes p"
    and "p_indexInterval p' = p_indexInterval p" and "\<not> p_compacting p"
    and "\<forall>b \<in> set (concat bss @ bs @ new). decodes b"
    and "key_bytes (log_records (concat bss @ bs)) \<le> compactMaxKeyBytes"
    and "sizes_fit B (p_maxSegmentBytes p) (log_records (concat bss @ bs @ new))"
    and "keep_last (log_records (concat bss @ bs)) \<noteq> log_records (concat bss @ bs)"
  shows "\<exists>w q bs'. Compact_stage clock p = Some (Staged w (p_nextOffset p))
      \<and> installCompaction clock now w (p_nextOffset p) p' = Some (Inr (), Some q) \<and> part_holds q bs'
      \<and> map payload (log_records bs') = map written (keep_last (log_records (concat bss @ bs)) @ log_records new)"
proof -
  let ?rs = "log_records (concat bss @ bs)" and ?n = "p_nextOffset p"
  have fit: "sizes_fit B (p_maxSegmentBytes p) (?rs @ log_records new)" using assms(12) by simp
  obtain w where w: "Compact_stage clock p = Some (Staged w ?n)" "writer_holds B (compactBatchSize - 1) w (keep_last ?rs)"
    "cw_maxBytes w = p_maxSegmentBytes p'" "cw_interval w = p_indexInterval p'"
    using Compact_stage_ok [OF assms(1,6,9), of B clock] assms(7,8,10,11,13) sizes_fit_prefix [OF fit] by auto
  have seg: "seg_ok (p_activeSegment p') new" using part_ok_active [OF assms(2)] by auto
  have "p_nextOffset p' = sg_nextOffset (p_activeSegment p')" using assms(2) by (simp add: part_ok_def)
  then have "forEachBatchRange (\<lambda>b. each (writer_add clock) (Records b)) (p_activeSegment p') ?n (p_nextOffset p') w
      = Some (each (writer_add clock) (log_records new) w)"
    using forEachBatchRange_below [OF seg assms(4,5,3), of "\<lambda>b. each (writer_add clock) (Records b)" w] assms(10)
    by (simp add: each_concat log_records_def comp_def)
  from install_scanned [OF w(2-4) this, of now] sizes_fit_keep [OF fit] assms(7) w(1) show ?thesis by auto
qed

subsection \<open>A partition to compact\<close>

text \<open>A batch of four records: two of one key, and two without a key.\<close>

definition keyed_raw :: bytes where
  "keyed_raw = replicate 8 0 @ [0, 0, 0, 83] @ replicate 4 0 @ [2] @ replicate 6 0 @ [0, 0, 0, 3] @ replicate 30 0 @ [0, 0, 0, 4]
     @ [16, 0, 0, 0, 2, 107, 2, 1, 0] @ [14, 0, 0, 2, 1, 2, 9, 0] @ [16, 0, 0, 4, 2, 107, 2, 2, 0] @ [14, 0, 0, 6, 1, 2, 8, 0]"

definition keyed_segment :: "bytes list \<Rightarrow> int \<Rightarrow> int \<Rightarrow> Segment" where
  "keyed_segment bs base nxt = \<lparr>sg_baseOffset = base, sg_logFile = Some (concat bs),
     sg_index = Some \<lparr>ix_baseOffset = base, ix_interval = 4096, ix_file = [], ix_entries = [], ix_writtenSize = 0\<rparr>,
     sg_nextOffset = nxt, sg_size = length (concat bs), sg_maxSegmentBytes = 1000, sg_indexInterval = 4096, sg_remote = False,
     sg_remoteStub = None, sg_syncedOffset = nxt, sg_syncedBytes = length (concat bs), sg_lastSyncMs = 0\<rparr>"

definition keyed_partition :: "Segment list \<Rightarrow> Segment \<Rightarrow> Partition" where
  "keyed_partition closed act = \<lparr>p_closedSegments = closed, p_activeSegment = act, p_nextOffset = sg_nextOffset act,
     p_highWatermark = sg_nextOffset act, p_maxSegmentBytes = 1000, p_indexInterval = 4096, p_idempotence = [],
     p_compacting = False, p_lastCompactMs = 0, p_bytesAtCompact = 0\<rparr>"

lemma keyed_fields [simp]:
  "sg_baseOffset (keyed_segment bs base nxt) = base" "sg_nextOffset (keyed_segment bs base nxt) = nxt"
  "map_option ix_entries (sg_index (keyed_segment bs base nxt)) = Some []"
  "p_activeSegment (keyed_partition closed act) = act" "p_nextOffset (keyed_partition closed act) = sg_nextOffset act"
  "p_maxSegmentBytes (keyed_partition closed act) = 1000" "p_indexInterval (keyed_partition closed act) = 4096"
  "\<not> p_compacting (keyed_partition closed act)"
  by (simp_all add: keyed_segment_def keyed_partition_def)

lemma keyed_logs:
  "log_ok 0 [set_base 0 keyed_raw]" "log_end 0 [set_base 0 keyed_raw] = 4"
  "log_ok 0 [set_base 0 keyed_raw, set_base 4 keyed_raw]" "log_end 0 [set_base 0 keyed_raw, set_base 4 keyed_raw] = 8"
  "log_ok 8 [set_base 8 keyed_raw]" "log_end 8 [set_base 8 keyed_raw] = 12"
  "length (set_base 0 keyed_raw) = 95" "length (set_base 4 keyed_raw) = 95" "length (set_base 8 keyed_raw) = 95"
  by code_simp+

lemma keyed_segments:
  "seg_ok (keyed_segment [set_base 0 keyed_raw] 0 4) [set_base 0 keyed_raw]"
  "seg_ok (keyed_segment [set_base 0 keyed_raw, set_base 4 keyed_raw] 0 8) [set_base 0 keyed_raw, set_base 4 keyed_raw]"
  "seg_ok (keyed_segment [set_base 8 keyed_raw] 8 12) [set_base 8 keyed_raw]"
  using keyed_logs by (simp_all add: seg_ok_def keyed_segment_def log_small_def index_ok_def index_stored_def)

lemma keyed_partitions:
  "part_ok (keyed_partition [] (keyed_segment [set_base 0 keyed_raw] 0 4)) [[set_base 0 keyed_raw]]"
  "part_ok (keyed_partition [] (keyed_segment [set_base 0 keyed_raw, set_base 4 keyed_raw] 0 8)) [[set_base 0 keyed_raw, set_base 4 keyed_raw]]"
  "part_ok (keyed_partition [keyed_segment [set_base 0 keyed_raw, set_base 4 keyed_raw] 0 8] (keyed_segment [set_base 8 keyed_raw] 8 12))
     [[set_base 0 keyed_raw, set_base 4 keyed_raw], [set_base 8 keyed_raw]]"
  using keyed_segments
  by (simp_all add: part_ok_def keyed_partition_def orderedSegments_def chained_def) (simp_all add: keyed_segment_def)

definition keyed_record :: "int32 \<Rightarrow> bytes option \<Rightarrow> byte \<Rightarrow> Record" where
  "keyed_record d k v = \<lparr>rec_Attributes = 0, TimestampDelta = 0, OffsetDelta = d, Key = k, Value = Some [v], Headers = []\<rparr>"

lemma keyed_records:
  "decodes (set_base 0 keyed_raw)" "decodes (set_base 4 keyed_raw)" "decodes (set_base 8 keyed_raw)"
  "Records (decoded (set_base 0 keyed_raw))
    = [keyed_record 0 (Some [107]) 1, keyed_record 1 None 9, keyed_record 2 (Some [107]) 2, keyed_record 3 None 8]"
  "Records (decoded (set_base 4 keyed_raw)) = Records (decoded (set_base 0 keyed_raw))"
  "Records (decoded (set_base 8 keyed_raw)) = Records (decoded (set_base 0 keyed_raw))"
  by code_simp+

lemma EncodeRecord_size: "Headers r = [] \<Longrightarrow> length (EncodeRecord r) \<le> 70 + olen (Key r) + olen (Value r)"
proof -
  assume "Headers r = []"
  then have "length (record_body r) \<le> 60 + olen (Key r) + olen (Value r)"
    using length_PutVarint [of "TimestampDelta r"] length_PutVarint [of "scast (OffsetDelta r)"]
      length_PutVarint [of "of_nat (olen (Key r))"] length_PutVarint [of "of_nat (olen (Value r))"] length_PutVarint [of "-1"]
    by (cases "Key r"; cases "Value r")
      (simp_all add: record_body_def appendVarintBytes_def olen_def obytes_def PutUvarint_def put_uvarint_small)
  then show ?thesis using length_PutVarint [of "of_nat (length (record_body r))"] by (simp add: EncodeRecord_def)
qed

lemma keyed_small:
  "set rs \<subseteq> set (Records (decoded (set_base 0 keyed_raw))) \<Longrightarrow> length rs < 1000 \<Longrightarrow> sizes_fit 100 1000 rs"
proof -
  assume a: "set rs \<subseteq> set (Records (decoded (set_base 0 keyed_raw)))" "length rs < 1000"
  have "length (EncodeRecord (copied d r)) \<le> 100" if "r \<in> set rs" for d r
  proof -
    have r: "Headers (copied d r) = []" "olen (Key (copied d r)) \<le> 1" "olen (Value (copied d r)) \<le> 1"
      using a(1) that by (auto simp: keyed_records(4) keyed_record_def copied_def olen_def)
    with EncodeRecord_size [OF r(1)] show ?thesis by linarith
  qed
  with a(2) show ?thesis by (simp add: sizes_fit_def small_records_def compactBatchSize_def)
qed

lemma keyed_log:
  "log_records [set_base 0 keyed_raw] = Records (decoded (set_base 0 keyed_raw))"
  "keep_last (Records (decoded (set_base 0 keyed_raw))) = [keyed_record 1 None 9, keyed_record 2 (Some [107]) 2, keyed_record 3 None 8]"
  "key_bytes (Records (decoded (set_base 0 keyed_raw))) = 1"
  by (simp_all add: log_records_def keyed_records keyed_record_def key_bytes_def record_keys_def)

theorem compaction_terminates_witness:
  "Compact_stage (\<lambda>_. 0) (keyed_partition [] (keyed_segment [set_base 0 keyed_raw] 0 4)) \<noteq> None"
  using compaction_terminates [OF keyed_partitions(1), of 4 "\<lambda>_. 0"] by simp


theorem compaction_merges_null_keys_witness:
  "\<exists>w q bs1 w' q' bs2. Compact_stage (\<lambda>_. 0) (keyed_partition [] (keyed_segment [set_base 0 keyed_raw] 0 4)) = Some (Staged w 4)
    \<and> installCompaction (\<lambda>_. 0) 77 w 4 (keyed_partition [] (keyed_segment [set_base 0 keyed_raw] 0 4)) = Some (Inr (), Some q)
    \<and> part_holds q bs1 \<and> 2 \<le> length (filter (\<lambda>r. Key r = Some []) (log_records bs1))
    \<and> Compact_stage (\<lambda>_. 0) q = Some (Staged w' (p_nextOffset q))
    \<and> installCompaction (\<lambda>_. 0) 77 w' (p_nextOffset q) q = Some (Inr (), Some q') \<and> part_holds q' bs2
    \<and> length (filter (\<lambda>r. Key r = Some []) (log_records bs2)) = 1"
proof -
  let ?p = "keyed_partition [] (keyed_segment [set_base 0 keyed_raw] 0 4)"
  have fit: "sizes_fit 100 1000 (log_records [set_base 0 keyed_raw])"
    by (rule keyed_small) (simp_all add: log_records_def keyed_records)
  have nulls: "length (filter (\<lambda>r. Key r = None) (log_records [set_base 0 keyed_raw])) = 2"
    by (simp add: keyed_log keyed_records keyed_record_def)
  have n: "p_nextOffset ?p = 4" by (simp add: keyed_partition_def keyed_segment_def)
  have "keep_last (log_records [set_base 0 keyed_raw]) \<noteq> log_records [set_base 0 keyed_raw]"
    by (simp add: keyed_log(1,2)) (simp add: keyed_records)
  with compaction_merges_null_keys [of ?p "[]" "[set_base 0 keyed_raw]" 100 "\<lambda>_. 0" 77] keyed_partitions(1) fit nulls keyed_records(1) keyed_log
  show ?thesis unfolding n by (simp add: compactMaxKeyBytes_def)
qed

theorem compaction_drops_appends_witness:
  "\<exists>w q bs'. Compact_stage (\<lambda>_. 0) (keyed_partition [] (keyed_segment [set_base 0 keyed_raw] 0 4)) = Some (Staged w 4)
    \<and> installCompaction (\<lambda>_. 0) 77 w 4 (keyed_partition [keyed_segment [set_base 0 keyed_raw, set_base 4 keyed_raw] 0 8]
          (keyed_segment [set_base 8 keyed_raw] 8 12)) = Some (Inr (), Some q)
    \<and> part_holds q bs' \<and> length (log_records bs') = 7"
proof -
  let ?p = "keyed_partition [] (keyed_segment [set_base 0 keyed_raw] 0 4)"
    and ?p' = "keyed_partition [keyed_segment [set_base 0 keyed_raw, set_base 4 keyed_raw] 0 8] (keyed_segment [set_base 8 keyed_raw] 8 12)"
  obtain idx where idx: "sg_index (keyed_segment [set_base 8 keyed_raw] 8 12) = Some idx" "ix_entries idx = []"
    using keyed_fields(3) [of "[set_base 8 keyed_raw]" 8 12] by (auto simp del: keyed_fields(3))
  note t = compaction_drops_appends [of ?p "[]" "[set_base 0 keyed_raw]" ?p' "[set_base 4 keyed_raw]" "[set_base 8 keyed_raw]" idx 100 "\<lambda>_. 0" 77]
  have "sizes_fit 100 1000 (log_records [set_base 0 keyed_raw, set_base 8 keyed_raw])"
    by (rule keyed_small) (simp_all add: log_records_def keyed_records)
  moreover have "keep_last (log_records [set_base 0 keyed_raw]) \<noteq> log_records [set_base 0 keyed_raw]"
    by (simp add: keyed_log(1,2)) (simp add: keyed_records)
  ultimately obtain w q bs' where r: "Compact_stage (\<lambda>_. 0) ?p = Some (Staged w 4)"
    "installCompaction (\<lambda>_. 0) 77 w 4 ?p' = Some (Inr (), Some q)" "part_holds q bs'"
    "map payload (log_records bs') = map written (keep_last (Records (decoded (set_base 0 keyed_raw))) @ log_records [set_base 8 keyed_raw])"
    using t keyed_partitions keyed_records(1-3) keyed_log idx by (auto simp: compactMaxKeyBytes_def)
  have "length (log_records bs') = 7"
    using arg_cong [OF r(4), of length] unfolding keyed_log(2) by (simp add: log_records_def keyed_records)
  with r show ?thesis by blast
qed

end
