(* ===== verification/Compaction_Swap.thy ===== *)
theory Compaction_Swap
  imports Prelude "HOL-Library.AList"
begin

text \<open>
  How the files of a compaction replace those of the partition
  (\<^verbatim>\<open>stageSwapFiles\<close>, \<^verbatim>\<open>writeManifest\<close>, \<^verbatim>\<open>applyCompactionSwap\<close> in
  \<^verbatim>\<open>src/internal/storage/compaction.go\<close>).  A directory is a list of named files; the code is
  the sequence of the file system operations it performs, so that a crash is a prefix of the
  sequence.  The manifest is the value its JSON text stands for, or unreadable.
\<close>

subsection \<open>The directory\<close>

datatype manifest_file = Manifest (mf_old: "gostring list") (mf_new: "gostring list") | BadManifest

record tmp_dir =
  td_files :: "(gostring \<times> bytes) list"
  td_manifest :: "manifest_file option"

record part_fs =
  fs_files :: "(gostring \<times> bytes) list"
  fs_tmp :: "tmp_dir option"

definition compactStaged :: gostring where
  "compactStaged = str ''.staged''"

abbreviation staged :: "gostring \<Rightarrow> gostring" where
  "staged name \<equiv> name @ compactStaged"

definition tmp_file :: "part_fs \<Rightarrow> gostring \<Rightarrow> bytes option" where
  "tmp_file fs name = (case fs_tmp fs of None \<Rightarrow> None | Some t \<Rightarrow> map_of (td_files t) name)"

subsection \<open>Operations\<close>

datatype fs_op =
    RenameInTmp gostring gostring
  | BeginManifest
  | WriteManifest manifest_file
  | RemoveFile gostring
  | RenameOut gostring gostring
  | RemoveManifest
  | RemoveInTmp gostring
  | RemoveTmp

definition in_tmp :: "(tmp_dir \<Rightarrow> tmp_dir) \<Rightarrow> part_fs \<Rightarrow> part_fs" where
  "in_tmp f fs = fs\<lparr>fs_tmp := map_option f (fs_tmp fs)\<rparr>"

fun exec :: "fs_op \<Rightarrow> part_fs \<Rightarrow> part_fs" where
  "exec (RenameInTmp a b) fs =
     (case tmp_file fs a of None \<Rightarrow> fs
      | Some c \<Rightarrow> in_tmp (\<lambda>t. t\<lparr>td_files := AList.update b c (AList.delete a (td_files t))\<rparr>) fs)"
| "exec BeginManifest fs = in_tmp (\<lambda>t. t\<lparr>td_manifest := Some BadManifest\<rparr>) fs"
| "exec (WriteManifest m) fs = in_tmp (\<lambda>t. t\<lparr>td_manifest := Some m\<rparr>) fs"
| "exec (RemoveFile a) fs = fs\<lparr>fs_files := AList.delete a (fs_files fs)\<rparr>"
| "exec (RenameOut a b) fs =
     (case tmp_file fs a of None \<Rightarrow> fs
      | Some c \<Rightarrow> in_tmp (\<lambda>t. t\<lparr>td_files := AList.delete a (td_files t)\<rparr>) (fs\<lparr>fs_files := AList.update b c (fs_files fs)\<rparr>))"
| "exec RemoveManifest fs = in_tmp (\<lambda>t. t\<lparr>td_manifest := None\<rparr>) fs"
| "exec (RemoveInTmp a) fs = in_tmp (\<lambda>t. t\<lparr>td_files := AList.delete a (td_files t)\<rparr>) fs"
| "exec RemoveTmp fs = fs\<lparr>fs_tmp := None\<rparr>"

definition exec_all :: "fs_op list \<Rightarrow> part_fs \<Rightarrow> part_fs" where
  "exec_all ops fs = fold exec ops fs"

subsection \<open>The swap\<close>

definition remove_all :: "(gostring \<times> bytes) list \<Rightarrow> fs_op list" where
  "remove_all files = map (RemoveInTmp \<circ> fst) files @ [RemoveManifest, RemoveTmp]"

definition remove_ops :: "gostring list \<Rightarrow> gostring list \<Rightarrow> (gostring \<times> bytes) list \<Rightarrow> fs_op list" where
  "remove_ops old new files =
     map RemoveFile (filter (\<lambda>name. name \<in> set new \<longrightarrow> map_of files (staged name) \<noteq> None) old)"

fun rename_ops :: "gostring list \<Rightarrow> (gostring \<times> bytes) list \<Rightarrow> fs_op list" where
  "rename_ops [] files = []"
| "rename_ops (name # names) files =
     (if map_of files (staged name) = None then rename_ops names files
      else RenameOut (staged name) name # rename_ops names (AList.delete (staged name) files))"

fun renamed :: "gostring list \<Rightarrow> (gostring \<times> bytes) list \<Rightarrow> (gostring \<times> bytes) list" where
  "renamed [] files = files"
| "renamed (name # names) files = renamed names (AList.delete (staged name) files)"

definition applyCompactionSwap :: "part_fs \<Rightarrow> fs_op list" where
  "applyCompactionSwap fs =
     (case fs_tmp fs of
        None \<Rightarrow> []
      | Some t \<Rightarrow>
          (case td_manifest t of
             Some (Manifest old new) \<Rightarrow>
               remove_ops old new (td_files t) @ rename_ops new (td_files t) @ [RemoveManifest]
               @ remove_all (renamed new (td_files t))
           | _ \<Rightarrow> remove_all (td_files t)))"

text \<open>A run in which the operation number \<open>fault\<close> fails: the function returns its error there.\<close>

definition run_swap :: "nat option \<Rightarrow> part_fs \<Rightarrow> unit res \<times> part_fs" where
  "run_swap fault fs =
     (let ops = applyCompactionSwap fs
      in case fault of
           None \<Rightarrow> (Inr (), exec_all ops fs)
         | Some k \<Rightarrow> if k < length ops then (Inl IOError, exec_all (take k ops) fs) else (Inr (), exec_all ops fs))"

text \<open>The installation up to the swap, and \<^verbatim>\<open>Compact\<close>, which removes the temporary directory after an error.\<close>

definition stageSwapFiles :: "gostring list \<Rightarrow> fs_op list" where
  "stageSwapFiles names = map (\<lambda>name. RenameInTmp name (staged name)) names"

definition dirFileNames :: "part_fs \<Rightarrow> gostring list" where
  "dirFileNames fs = map fst (fs_files fs)"

definition writeManifest :: "gostring list \<Rightarrow> gostring list \<Rightarrow> fs_op list" where
  "writeManifest old new = [BeginManifest, WriteManifest (Manifest old new)]"

definition prepare_ops :: "gostring list \<Rightarrow> part_fs \<Rightarrow> fs_op list" where
  "prepare_ops names fs = stageSwapFiles names @ writeManifest (dirFileNames fs) names"

definition install_ops :: "gostring list \<Rightarrow> part_fs \<Rightarrow> fs_op list" where
  "install_ops names fs = prepare_ops names fs @ applyCompactionSwap (exec_all (prepare_ops names fs) fs)"

definition removeTmp :: "part_fs \<Rightarrow> part_fs" where
  "removeTmp fs = fs\<lparr>fs_tmp := None\<rparr>"

definition install_files :: "nat option \<Rightarrow> gostring list \<Rightarrow> part_fs \<Rightarrow> unit res \<times> part_fs" where
  "install_files fault names fs =
     (case run_swap fault (exec_all (prepare_ops names fs) fs) of
        (Inl e, fs') \<Rightarrow> (Inl e, removeTmp fs')
      | (Inr _, fs') \<Rightarrow> (Inr (), fs'))"

text \<open>The directory after the swap that opening the partition runs.\<close>

definition recovered :: "part_fs \<Rightarrow> part_fs" where
  "recovered fs = exec_all (applyCompactionSwap fs) fs"

subsection \<open>What a swap does\<close>

lemma exec_all_simps [simp]:
  "exec_all [] fs = fs" "exec_all (op # ops) fs = exec_all ops (exec op fs)"
  "exec_all (ops @ ops') fs = exec_all ops' (exec_all ops fs)"
  by (simp_all add: exec_all_def)

lemma tmp_in_tmp [simp]: "fs_files (in_tmp f fs) = fs_files fs" "fs_tmp (in_tmp f fs) = map_option f (fs_tmp fs)"
  by (simp_all add: in_tmp_def)

text \<open>Without a readable manifest the operations leave the files of the partition alone.\<close>

definition no_manifest :: "part_fs \<Rightarrow> bool" where
  "no_manifest fs \<longleftrightarrow> (\<forall>t. fs_tmp fs = Some t \<longrightarrow> td_manifest t = None \<or> td_manifest t = Some BadManifest)"

fun quiet :: "fs_op \<Rightarrow> bool" where
  "quiet (WriteManifest m) = False"
| "quiet (RemoveFile a) = False"
| "quiet (RenameOut a b) = False"
| "quiet op = True"

lemma quiet_step: "quiet op \<Longrightarrow> no_manifest fs \<Longrightarrow> no_manifest (exec op fs) \<and> fs_files (exec op fs) = fs_files fs"
  by (cases op) (auto simp: no_manifest_def split: option.splits)

lemma quiet_all:
  "list_all quiet ops \<Longrightarrow> no_manifest fs \<Longrightarrow> no_manifest (exec_all ops fs) \<and> fs_files (exec_all ops fs) = fs_files fs"
  by (induction ops arbitrary: fs) (auto dest: quiet_step)

lemma list_all_take: "list_all P xs \<Longrightarrow> list_all P (take k xs)"
  by (auto simp: list_all_iff dest: in_set_takeD)

lemma quiet_remove_all: "list_all quiet (remove_all files)"
  by (induction files) (simp_all add: remove_all_def)

lemma remove_all_tmp: "fs_tmp (exec_all (remove_all files) fs) = None"
  by (simp add: remove_all_def)

lemma recovered_quiet:
  assumes "no_manifest fs"
  shows "fs_files (recovered fs) = fs_files fs \<and> fs_tmp (recovered fs) = None"
proof (cases "fs_tmp fs")
  case (Some t)
  then have "applyCompactionSwap fs = remove_all (td_files t)"
    using assms by (auto simp: applyCompactionSwap_def no_manifest_def)
  then show ?thesis
    using quiet_all [OF quiet_remove_all assms] by (simp add: recovered_def remove_all_tmp)
qed (simp add: recovered_def applyCompactionSwap_def)

text \<open>The files a swap leaves, read off the state it starts from.\<close>

definition swap_target :: "gostring list \<Rightarrow> gostring list \<Rightarrow> part_fs \<Rightarrow> gostring \<Rightarrow> bytes option" where
  "swap_target old new fs name =
     (if name \<in> set new then (case tmp_file fs (staged name) of Some c \<Rightarrow> Some c | None \<Rightarrow> map_of (fs_files fs) name)
      else if name \<in> set old then None else map_of (fs_files fs) name)"

definition has_manifest :: "gostring list \<Rightarrow> gostring list \<Rightarrow> part_fs \<Rightarrow> bool" where
  "has_manifest old new fs \<longleftrightarrow> (\<exists>t. fs_tmp fs = Some t \<and> td_manifest t = Some (Manifest old new))"

lemma remove_step:
  assumes "has_manifest old new fs" and "name \<in> set old" and "name \<in> set new \<longrightarrow> tmp_file fs (staged name) \<noteq> None"
  shows "has_manifest old new (exec (RemoveFile name) fs)"
    and "swap_target old new (exec (RemoveFile name) fs) = swap_target old new fs"
    and "fs_tmp (exec (RemoveFile name) fs) = fs_tmp fs"
  using assms by (auto simp: has_manifest_def swap_target_def tmp_file_def fun_eq_iff delete_conv' split: option.splits)

lemma rename_step:
  assumes "has_manifest old new fs" and "name \<in> set new" and "tmp_file fs (staged name) \<noteq> None"
  shows "has_manifest old new (exec (RenameOut (staged name) name) fs)"
    and "swap_target old new (exec (RenameOut (staged name) name) fs) = swap_target old new fs"
  using assms
  by (auto simp: has_manifest_def swap_target_def tmp_file_def fun_eq_iff delete_conv' update_conv' split: option.splits)

text \<open>The removals and the renames one after the other keep the target.\<close>

lemma remove_ops_keep:
  assumes "has_manifest old new fs" and "set ops \<subseteq> set (remove_ops old new (td_files (the (fs_tmp fs))))"
  shows "has_manifest old new (exec_all ops fs) \<and> swap_target old new (exec_all ops fs) = swap_target old new fs
    \<and> fs_tmp (exec_all ops fs) = fs_tmp fs"
  using assms
proof (induction ops arbitrary: fs)
  case (Cons op ops)
  from Cons.prems obtain name where n: "op = RemoveFile name" "name \<in> set old"
    "name \<in> set new \<longrightarrow> tmp_file fs (staged name) \<noteq> None"
    by (auto simp: remove_ops_def has_manifest_def tmp_file_def)
  note step = remove_step [OF Cons.prems(1) n(2,3)]
  show ?case using Cons.IH [OF step(1)] step Cons.prems(2) unfolding n(1) by simp
qed simp

lemma rename_tmp:
  assumes "fs_tmp fs = Some t" and "map_of (td_files t) (staged name) = Some c"
  shows "fs_tmp (exec (RenameOut (staged name) name) fs) = Some (t\<lparr>td_files := AList.delete (staged name) (td_files t)\<rparr>)"
  using assms by (simp add: tmp_file_def)

lemma rename_ops_keep:
  assumes "has_manifest old new fs" and "set names \<subseteq> set new" and "fs_tmp fs = Some t"
  shows "has_manifest old new (exec_all (take k (rename_ops names (td_files t))) fs)
    \<and> swap_target old new (exec_all (take k (rename_ops names (td_files t))) fs) = swap_target old new fs"
  using assms
proof (induction names arbitrary: fs t k)
  case (Cons name names)
  show ?case
  proof (cases "map_of (td_files t) (staged name)")
    case None
    then show ?thesis using Cons by simp
  next
    case (Some c)
    then have "tmp_file fs (staged name) \<noteq> None" using Cons.prems(3) by (simp add: tmp_file_def)
    note step = rename_step [OF Cons.prems(1) _ this]
    show ?thesis
    proof (cases k)
      case (Suc j)
      then show ?thesis
        using Cons.IH [OF step(1) _ rename_tmp [OF Cons.prems(3) Some], of j] Cons.prems Some step(2)
        by (simp del: exec.simps)
    qed (use Cons.prems in simp)
  qed
qed simp

lemma rename_ops_all:
  assumes "fs_tmp fs = Some t" and "set names \<subseteq> set new" and "has_manifest old new fs"
  shows "fs_tmp (exec_all (rename_ops names (td_files t)) fs) = Some (t\<lparr>td_files := renamed names (td_files t)\<rparr>)"
  using assms
proof (induction names arbitrary: fs t)
  case (Cons name names)
  show ?case
  proof (cases "map_of (td_files t) (staged name)")
    case None
    then have "AList.delete (staged name) (td_files t) = td_files t"
      by (simp add: delete_idem map_of_eq_None_iff)
    then show ?thesis using Cons None by simp
  next
    case (Some c)
    have "has_manifest old new (exec (RenameOut (staged name) name) fs)"
      using Cons.prems Some by (intro rename_step(1)) (auto simp: tmp_file_def)
    with Cons.IH [OF rename_tmp [OF Cons.prems(1) Some]] Cons.prems Some show ?thesis
      by (simp del: exec.simps)
  qed
qed simp

lemma renamed_gone: "name \<in> set names \<Longrightarrow> map_of (renamed names files) (staged name) = None"
proof (induction names arbitrary: files)
  case (Cons n names)
  have "map_of (renamed ns fls) x = None" if "map_of fls x = None" for ns fls x
    using that by (induction ns arbitrary: fls) (auto simp: delete_conv')
  with Cons show ?case by (auto simp: delete_conv')
qed simp

lemma remove_ops_done:
  "name \<in> set old \<Longrightarrow> name \<notin> set new \<Longrightarrow> map_of (fs_files (exec_all (remove_ops old new files) fs)) name = None"
proof (induction old arbitrary: fs)
  case (Cons n old)
  have "map_of (fs_files (exec_all (remove_ops os new files) f)) x = None" if "map_of (fs_files f) x = None" for os f x
    using that by (induction os arbitrary: f) (auto simp: remove_ops_def delete_conv')
  with Cons show ?case by (auto simp: remove_ops_def delete_conv')
qed simp

lemma rename_ops_others:
  "name \<notin> set names \<Longrightarrow> map_of (fs_files (exec_all (rename_ops names files) fs)) name = map_of (fs_files fs) name"
  by (induction names arbitrary: files fs) (auto simp: update_conv' split: option.splits)

text \<open>The state in front of the removal of the manifest.\<close>

lemma swap_done:
  assumes "has_manifest old new fs" and "fs_tmp fs = Some t"
  defines "ops \<equiv> remove_ops old new (td_files t) @ rename_ops new (td_files t)"
  shows "map_of (fs_files (exec_all ops fs)) = swap_target old new fs"
    and "fs_tmp (exec_all ops fs) = Some (t\<lparr>td_files := renamed new (td_files t)\<rparr>)"
proof -
  let ?f1 = "exec_all (remove_ops old new (td_files t)) fs" and ?f2 = "exec_all ops fs"
  have f1: "has_manifest old new ?f1" "swap_target old new ?f1 = swap_target old new fs" "fs_tmp ?f1 = Some t"
    using remove_ops_keep [OF assms(1), of "remove_ops old new (td_files t)"] assms(2) by simp_all
  have f2: "?f2 = exec_all (rename_ops new (td_files t)) ?f1" by (simp add: ops_def)
  then show tmp: "fs_tmp ?f2 = Some (t\<lparr>td_files := renamed new (td_files t)\<rparr>)"
    using rename_ops_all [OF f1(3) _ f1(1)] by simp
  have target: "swap_target old new ?f2 = swap_target old new fs"
    using rename_ops_keep [OF f1(1) order_refl f1(3), of "length (rename_ops new (td_files t))"] f1(2) f2 by simp
  have "map_of (fs_files ?f2) name = swap_target old new ?f2 name" for name
  proof (cases "name \<in> set new")
    case True
    then have "tmp_file ?f2 (staged name) = None" using tmp renamed_gone [of name new] by (simp add: tmp_file_def)
    with True show ?thesis by (simp add: swap_target_def)
  next
    case False
    then show ?thesis
      using rename_ops_others [OF False] remove_ops_done [OF _ False, of old "td_files t" fs] f2 by (simp add: swap_target_def)
  qed
  with target show "map_of (fs_files ?f2) = swap_target old new fs" by auto
qed

lemma position_cases:
  fixes k :: nat
  shows "k \<le> a \<or> (\<exists>j. k = a + j \<and> j \<le> b) \<or> (\<exists>j. k = a + b + Suc j)"
  by presburger

lemma swap_prefix:
  assumes "has_manifest old new fs"
  shows "map_of (fs_files (recovered (exec_all (take k (applyCompactionSwap fs)) fs))) = swap_target old new fs
    \<and> fs_tmp (recovered (exec_all (take k (applyCompactionSwap fs)) fs)) = None"
proof -
  have whole: "map_of (fs_files (recovered g)) = swap_target old new g \<and> fs_tmp (recovered g) = None"
    if g: "has_manifest old new g" for g
  proof -
    obtain t where t: "fs_tmp g = Some t" "td_manifest t = Some (Manifest old new)" using g by (auto simp: has_manifest_def)
    let ?ops = "remove_ops old new (td_files t) @ rename_ops new (td_files t)"
    have "no_manifest (exec RemoveManifest (exec_all ?ops g))" by (auto simp: no_manifest_def)
    from quiet_all [OF quiet_remove_all this] swap_done [OF g t(1)] t show ?thesis
      by (simp add: recovered_def applyCompactionSwap_def remove_all_tmp)
  qed
  obtain t where t: "fs_tmp fs = Some t" "td_manifest t = Some (Manifest old new)" using assms by (auto simp: has_manifest_def)
  let ?rm = "remove_ops old new (td_files t)" and ?rn = "rename_ops new (td_files t)"
  let ?rest = "RemoveManifest # remove_all (renamed new (td_files t))"
  have ops: "applyCompactionSwap fs = ?rm @ ?rn @ ?rest" using t by (simp add: applyCompactionSwap_def)
  consider "k \<le> length ?rm" | j where "k = length ?rm + j" "j \<le> length ?rn" | j where "k = length (?rm @ ?rn) + Suc j"
    using position_cases [of k "length ?rm" "length ?rn"] by auto
  then show ?thesis
  proof cases
    case 1
    have "set (take k ?rm) \<subseteq> set ?rm" by (rule set_take_subset)
    then have "has_manifest old new (exec_all (take k ?rm) fs)" "swap_target old new (exec_all (take k ?rm) fs) = swap_target old new fs"
      using remove_ops_keep [OF assms, of "take k ?rm"] t(1) by auto
    with whole 1 show ?thesis by (simp add: ops)
  next
    case (2 j)
    have f1: "has_manifest old new (exec_all ?rm fs)" "swap_target old new (exec_all ?rm fs) = swap_target old new fs"
      "fs_tmp (exec_all ?rm fs) = Some t"
      using remove_ops_keep [OF assms, of ?rm] t(1) by simp_all
    from rename_ops_keep [OF f1(1) order_refl f1(3), of j] whole f1(2) 2 show ?thesis by (simp add: ops)
  next
    case (3 j)
    let ?g = "exec RemoveManifest (exec_all (?rm @ ?rn) fs)"
    have "no_manifest ?g" by (auto simp: no_manifest_def)
    from quiet_all [OF list_all_take [OF quiet_remove_all] this, of j "renamed new (td_files t)"]
    have "no_manifest (exec_all (take k (applyCompactionSwap fs)) fs)"
      "fs_files (exec_all (take k (applyCompactionSwap fs)) fs) = fs_files (exec_all (?rm @ ?rn) fs)"
      using 3 by (simp_all add: ops)
    with recovered_quiet swap_done(1) [OF assms t(1)] show ?thesis by simp
  qed
qed

subsection \<open>Staging\<close>

definition stageable :: "gostring list \<Rightarrow> tmp_dir \<Rightarrow> bool" where
  "stageable names t \<longleftrightarrow> distinct names \<and> (\<forall>n \<in> set names. map_of (td_files t) n \<noteq> None)
     \<and> (\<forall>n \<in> set names. \<forall>m \<in> set names. staged n \<noteq> m)"

lemma stage_files:
  assumes "stageable names t" and "fs_tmp fs = Some t"
  shows "\<exists>t'. fs_tmp (exec_all (stageSwapFiles names) fs) = Some t' \<and> td_manifest t' = td_manifest t
    \<and> (\<forall>n \<in> set names. map_of (td_files t') (staged n) = map_of (td_files t) n)
    \<and> (\<forall>x. x \<notin> set names \<longrightarrow> x \<notin> staged ` set names \<longrightarrow> map_of (td_files t') x = map_of (td_files t) x)"
  using assms
proof (induction names arbitrary: fs t)
  case (Cons n names)
  obtain c where c: "map_of (td_files t) n = Some c" using Cons.prems(1) by (auto simp: stageable_def)
  let ?t1 = "t\<lparr>td_files := AList.update (staged n) c (AList.delete n (td_files t))\<rparr>"
  have step: "fs_tmp (exec (RenameInTmp n (staged n)) fs) = Some ?t1" using Cons.prems(2) c by (simp add: tmp_file_def)
  have look: "map_of (td_files ?t1) x = (if x = staged n then Some c else if x = n then None else map_of (td_files t) x)" for x
    by (simp add: update_conv' delete_conv')
  have apart: "n \<notin> set names" "staged n \<notin> set names" "staged n \<notin> staged ` set names" "\<forall>m \<in> set names. staged m \<noteq> n"
    using Cons.prems(1) by (auto simp: stageable_def)
  have "stageable names ?t1" unfolding stageable_def look using Cons.prems(1) apart by (auto simp: stageable_def)
  from Cons.IH [OF this step] obtain t' where
    t': "fs_tmp (exec_all (stageSwapFiles names) (exec (RenameInTmp n (staged n)) fs)) = Some t'"
    "td_manifest t' = td_manifest t" "\<forall>m \<in> set names. map_of (td_files t') (staged m) = map_of (td_files ?t1) m"
    "\<forall>x. x \<notin> set names \<longrightarrow> x \<notin> staged ` set names \<longrightarrow> map_of (td_files t') x = map_of (td_files ?t1) x" by auto
  have "map_of (td_files t') (staged n) = Some c" using t'(4) apart look by auto
  moreover have "\<forall>m \<in> set names. map_of (td_files t') (staged m) = map_of (td_files t) m"
    using t'(3) apart unfolding look by metis
  ultimately show ?case
    using t'(1,2,4) c apart unfolding look by (intro exI [of _ t']) (auto simp: stageSwapFiles_def simp del: exec.simps)
qed (simp add: stageSwapFiles_def)

lemma quiet_stage: "list_all quiet (stageSwapFiles names @ [BeginManifest])"
  by (induction names) (simp_all add: stageSwapFiles_def)

lemma prepared:
  assumes "stageable names t" and "fs_tmp fs = Some t" and "td_manifest t = None"
  defines "fs1 \<equiv> exec_all (prepare_ops names fs) fs"
  shows "has_manifest (dirFileNames fs) names fs1" and "fs_files fs1 = fs_files fs"
    and "\<And>n. n \<in> set names \<Longrightarrow> tmp_file fs1 (staged n) = map_of (td_files t) n"
proof -
  have quiet: "no_manifest fs" using assms(2,3) by (simp add: no_manifest_def)
  obtain t' where t': "fs_tmp (exec_all (stageSwapFiles names) fs) = Some t'"
    "\<forall>n \<in> set names. map_of (td_files t') (staged n) = map_of (td_files t) n"
    using stage_files [OF assms(1,2)] by blast
  have e: "fs1 = exec (WriteManifest (Manifest (dirFileNames fs) names)) (exec_all (stageSwapFiles names @ [BeginManifest]) fs)"
    by (simp add: fs1_def prepare_ops_def writeManifest_def)
  show "has_manifest (dirFileNames fs) names fs1" using t'(1) unfolding e by (simp add: has_manifest_def)
  show "fs_files fs1 = fs_files fs" using quiet_all [OF quiet_stage quiet] unfolding e by simp
  show "tmp_file fs1 (staged n) = map_of (td_files t) n" if "n \<in> set names" for n
    using t' that unfolding e by (simp add: tmp_file_def)
qed

text \<open>
  C17.  Replacing the files of a partition survives a crash.  The writer's files \<open>names\<close> lie in
  the temporary directory.  Wherever the installation stops, the recovery that runs when
  the partition is opened gives either exactly the old files, as long as the manifest is not
  written, or exactly the new files, and it removes the temporary directory.
\<close>

theorem compaction_swap_crash_safe:
  assumes "fs_tmp fs = Some t" and "td_manifest t = None" and "stageable names t"
  shows "fs_tmp (recovered (exec_all (take k (install_ops names fs)) fs)) = None
    \<and> map_of (fs_files (recovered (exec_all (take k (install_ops names fs)) fs)))
      = (if k < length names + 2 then map_of (fs_files fs)
         else (\<lambda>n. if n \<in> set names then map_of (td_files t) n else None))"
proof -
  let ?pre = "prepare_ops names fs" and ?fs1 = "exec_all (prepare_ops names fs) fs"
  have len: "length ?pre = length names + 2" by (simp add: prepare_ops_def stageSwapFiles_def writeManifest_def)
  note p = prepared [OF assms(3,1,2)]
  show ?thesis
  proof (cases "k < length names + 2")
    case True
    have pre: "?pre = (stageSwapFiles names @ [BeginManifest]) @ [WriteManifest (Manifest (dirFileNames fs) names)]"
      by (simp add: prepare_ops_def writeManifest_def)
    have "take k (install_ops names fs) = take k (stageSwapFiles names @ [BeginManifest])"
      using True unfolding install_ops_def pre append.assoc [of "stageSwapFiles names @ [BeginManifest]"] take_append [of k "stageSwapFiles names @ [BeginManifest]"]
      by (simp add: stageSwapFiles_def)
    then show ?thesis
      using True quiet_all [OF list_all_take [OF quiet_stage], of fs k names] assms(1,2)
        recovered_quiet [of "exec_all (take k (install_ops names fs)) fs"]
      by (simp add: no_manifest_def)
  next
    case False
    then obtain j where j: "k = length ?pre + j" using len by (metis le_Suc_ex linorder_not_less)
    have "take k (install_ops names fs) = ?pre @ take j (applyCompactionSwap ?fs1)" by (simp add: install_ops_def j)
    moreover have "swap_target (dirFileNames fs) names ?fs1 = (\<lambda>n. if n \<in> set names then map_of (td_files t) n else None)"
    proof
      fix n
      have "map_of (fs_files fs) n = None" if "n \<notin> set (dirFileNames fs)" using that by (simp add: dirFileNames_def map_of_eq_None_iff)
      then show "swap_target (dirFileNames fs) names ?fs1 n = (if n \<in> set names then map_of (td_files t) n else None)"
        using p(2) p(3) [of n] assms(3) by (auto simp: swap_target_def stageable_def split: option.splits)
    qed
    ultimately show ?thesis using swap_prefix [OF p(1), of j] False by simp
  qed
qed


subsection \<open>A directory in which a compaction is staged\<close>

definition staged_fs :: part_fs where
  "staged_fs = \<lparr>fs_files = [(str ''0.log'', [1, 2, 3]), (str ''0.index'', []), (str ''5.log'', [4])],
     fs_tmp = Some \<lparr>td_files = [(str ''0.log'', [1]), (str ''0.index'', [7])], td_manifest = None\<rparr>\<rparr>"

definition staged_names :: "gostring list" where
  "staged_names = [str ''0.log'', str ''0.index'']"

lemma staged_sample: "stageable staged_names (the (fs_tmp staged_fs))"
  by code_simp

theorem compaction_swap_crash_safe_witness:
  "map_of (fs_files (recovered (exec_all (take 7 (install_ops staged_names staged_fs)) staged_fs))) (str ''0.log'') = Some [1]
    \<and> map_of (fs_files (recovered (exec_all (take 7 (install_ops staged_names staged_fs)) staged_fs))) (str ''5.log'') = None
    \<and> map_of (fs_files (recovered (exec_all (take 3 (install_ops staged_names staged_fs)) staged_fs))) (str ''5.log'') = Some [4]"
proof -
  have t: "fs_tmp staged_fs = Some (the (fs_tmp staged_fs))" "td_manifest (the (fs_tmp staged_fs)) = None" by code_simp+
  note c = compaction_swap_crash_safe [OF t staged_sample]
  have n: "str ''0.log'' \<in> set staged_names" "str ''5.log'' \<notin> set staged_names" "length staged_names = 2"
    "map_of (td_files (the (fs_tmp staged_fs))) (str ''0.log'') = Some [1]" "map_of (fs_files staged_fs) (str ''5.log'') = Some [4]"
    by code_simp+
  then show ?thesis using c [of 7] c [of 3] by simp
qed


end
