(* ===== verification/Rate_Limit.thy ===== *)
theory Rate_Limit
  imports Prelude "HOL-Library.AList"
begin

text \<open>
  The limiter of failed logins (\<^verbatim>\<open>src/internal/ratelimit/ratelimit.go\<close>).  Times and durations
  are in nanoseconds; the clock is an argument of the operations that read it.  A duration is
  a 64-bit integer, so doubling it wraps.
\<close>

subsection \<open>State and operations\<close>

record limit_entry =
  le_failures :: int
  le_next :: int
  le_seen :: int

record Limiter =
  lm_entries :: "(gostring \<times> limit_entry) list"
  lm_freeAttempts :: int
  lm_base :: int
  lm_max :: int
  lm_ttl :: int

text \<open>The zero value of \<^verbatim>\<open>time.Time\<close>, January 1 of the year 1.\<close>

definition time_zero :: int where
  "time_zero = -62135596800000000000"

definition limiter_New :: "int \<Rightarrow> int \<Rightarrow> int \<Rightarrow> Limiter" where
  "limiter_New freeAttempts base maxDelay =
     \<lparr>lm_entries = [], lm_freeAttempts = (if freeAttempts < 0 then 3 else freeAttempts),
      lm_base = (if base \<le> 0 then 1000000000 else base),
      lm_max = (if maxDelay \<le> 0 then 30000000000 else maxDelay), lm_ttl = 900000000000\<rparr>"

definition stale :: "int \<Rightarrow> Limiter \<Rightarrow> limit_entry \<Rightarrow> bool" where
  "stale now l e \<longleftrightarrow> le_seen e < now - lm_ttl l \<and> le_next e < now"

definition pruneLocked :: "int \<Rightarrow> Limiter \<Rightarrow> Limiter" where
  "pruneLocked now l =
     (if length (lm_entries l) < 1024 then l
      else l\<lparr>lm_entries := filter (\<lambda>(k, e). \<not> stale now l e) (lm_entries l)\<rparr>)"

definition Allow :: "int \<Rightarrow> Limiter \<Rightarrow> gostring \<Rightarrow> (bool \<times> int) \<times> Limiter" where
  "Allow now l key =
     (if key = [] then ((True, 0), l)
      else let l1 = pruneLocked now l
           in case map_of (lm_entries l1) key of
                None \<Rightarrow> ((True, 0), l1)
              | Some e \<Rightarrow> if le_next e < now then ((True, 0), l1) else ((False, le_next e - now), l1))"

fun backoff :: "nat \<Rightarrow> int \<Rightarrow> int \<Rightarrow> int" where
  "backoff 0 delay maxDelay = delay"
| "backoff (Suc n) delay maxDelay =
     (let delay' = s64 (delay * 2) in if delay' \<ge> maxDelay then maxDelay else backoff n delay' maxDelay)"

definition Fail :: "int \<Rightarrow> Limiter \<Rightarrow> gostring \<Rightarrow> int \<times> Limiter" where
  "Fail now l key =
     (if key = [] then (0, l)
      else let l1 = pruneLocked now l;
               e0 = (case map_of (lm_entries l1) key of Some e \<Rightarrow> e
                     | None \<Rightarrow> \<lparr>le_failures = 0, le_next = time_zero, le_seen = time_zero\<rparr>);
               e = e0\<lparr>le_failures := le_failures e0 + 1, le_seen := now\<rparr>
           in if le_failures e \<le> lm_freeAttempts l1
              then (0, l1\<lparr>lm_entries := AList.update key e (lm_entries l1)\<rparr>)
              else let delay = backoff (nat (le_failures e - (lm_freeAttempts l1 + 1))) (lm_base l1) (lm_max l1);
                       delay = (if delay > lm_max l1 then lm_max l1 else delay)
                   in (delay, l1\<lparr>lm_entries := AList.update key (e\<lparr>le_next := now + delay\<rparr>) (lm_entries l1)\<rparr>))"

definition Succeed :: "Limiter \<Rightarrow> gostring \<Rightarrow> Limiter" where
  "Succeed l key = (if key = [] then l else l\<lparr>lm_entries := AList.delete key (lm_entries l)\<rparr>)"

definition Failures :: "Limiter \<Rightarrow> gostring \<Rightarrow> int" where
  "Failures l key = (case map_of (lm_entries l) key of Some e \<Rightarrow> le_failures e | None \<Rightarrow> 0)"

subsection \<open>The delay\<close>

lemma backoff_power:
  assumes "0 < d" and "d \<le> m" and "m < 2 ^ 62"
  shows "backoff n d m = min m (d * 2 ^ n)"
  using assms
proof (induction n arbitrary: d)
  case (Suc n)
  have s: "s64 (d * 2) = d * 2" using Suc.prems by (intro s64_id) simp_all
  show ?case
  proof (cases "m \<le> d * 2")
    case True
    have "d * 2 \<le> d * 2 ^ Suc n" using Suc.prems(1) by (intro mult_left_mono) (simp_all add: self_le_power)
    with True s show ?thesis by simp
  next
    case False
    with Suc.IH [of "d * 2"] Suc.prems s show ?thesis by (simp add: mult.assoc)
  qed
qed simp

lemma prune_fields [simp]:
  "lm_freeAttempts (pruneLocked now l) = lm_freeAttempts l" "lm_base (pruneLocked now l) = lm_base l"
  "lm_max (pruneLocked now l) = lm_max l" "lm_ttl (pruneLocked now l) = lm_ttl l"
  by (simp_all add: pruneLocked_def)

lemma map_of_filter_snd:
  assumes "distinct (map fst xs)"
  shows "map_of (filter (\<lambda>(k, e). P e) xs) key = (case map_of xs key of Some e \<Rightarrow> if P e then Some e else None | None \<Rightarrow> None)"
  using assms
proof (induction xs)
  case (Cons x xs)
  obtain k e where x: "x = (k, e)" by fastforce
  have "map_of xs k = None" using Cons.prems x by (auto simp: map_of_eq_None_iff)
  with Cons x show ?case by (cases "key = k") auto
qed simp

text \<open>An entry that is not due yet is never pruned.\<close>

lemma prune_keeps:
  assumes "distinct (map fst (lm_entries l))" and "map_of (lm_entries l) key = Some e" and "t \<le> le_next e"
  shows "map_of (lm_entries (pruneLocked t l)) key = Some e"
  using assms by (simp add: pruneLocked_def stale_def map_of_filter_snd)

definition limiter_ok :: "Limiter \<Rightarrow> bool" where
  "limiter_ok l \<longleftrightarrow> distinct (map fst (lm_entries l)) \<and> 0 < lm_base l \<and> lm_base l \<le> lm_max l \<and> lm_max l < 2 ^ 62
     \<and> 0 \<le> lm_freeAttempts l \<and> (\<forall>k e. map_of (lm_entries l) k = Some e \<longrightarrow> 0 < le_failures e)"

lemma prune_ok: "limiter_ok l \<Longrightarrow> limiter_ok (pruneLocked now l)"
  by (auto simp: limiter_ok_def pruneLocked_def distinct_map_filter map_of_filter_snd split: option.splits if_splits)

lemma limiter_ok_entry: "limiter_ok l \<Longrightarrow> map_of (lm_entries l) key = Some e \<Longrightarrow> 0 < le_failures e"
  by (auto simp: limiter_ok_def)

lemma update_ok: "limiter_ok l \<Longrightarrow> 0 < le_failures e \<Longrightarrow> limiter_ok (l\<lparr>lm_entries := AList.update key e (lm_entries l)\<rparr>)"
  by (auto simp: limiter_ok_def distinct_update update_conv')

lemma Failures_ge: "limiter_ok l \<Longrightarrow> 0 \<le> Failures l key"
  using limiter_ok_entry [of l key] by (fastforce simp: Failures_def split: option.splits)

text \<open>
  C26.  A failed login is answered with an exponential delay.  With \<open>n\<close> failures on record
  (the new one included), the first ones are free; then the delay is the base doubled with
  every further failure and never more than the maximum.  Until the delay has passed, every
  attempt of that key is refused and told the time that is left; right after it is allowed.
\<close>

theorem lockout_delay:
  fixes now :: int
  assumes "limiter_ok l" and "key \<noteq> []"
  defines "n \<equiv> Failures (pruneLocked now l) key + 1"
  shows "\<exists>l'. Fail now l key = (if n \<le> lm_freeAttempts l then 0
        else min (lm_max l) (lm_base l * 2 ^ nat (n - lm_freeAttempts l - 1)), l')
    \<and> limiter_ok l' \<and> Failures l' key = n
    \<and> (lm_freeAttempts l < n \<longrightarrow> (\<forall>t. let until = now + fst (Fail now l key)
         in fst (Allow t l' key) = (if t \<le> until then (False, until - t) else (True, 0))))"
proof -
  let ?l1 = "pruneLocked now l"
  have l1: "limiter_ok ?l1" using assms(1) by (rule prune_ok)
  define e0 where "e0 = (case map_of (lm_entries ?l1) key of Some e \<Rightarrow> e
    | None \<Rightarrow> \<lparr>le_failures = 0, le_next = time_zero, le_seen = time_zero\<rparr>)"
  have n: "le_failures e0 + 1 = n" by (simp add: n_def Failures_def e0_def split: option.splits)
  have n0: "0 < n" using Failures_ge [OF l1, of key] by (simp add: n_def)
  define e where "e = e0\<lparr>le_failures := n, le_seen := now\<rparr>"
  have fields: "0 < lm_base l" "lm_base l \<le> lm_max l" "lm_max l < 2 ^ 62" using assms(1) by (simp_all add: limiter_ok_def)
  define d where "d = min (lm_max l) (lm_base l * 2 ^ nat (n - lm_freeAttempts l - 1))"
  have bk: "backoff (nat (n - (lm_freeAttempts l + 1))) (lm_base l) (lm_max l) = d"
    using backoff_power [OF fields] by (simp add: d_def diff_diff_eq)
  show ?thesis
  proof (cases "n \<le> lm_freeAttempts l")
    case True
    let ?l' = "?l1\<lparr>lm_entries := AList.update key e (lm_entries ?l1)\<rparr>"
    have "Fail now l key = (0, ?l')"
      using assms(2) True n unfolding Fail_def Let_def e0_def [symmetric] by (simp add: e_def)
    moreover have "limiter_ok ?l'" using update_ok [OF l1, of e key] n0 by (simp add: e_def)
    ultimately show ?thesis using True by (intro exI [of _ ?l']) (simp add: Failures_def update_conv' e_def)
  next
    case False
    let ?l' = "?l1\<lparr>lm_entries := AList.update key (e\<lparr>le_next := now + d\<rparr>) (lm_entries ?l1)\<rparr>"
    have fail: "Fail now l key = (d, ?l')"
      using assms(2) False n bk unfolding Fail_def Let_def e0_def [symmetric] by (simp add: e_def d_def)
    have ok: "limiter_ok ?l'" using update_ok [OF l1, of "e\<lparr>le_next := now + d\<rparr>" key] n0 by (simp add: e_def)
    have look: "map_of (lm_entries ?l') key = Some (e\<lparr>le_next := now + d\<rparr>)" by (simp add: update_conv')
    have "fst (Allow t ?l' key) = (if t \<le> now + d then (False, now + d - t) else (True, 0))" for t
    proof (cases "t \<le> now + d")
      case True
      then have "map_of (lm_entries (pruneLocked t ?l')) key = Some (e\<lparr>le_next := now + d\<rparr>)"
        using ok look by (intro prune_keeps) (simp_all add: limiter_ok_def)
      with True assms(2) show ?thesis by (simp add: Allow_def Let_def)
    next
      case False
      have "distinct (map fst (lm_entries ?l'))" using ok by (simp add: limiter_ok_def)
      then have "map_of (lm_entries (pruneLocked t ?l')) key = None
          \<or> map_of (lm_entries (pruneLocked t ?l')) key = Some (e\<lparr>le_next := now + d\<rparr>)"
        using look by (auto simp: pruneLocked_def map_of_filter_snd simp del: map_of_eq_None_iff)
      with False assms(2) show ?thesis by (auto simp: Allow_def Let_def)
    qed
    with fail ok False look show ?thesis by (intro exI [of _ ?l']) (simp add: d_def Failures_def e_def)
  qed
qed

text \<open>The failures and successes of one key do not touch another, and a success clears its key.\<close>

lemma other_keys:
  assumes "key \<noteq> key'" and "length (lm_entries l) < 1024"
  shows "Failures (snd (Fail now l key)) key' = Failures l key'" and "Failures (Succeed l key) key' = Failures l key'"
    and "key \<noteq> [] \<Longrightarrow> Failures (Succeed l key) key = 0"
  using assms by (auto simp: Failures_def Fail_def Succeed_def Let_def update_conv' delete_conv' pruneLocked_def)

theorem lockout_delay_witness:
  "\<exists>l'. Fail 100 (limiter_New 0 5 8) (str ''k'') = (5, l') \<and> fst (Allow 104 l' (str ''k'')) = (False, 1)
     \<and> fst (Allow 106 l' (str ''k'')) = (True, 0)"
proof -
  have k: "str ''k'' \<noteq> []" by code_simp
  have l: "limiter_ok (limiter_New 0 5 8)" by (simp add: limiter_ok_def limiter_New_def)
  have f: "Failures (pruneLocked 100 (limiter_New 0 5 8)) (str ''k'') = 0"
    "lm_freeAttempts (limiter_New 0 5 8) = 0" "lm_max (limiter_New 0 5 8) = 8" "lm_base (limiter_New 0 5 8) = 5"
    by (simp_all add: Failures_def pruneLocked_def limiter_New_def)
  from lockout_delay [OF l k, of 100] obtain l' where
    "Fail 100 (limiter_New 0 5 8) (str ''k'') = (5, l')"
    "\<forall>t. fst (Allow t l' (str ''k'')) = (if t \<le> 105 then (False, 105 - t) else (True, 0))"
    unfolding f by (auto simp: Let_def)
  then show ?thesis by auto
qed

end
