(* ===== verification/Authz.thy ===== *)
theory Authz
  imports Go_Text Durable_Store
begin

text \<open>
  Authorization (\<^verbatim>\<open>src/internal/authz\<close>): operations and what a granted one implies, the rule
  store with its file, and the decision.  The JSON text of the file is the list of rules it
  stands for; \<^verbatim>\<open>atomicfile.Write\<close> either replaces the file or leaves it, which is the argument
  \<open>io\<close>.  Case folding is that of ASCII letters.
\<close>

subsection \<open>Operations\<close>

type_synonym Operation = gostring

definition OpDescribe :: Operation where "OpDescribe = str ''Describe''"
definition OpRead :: Operation where "OpRead = str ''Read''"
definition OpWrite :: Operation where "OpWrite = str ''Write''"
definition OpAdmin :: Operation where "OpAdmin = str ''Admin''"
definition OpControl :: Operation where "OpControl = str ''Control''"

definition KnownOperations :: "Operation list" where
  "KnownOperations = [OpDescribe, OpRead, OpWrite, OpAdmin, OpControl]"

definition lower_byte :: "byte \<Rightarrow> byte" where
  "lower_byte c = (if 65 \<le> c \<and> c \<le> 90 then c + 32 else c)"

definition ToLower :: "gostring \<Rightarrow> gostring" where
  "ToLower s = map lower_byte s"

definition EqualFold :: "gostring \<Rightarrow> gostring \<Rightarrow> bool" where
  "EqualFold a b \<longleftrightarrow> ToLower a = ToLower b"

definition impliedOperations :: "Operation \<Rightarrow> Operation list" where
  "impliedOperations granted =
     (let l = ToLower granted
      in if granted = OpAdmin \<or> l = str ''admin'' then [OpAdmin, OpRead, OpWrite, OpDescribe, OpControl]
         else if granted = OpControl \<or> l = str ''control'' then [OpControl, OpDescribe]
         else if granted = OpWrite \<or> l = str ''write'' then [OpWrite, OpDescribe]
         else if granted = OpRead \<or> l = str ''read'' then [OpRead, OpDescribe]
         else if granted = OpDescribe \<or> l = str ''describe'' then [OpDescribe]
         else [granted])"

definition wildcard :: gostring where
  "wildcard = str ''*''"

definition KnownOperationsSet :: "gostring \<Rightarrow> bool" where
  "KnownOperationsSet s \<longleftrightarrow> s = wildcard \<or> s \<in> set KnownOperations"

definition containsOperation :: "gostring list \<Rightarrow> Operation \<Rightarrow> bool" where
  "containsOperation ops opn \<longleftrightarrow>
     list_ex (\<lambda>g. g = wildcard \<or> list_ex (\<lambda>granted. EqualFold granted opn) (impliedOperations g)) ops"

subsection \<open>Resources and rules\<close>

record Resource =
  rs_Type :: gostring
  rs_Name :: gostring

definition resource_types :: "gostring list" where
  "resource_types = [str ''topic'', str ''group'', str ''cluster'', str ''fleet_server'', str ''fleet_container'',
     str ''fleet_job'', str ''fleet_audit'']"

definition KnownResourceType :: "gostring \<Rightarrow> bool" where
  "KnownResourceType t \<longleftrightarrow> ToLower (TrimSpace t) \<in> set (wildcard # resource_types)"

definition normalizeResourceType :: "gostring \<Rightarrow> gostring res" where
  "normalizeResourceType t =
     (let l = ToLower (TrimSpace t)
      in if l \<in> set resource_types then Inr l
         else if l = wildcard \<or> l = [] then Inr wildcard
         else Inl (Errorf ''unknown resource type''))"

record Rule =
  ru_Principal :: gostring
  ru_ResourceType :: gostring
  ru_ResourceName :: gostring
  ru_Operations :: "gostring list"

definition AnonymPrincipal :: gostring where
  "AnonymPrincipal = str ''anonymous''"

definition ValidateRule :: "Rule \<Rightarrow> unit res" where
  "ValidateRule r =
     (if TrimSpace (ru_Principal r) = [] then Inl (Errorf ''rule principal must not be empty'')
      else let rt = TrimSpace (ru_ResourceType r)
           in if rt \<noteq> [] \<and> \<not> KnownResourceType (ToLower rt) then Inl (Errorf ''unknown resource type'')
              else if \<not> list_all (\<lambda>g. KnownOperationsSet (TrimSpace g)) (ru_Operations r) then Inl (Errorf ''unknown operation'')
              else Inr ())"

definition sameKey :: "Rule \<Rightarrow> Rule \<Rightarrow> bool" where
  "sameKey a b \<longleftrightarrow> ru_Principal a = ru_Principal b \<and> ru_ResourceType a = ru_ResourceType b
     \<and> ru_ResourceName a = ru_ResourceName b"

definition grantsWildcardAdmin :: "Rule \<Rightarrow> bool" where
  "grantsWildcardAdmin r \<longleftrightarrow> ru_Principal r = wildcard \<and> containsOperation (ru_Operations r) OpAdmin"

subsection \<open>The rule store\<close>

record AclStore =
  acl_path :: bool
  acl_file :: "Rule list option"
  acl_rules :: "Rule list"
  acl_allowWildcardAdmin :: bool

definition SetAllowWildcardAdmin :: "bool \<Rightarrow> AclStore \<Rightarrow> AclStore" where
  "SetAllowWildcardAdmin b s = s\<lparr>acl_allowWildcardAdmin := b\<rparr>"

definition WildcardAdminRules :: "AclStore \<Rightarrow> Rule list" where
  "WildcardAdminRules s = filter grantsWildcardAdmin (acl_rules s)"

definition wildcardAdminErr :: "AclStore \<Rightarrow> Rule \<Rightarrow> bool" where
  "wildcardAdminErr s r \<longleftrightarrow> grantsWildcardAdmin r \<and> \<not> acl_allowWildcardAdmin s"

definition acl_NewStore :: "bool \<Rightarrow> Rule list option \<Rightarrow> AclStore" where
  "acl_NewStore path file =
     \<lparr>acl_path = path, acl_file = file,
      acl_rules = (if path then (case file of Some rules \<Rightarrow> rules | None \<Rightarrow> []) else []), acl_allowWildcardAdmin = False\<rparr>"

definition acl_persist :: "bool \<Rightarrow> AclStore \<Rightarrow> unit res \<times> AclStore" where
  "acl_persist io s =
     (if \<not> acl_path s then (Inr (), s)
      else if io then (Inr (), s\<lparr>acl_file := Some (acl_rules s)\<rparr>) else (Inl IOError, s))"

fun upsert_rule :: "Rule \<Rightarrow> Rule list \<Rightarrow> Rule list" where
  "upsert_rule r [] = [r]"
| "upsert_rule r (x # xs) = (if sameKey x r then r # xs else x # upsert_rule r xs)"

definition default_name :: "Rule \<Rightarrow> Rule" where
  "default_name r = (if TrimSpace (ru_ResourceName r) = [] then r\<lparr>ru_ResourceName := wildcard\<rparr> else r)"

definition Upsert :: "bool \<Rightarrow> AclStore \<Rightarrow> Rule \<Rightarrow> unit res \<times> AclStore" where
  "Upsert io s r =
     (case ValidateRule r of
        Inl e \<Rightarrow> (Inl e, s)
      | Inr _ \<Rightarrow>
          if wildcardAdminErr s r then (Inl (Errorf ''wildcard admin''), s)
          else acl_persist io (s\<lparr>acl_rules := upsert_rule (default_name r) (acl_rules s)\<rparr>))"

definition acl_Delete :: "bool \<Rightarrow> AclStore \<Rightarrow> gostring \<Rightarrow> gostring \<Rightarrow> gostring \<Rightarrow> unit res \<times> AclStore" where
  "acl_Delete io s princ resourceType resourceName =
     (case normalizeResourceType resourceType of
        Inl e \<Rightarrow> (Inl e, s)
      | Inr rt \<Rightarrow>
          acl_persist io (s\<lparr>acl_rules := filter (\<lambda>r. \<not> (ru_Principal r = princ \<and> ru_ResourceType r = rt
            \<and> ru_ResourceName r = resourceName)) (acl_rules s)\<rparr>))"

fun replace_rules :: "bool \<Rightarrow> Rule list \<Rightarrow> Rule list res" where
  "replace_rules allow [] = Inr []"
| "replace_rules allow (r # rules) =
     res_bind (ValidateRule r) (\<lambda>_.
     if ru_Principal r = wildcard \<and> \<not> allow \<and> containsOperation (ru_Operations r) OpAdmin
     then Inl (Errorf ''wildcard admin'')
     else res_bind (normalizeResourceType (ru_ResourceType r)) (\<lambda>rt.
          res_bind (replace_rules allow rules) (\<lambda>rest.
          Inr (default_name (r\<lparr>ru_ResourceType := rt\<rparr>) # rest))))"

definition acl_Replace :: "bool \<Rightarrow> AclStore \<Rightarrow> Rule list \<Rightarrow> unit res \<times> AclStore" where
  "acl_Replace io s rules =
     (case replace_rules (acl_allowWildcardAdmin s) rules of
        Inl e \<Rightarrow> (Inl e, s)
      | Inr rules' \<Rightarrow> acl_persist io (s\<lparr>acl_rules := rules'\<rparr>))"

subsection \<open>The decision\<close>

definition principalMatches :: "gostring \<Rightarrow> gostring \<Rightarrow> bool" where
  "principalMatches rulePrincipal princ \<longleftrightarrow> rulePrincipal = princ \<or> rulePrincipal = wildcard"

text \<open>The loop over the rules: None when an exact rule grants, else the two flags.\<close>

fun authorize_loop :: "gostring \<Rightarrow> Operation \<Rightarrow> Resource \<Rightarrow> Rule list \<Rightarrow> bool \<Rightarrow> bool \<Rightarrow> (bool \<times> bool) option" where
  "authorize_loop princ opn res [] exactExists wildcardGrant = Some (exactExists, wildcardGrant)"
| "authorize_loop princ opn res (r # rules) exactExists wildcardGrant =
     (if \<not> principalMatches (ru_Principal r) princ
         \<or> ru_ResourceType r \<noteq> rs_Type res \<and> ru_ResourceType r \<noteq> wildcard
         \<or> ru_ResourceName r \<noteq> rs_Name res \<and> ru_ResourceName r \<noteq> wildcard
      then authorize_loop princ opn res rules exactExists wildcardGrant
      else let grant = containsOperation (ru_Operations r) opn
           in if ru_ResourceType r = rs_Type res \<and> ru_ResourceName r = rs_Name res
              then if grant then None else authorize_loop princ opn res rules True wildcardGrant
              else authorize_loop princ opn res rules exactExists (wildcardGrant \<or> grant))"

definition acl_Authorize :: "AclStore \<Rightarrow> gostring \<Rightarrow> Operation \<Rightarrow> Resource \<Rightarrow> bool" where
  "acl_Authorize s princ opn res \<longleftrightarrow>
     princ \<noteq> [] \<and>
     (case authorize_loop princ opn res (acl_rules s) False False of
        None \<Rightarrow> True
      | Some (exactExists, wildcardGrant) \<Rightarrow> \<not> exactExists \<and> wildcardGrant)"

definition acl_CanDescribeAny :: "AclStore \<Rightarrow> gostring \<Rightarrow> gostring \<Rightarrow> bool" where
  "acl_CanDescribeAny s princ resourceType \<longleftrightarrow>
     princ \<noteq> [] \<and> list_ex (\<lambda>r. principalMatches (ru_Principal r) princ
       \<and> (ru_ResourceType r = resourceType \<or> ru_ResourceType r = wildcard)
       \<and> containsOperation (ru_Operations r) OpDescribe) (acl_rules s)"

subsection \<open>Authorizers\<close>

text \<open>
  The interface \<^verbatim>\<open>Authorizer\<close>: everything is allowed, a rule store, or super users in front of
  another authorizer.
\<close>

datatype Authorizer = AllowAllAuthorizer | StoreAuthorizer AclStore | SuperUserAuthorizer Authorizer "gostring list"

definition NewSuperUserAuthorizer :: "Authorizer \<Rightarrow> gostring list \<Rightarrow> Authorizer" where
  "NewSuperUserAuthorizer inner users =
     (let us = filter (\<lambda>u. u \<noteq> []) (map TrimSpace users)
      in if us = [] then inner else SuperUserAuthorizer inner us)"

fun Authorize :: "Authorizer \<Rightarrow> gostring \<Rightarrow> Operation \<Rightarrow> Resource \<Rightarrow> bool" where
  "Authorize AllowAllAuthorizer princ opn res \<longleftrightarrow> True"
| "Authorize (StoreAuthorizer s) princ opn res \<longleftrightarrow> acl_Authorize s princ opn res"
| "Authorize (SuperUserAuthorizer inner users) princ opn res \<longleftrightarrow>
     princ \<noteq> [] \<and> princ \<in> set users \<or> Authorize inner princ opn res"

fun CanDescribeAny :: "Authorizer \<Rightarrow> gostring \<Rightarrow> gostring \<Rightarrow> bool" where
  "CanDescribeAny AllowAllAuthorizer princ resourceType \<longleftrightarrow> False"
| "CanDescribeAny (StoreAuthorizer s) princ resourceType \<longleftrightarrow> acl_CanDescribeAny s princ resourceType"
| "CanDescribeAny (SuperUserAuthorizer inner users) princ resourceType \<longleftrightarrow>
     princ \<noteq> [] \<and> princ \<in> set users \<or> CanDescribeAny inner princ resourceType"

subsection \<open>What is decided\<close>

definition applies :: "gostring \<Rightarrow> Resource \<Rightarrow> Rule \<Rightarrow> bool" where
  "applies princ res r \<longleftrightarrow> principalMatches (ru_Principal r) princ
     \<and> (ru_ResourceType r = rs_Type res \<or> ru_ResourceType r = wildcard)
     \<and> (ru_ResourceName r = rs_Name res \<or> ru_ResourceName r = wildcard)"

definition exact :: "Resource \<Rightarrow> Rule \<Rightarrow> bool" where
  "exact res r \<longleftrightarrow> ru_ResourceType r = rs_Type res \<and> ru_ResourceName r = rs_Name res"

lemma authorize_loop_spec:
  "authorize_loop princ opn res rules ex wg =
     (if \<exists>r \<in> set rules. applies princ res r \<and> exact res r \<and> containsOperation (ru_Operations r) opn then None
      else Some (ex \<or> (\<exists>r \<in> set rules. applies princ res r \<and> exact res r),
        wg \<or> (\<exists>r \<in> set rules. applies princ res r \<and> \<not> exact res r \<and> containsOperation (ru_Operations r) opn)))"
proof (induction rules arbitrary: ex wg)
  case (Cons r rules)
  show ?case
  proof (cases "applies princ res r")
    case False
    then have "authorize_loop princ opn res (r # rules) ex wg = authorize_loop princ opn res rules ex wg"
      by (auto simp: applies_def)
    with False Cons.IH show ?thesis by (auto simp del: authorize_loop.simps)
  next
    case True
    then have "authorize_loop princ opn res (r # rules) ex wg =
        (if exact res r then if containsOperation (ru_Operations r) opn then None
           else authorize_loop princ opn res rules True wg
         else authorize_loop princ opn res rules ex (wg \<or> containsOperation (ru_Operations r) opn))"
      by (auto simp: applies_def exact_def Let_def)
    with True Cons.IH show ?thesis by (auto simp del: authorize_loop.simps)
  qed
qed simp

text \<open>
  C21.  The decision of the rule store does not depend on the order of the rules.  A named
  principal is allowed an operation exactly if a rule for just that resource grants it, or
  no rule for just that resource applies to the principal and one with a wildcard grants it;
  without a principal nothing is allowed.
\<close>

theorem authorize_precedence:
  "acl_Authorize s princ opn res \<longleftrightarrow>
     princ \<noteq> [] \<and>
     (let rules = {r \<in> set (acl_rules s). applies princ res r};
          grants = {r \<in> rules. containsOperation (ru_Operations r) opn}
      in if \<exists>r \<in> rules. exact res r then \<exists>r \<in> grants. exact res r else grants \<noteq> {})"
  unfolding acl_Authorize_def authorize_loop_spec by auto

definition sample_rule :: "gostring \<Rightarrow> gostring \<Rightarrow> gostring list \<Rightarrow> Rule" where
  "sample_rule princ t ops = \<lparr>ru_Principal = princ, ru_ResourceType = t, ru_ResourceName = wildcard, ru_Operations = ops\<rparr>"

theorem authorize_precedence_witness:
  "let s = acl_NewStore True (Some [sample_rule wildcard (str ''topic'') [OpRead],
       (sample_rule (str ''alice'') (str ''topic'') [OpWrite])\<lparr>ru_ResourceName := str ''t''\<rparr>])
   in \<not> acl_Authorize s (str ''alice'') OpRead \<lparr>rs_Type = str ''topic'', rs_Name = str ''t''\<rparr>
      \<and> acl_Authorize s (str ''bob'') OpRead \<lparr>rs_Type = str ''topic'', rs_Name = str ''t''\<rparr>"
  unfolding Let_def authorize_precedence by code_simp

subsection \<open>The store over its lifetime\<close>

datatype acl_event = AclUpsert Rule | AclDelete gostring gostring gostring | AclReplace "Rule list"

definition exec_acl :: "acl_event \<Rightarrow> AclStore \<Rightarrow> AclStore" where
  "exec_acl ev s =
     snd (case ev of AclUpsert r \<Rightarrow> Upsert True s r | AclDelete princ t n \<Rightarrow> acl_Delete True s princ t n
          | AclReplace rules \<Rightarrow> acl_Replace True s rules)"

text \<open>The rules each operation leaves, when wildcard administrators are not allowed.\<close>

definition spec_acl :: "acl_event \<Rightarrow> Rule list \<Rightarrow> Rule list" where
  "spec_acl ev rules =
     (case ev of
        AclUpsert r \<Rightarrow>
          if ValidateRule r = Inr () \<and> \<not> grantsWildcardAdmin r then upsert_rule (default_name r) rules else rules
      | AclDelete princ t n \<Rightarrow>
          (case normalizeResourceType t of Inl _ \<Rightarrow> rules
           | Inr rt \<Rightarrow> filter (\<lambda>r. \<not> (ru_Principal r = princ \<and> ru_ResourceType r = rt \<and> ru_ResourceName r = n)) rules)
      | AclReplace new \<Rightarrow> (case replace_rules False new of Inl _ \<Rightarrow> rules | Inr rules' \<Rightarrow> rules'))"

definition acl_ok :: "AclStore \<Rightarrow> bool" where
  "acl_ok s \<longleftrightarrow> acl_path s \<and> \<not> acl_allowWildcardAdmin s
     \<and> acl_rules s = (case acl_file s of Some rules \<Rightarrow> rules | None \<Rightarrow> [])"

definition reopen_acl :: "AclStore \<Rightarrow> AclStore res" where
  "reopen_acl s = Inr (SetAllowWildcardAdmin False (acl_NewStore (acl_path s) (acl_file s)))"

interpretation acl_store: durable_store acl_ok acl_rules "\<lambda>_. True" exec_acl spec_acl reopen_acl
proof
  fix s e
  assume "acl_ok s"
  then show "acl_ok (exec_acl e s)" and "acl_rules (exec_acl e s) = spec_acl e (acl_rules s)"
    by (auto simp: acl_ok_def exec_acl_def spec_acl_def Upsert_def acl_Delete_def acl_Replace_def acl_persist_def
        wildcardAdminErr_def split: acl_event.splits sum.splits)
next
  fix s
  assume "acl_ok s"
  then show "\<exists>s'. reopen_acl s = Inr s' \<and> acl_ok s' \<and> acl_rules s' = acl_rules s"
    by (simp add: reopen_acl_def acl_ok_def acl_NewStore_def SetAllowWildcardAdmin_def)
qed

lemma upsert_set: "set (upsert_rule r rules) \<subseteq> insert r (set rules)"
  by (induction rules) auto

lemma default_name_same [simp]: "ru_Principal (default_name r) = ru_Principal r" "ru_Operations (default_name r) = ru_Operations r"
  by (simp_all add: default_name_def)

lemma replace_no_wildcard: "replace_rules False rules = Inr rules' \<Longrightarrow> r \<in> set rules' \<Longrightarrow> \<not> grantsWildcardAdmin r"
proof (induction rules arbitrary: rules')
  case (Cons x rules)
  then show ?case by (auto simp: res_bind_eq_Inr grantsWildcardAdmin_def split: if_splits)
qed simp

lemma spec_no_wildcard:
  assumes "\<forall>r \<in> set rules. \<not> grantsWildcardAdmin r"
  shows "\<forall>r \<in> set (spec_acl ev rules). \<not> grantsWildcardAdmin r"
proof (cases ev)
  case (AclUpsert r)
  then show ?thesis
    using assms upsert_set [of "default_name r" rules] by (auto simp: spec_acl_def grantsWildcardAdmin_def)
next
  case (AclReplace new)
  then show ?thesis
    using assms replace_no_wildcard [of new] by (auto simp: spec_acl_def split: sum.splits)
qed (use assms in \<open>auto simp: spec_acl_def split: sum.splits\<close>)

lemma spec_events_no_wildcard:
  "\<forall>r \<in> set rules. \<not> grantsWildcardAdmin r \<Longrightarrow> \<forall>r \<in> set (spec_events spec_acl evs rules). \<not> grantsWildcardAdmin r"
proof (induction evs arbitrary: rules)
  case (Cons ev evs)
  show ?case
  proof (cases ev)
    case (Op e)
    with Cons.IH [OF spec_no_wildcard [OF Cons.prems]] show ?thesis by simp
  qed (use Cons in simp)
qed simp



text \<open>
  A rule whose resource type is spelled with capitals is accepted by \<^verbatim>\<open>Upsert\<close>, stored as it
  is and never applies.
\<close>

lemma capitalised_rule_ignored:
  "let r = sample_rule (str ''alice'') (str ''Topic'') [OpRead]; s = snd (Upsert True (acl_NewStore True None) r)
   in fst (Upsert True (acl_NewStore True None) r) = Inr ()
      \<and> \<not> acl_Authorize s (str ''alice'') OpRead \<lparr>rs_Type = str ''topic'', rs_Name = str ''t''\<rparr>"
  by code_simp

end
