(* ===== verification/Topic_Store.thy ===== *)
theory Topic_Store
  imports Batch_Log "HOL-Library.AList"
begin

text \<open>
  The topics of a broker (\<^verbatim>\<open>src/internal/storage/store.go\<close> and \<^verbatim>\<open>manifest.go\<close>): opening the data
  directory, creating, finding and deleting topics, and the list of compacted topics with its
  file.  The Go maps are association lists.  A partition that is created gets an empty
  directory: one that a topic of that name had before was opened with the store or removed
  with the topic.  The JSON text of the manifest is the list of names it stands for.
\<close>

subsection \<open>State\<close>

type_synonym Topic = "(int32 \<times> Partition) list"

record Store =
  st_topics :: "(gostring \<times> Topic) list"
  st_compacted :: "gostring list"
  st_manifest :: "gostring list option"
  st_maxSegmentBytes :: int
  st_indexInterval :: int

text \<open>The data directory: for every topic the partition directories whose names are numbers.\<close>

type_synonym data_dir = "(gostring \<times> (int32 \<times> part_dir) list) list"

subsection \<open>Opening\<close>

fun open_partitions :: "int \<Rightarrow> int \<Rightarrow> (int32 \<times> part_dir) list \<Rightarrow> Topic \<Rightarrow> Topic res" where
  "open_partitions m i [] t = Inr t"
| "open_partitions m i ((pid, dir) # dirs) t =
     res_bind (part_recover dir m i) (\<lambda>p. open_partitions m i dirs (AList.update pid p t))"

fun store_recover :: "data_dir \<Rightarrow> Store \<Rightarrow> Store res" where
  "store_recover [] s = Inr s"
| "store_recover ((name, dirs) # rest) s =
     res_bind (open_partitions (st_maxSegmentBytes s) (st_indexInterval s) dirs []) (\<lambda>t.
       store_recover rest (if t \<noteq> [] then s\<lparr>st_topics := AList.update name t (st_topics s)\<rparr> else s))"

definition loadManifest :: "Store \<Rightarrow> Store" where
  "loadManifest s = (case st_manifest s of None \<Rightarrow> s | Some names \<Rightarrow> s\<lparr>st_compacted := remdups names\<rparr>)"

definition store_NewStore :: "data_dir \<Rightarrow> gostring list option \<Rightarrow> int \<Rightarrow> int \<Rightarrow> Store res" where
  "store_NewStore dirs manifest maxSegmentBytes indexInterval =
     res_bind (store_recover dirs \<lparr>st_topics = [], st_compacted = [], st_manifest = manifest,
         st_maxSegmentBytes = maxSegmentBytes, st_indexInterval = indexInterval\<rparr>)
       (\<lambda>s. Inr (loadManifest s))"

subsection \<open>Topics\<close>

definition bad_name_byte :: "byte \<Rightarrow> bool" where
  "bad_name_byte c \<longleftrightarrow> c = 47 \<or> c = 92 \<or> c = 58 \<or> c = 32 \<or> c < 32 \<or> c = 127"

definition ValidateTopicName :: "gostring \<Rightarrow> unit res" where
  "ValidateTopicName name =
     (if name = [] then Inl (Errorf ''topic name is empty'')
      else if name = str ''.'' \<or> name = str ''..'' then Inl (Errorf ''invalid topic name'')
      else if length name > 249 then Inl (Errorf ''topic name too long'')
      else if list_ex bad_name_byte name then Inl (Errorf ''invalid character in topic name'')
      else Inr ())"

fun create_partitions :: "int \<Rightarrow> int \<Rightarrow> nat \<Rightarrow> nat \<Rightarrow> Topic \<Rightarrow> Topic res" where
  "create_partitions m i k 0 t = Inr t"
| "create_partitions m i k (Suc n) t =
     res_bind (part_recover [] m i) (\<lambda>p. create_partitions m i (Suc k) n (AList.update (of_nat k) p t))"

definition createLocked :: "Store \<Rightarrow> gostring \<Rightarrow> int \<Rightarrow> Topic res \<times> Store" where
  "createLocked s name partitions =
     (case create_partitions (st_maxSegmentBytes s) (st_indexInterval s) 0 (nat partitions) [] of
        Inl e \<Rightarrow> (Inl e, s)
      | Inr t \<Rightarrow> (Inr t, s\<lparr>st_topics := AList.update name t (st_topics s)\<rparr>))"

definition EnsureTopic :: "Store \<Rightarrow> gostring \<Rightarrow> int \<Rightarrow> (Topic \<times> bool) res \<times> Store" where
  "EnsureTopic s name partitions =
     (case ValidateTopicName name of
        Inl e \<Rightarrow> (Inl e, s)
      | Inr _ \<Rightarrow>
          (let n = (if partitions \<le> 0 then 1 else partitions)
           in case map_of (st_topics s) name of
                Some t \<Rightarrow> (Inr (t, False), s)
              | None \<Rightarrow> (case createLocked s name n of
                           (Inl e, s') \<Rightarrow> (Inl e, s')
                         | (Inr t, s') \<Rightarrow> (Inr (t, True), s'))))"

definition CreateTopic :: "Store \<Rightarrow> gostring \<Rightarrow> int \<Rightarrow> Topic res \<times> Store" where
  "CreateTopic s name partitions =
     (case ValidateTopicName name of
        Inl e \<Rightarrow> (Inl e, s)
      | Inr _ \<Rightarrow>
          if map_of (st_topics s) name \<noteq> None then (Inl (Errorf ''topic already exists''), s)
          else createLocked s name (if partitions \<le> 0 then 1 else partitions))"

definition DeleteTopic :: "Store \<Rightarrow> gostring \<Rightarrow> unit res \<times> Store" where
  "DeleteTopic s name =
     (case map_of (st_topics s) name of
        None \<Rightarrow> (Inl (Errorf ''unknown topic''), s)
      | Some t \<Rightarrow> (Inr (), s\<lparr>st_topics := AList.delete name (st_topics s)\<rparr>))"

definition GetTopic :: "Store \<Rightarrow> gostring \<Rightarrow> Topic option" where
  "GetTopic s name = map_of (st_topics s) name"

definition GetPartition :: "Store \<Rightarrow> gostring \<Rightarrow> int32 \<Rightarrow> Partition option" where
  "GetPartition s topic partn = (case map_of (st_topics s) topic of None \<Rightarrow> None | Some t \<Rightarrow> map_of t partn)"

text \<open>A partition changes in place: the store with the new state of one partition.\<close>

definition put_partition :: "gostring \<Rightarrow> int32 \<Rightarrow> Partition \<Rightarrow> Store \<Rightarrow> Store" where
  "put_partition topic partn p s =
     s\<lparr>st_topics := map (\<lambda>(name, t). (name, if name = topic then AList.update partn p t else t)) (st_topics s)\<rparr>"

fun bytes_le :: "bytes \<Rightarrow> bytes \<Rightarrow> bool" where
  "bytes_le [] ys \<longleftrightarrow> True"
| "bytes_le (x # xs) [] \<longleftrightarrow> False"
| "bytes_le (x # xs) (y # ys) \<longleftrightarrow> x < y \<or> x = y \<and> bytes_le xs ys"

fun insert_string :: "gostring \<Rightarrow> gostring list \<Rightarrow> gostring list" where
  "insert_string x [] = [x]"
| "insert_string x (y # ys) = (if bytes_le x y then x # y # ys else y # insert_string x ys)"

definition TopicNames :: "Store \<Rightarrow> gostring list" where
  "TopicNames s = foldr insert_string (map fst (st_topics s)) []"

definition SyncAll :: "int \<Rightarrow> Store \<Rightarrow> Store" where
  "SyncAll now s = s\<lparr>st_topics := map (\<lambda>(name, t). (name, map (\<lambda>(k, p). (k, part_Sync now p)) t)) (st_topics s)\<rparr>"

subsection \<open>Compacted topics\<close>

definition IsCompacted :: "Store \<Rightarrow> gostring \<Rightarrow> bool" where
  "IsCompacted s topic \<longleftrightarrow> topic \<in> set (st_compacted s)"

definition saveManifest :: "bool \<Rightarrow> Store \<Rightarrow> unit res \<times> Store" where
  "saveManifest io s = (if io then (Inr (), s\<lparr>st_manifest := Some (st_compacted s)\<rparr>) else (Inl IOError, s))"

definition MarkCompacted :: "bool \<Rightarrow> Store \<Rightarrow> gostring \<Rightarrow> bool \<Rightarrow> unit res \<times> Store" where
  "MarkCompacted io s topic compact =
     saveManifest io (s\<lparr>st_compacted :=
       (if compact then List.insert topic (st_compacted s) else filter (\<lambda>n. n \<noteq> topic) (st_compacted s))\<rparr>)"

subsection \<open>Well-formed stores\<close>

text \<open>
  What is on disk for a store, and a store whose partitions are well-formed and have the
  store's settings.
\<close>

definition store_dirs :: "Store \<Rightarrow> data_dir" where
  "store_dirs s = map (\<lambda>(name, t). (name, map (\<lambda>(k, p). (k, part_files p)) t)) (st_topics s)"

definition part_good :: "Store \<Rightarrow> Partition \<Rightarrow> bool" where
  "part_good s p \<longleftrightarrow> (\<exists>bss. part_ok p bss) \<and> p_maxSegmentBytes p = st_maxSegmentBytes s
     \<and> p_indexInterval p = st_indexInterval s"

definition topics_ok :: "Store \<Rightarrow> bool" where
  "topics_ok s \<longleftrightarrow> distinct (map fst (st_topics s)) \<and> 0 < st_maxSegmentBytes s
     \<and> (\<forall>(name, t) \<in> set (st_topics s). t \<noteq> [] \<and> distinct (map fst t) \<and> (\<forall>(k, p) \<in> set t. part_good s p))"

lemma put_partition_get:
  assumes "GetPartition s topic partn = Some q"
  shows "GetPartition (put_partition topic partn p s) topic' partn' =
    (if topic' = topic \<and> partn' = partn then Some p else GetPartition s topic' partn')"
proof -
  have "map_of (map (\<lambda>(name, t). (name, if name = topic then f t else t)) ts) n
      = map_option (\<lambda>t. if n = topic then f t else t) (map_of ts n)" for f :: "Topic \<Rightarrow> Topic" and ts n
    by (induction ts) auto
  then show ?thesis using assms by (auto simp: GetPartition_def put_partition_def update_conv' split: option.splits)
qed

subsection \<open>Opening a data directory again\<close>

definition reopened :: "Partition \<Rightarrow> Partition \<Rightarrow> bool" where
  "reopened p p' \<longleftrightarrow> (\<forall>bss. part_ok p bss \<longrightarrow> part_ok p' bss) \<and> p_nextOffset p' = p_nextOffset p \<and> log_start p' = log_start p"

lemma part_recover_reopened:
  assumes "part_good s p"
  obtains p' where "part_recover (part_files p) (st_maxSegmentBytes s) (st_indexInterval s) = Inr p'" "reopened p p'"
proof -
  obtain bss where ok: "part_ok p bss" using assms by (auto simp: part_good_def)
  have f: "p_maxSegmentBytes p = st_maxSegmentBytes s" "p_indexInterval p = st_indexInterval s"
    using assms by (simp_all add: part_good_def)
  from part_recover_ok [OF ok] f obtain p' where
    p': "part_recover (part_files p) (st_maxSegmentBytes s) (st_indexInterval s) = Inr p'"
    "log_start p' = log_start p" "p_nextOffset p' = p_nextOffset p" by auto
  moreover have "part_ok p' cs" if "part_ok p cs" for cs
    using part_recover_ok [OF that] f p'(1) by auto
  ultimately show thesis using that by (auto simp: reopened_def)
qed

lemma open_partitions_ok:
  assumes "distinct (map fst ps)" and "\<forall>(k, p) \<in> set ps. part_good s p"
  shows "\<exists>t'. open_partitions (st_maxSegmentBytes s) (st_indexInterval s) (map (\<lambda>(k, p). (k, part_files p)) ps) t = Inr t'
    \<and> (\<forall>k. case map_of ps k of None \<Rightarrow> map_of t' k = map_of t k
          | Some p \<Rightarrow> \<exists>p'. map_of t' k = Some p' \<and> reopened p p')
    \<and> (t' = [] \<longrightarrow> ps = [])"
  using assms
proof (induction ps arbitrary: t)
  case (Cons x ps)
  obtain k p where x: "x = (k, p)" by fastforce
  then have "part_good s p" using Cons.prems(2) by simp
  from part_recover_reopened [OF this] obtain p' where
    p': "part_recover (part_files p) (st_maxSegmentBytes s) (st_indexInterval s) = Inr p'" "reopened p p'" by blast
  from Cons.IH [of "AList.update k p' t"] Cons.prems obtain t' where
    t': "open_partitions (st_maxSegmentBytes s) (st_indexInterval s) (map (\<lambda>(k, p). (k, part_files p)) ps) (AList.update k p' t) = Inr t'"
    "\<forall>j. case map_of ps j of None \<Rightarrow> map_of t' j = map_of (AList.update k p' t) j
          | Some q \<Rightarrow> \<exists>q'. map_of t' j = Some q' \<and> reopened q q'" by auto
  have none: "map_of ps k = None" using Cons.prems(1) x by (auto simp: map_of_eq_None_iff)
  then have k: "map_of t' k = Some p'" using t'(2) [rule_format, of k] by (simp add: update_conv')
  have "case map_of (x # ps) j of None \<Rightarrow> map_of t' j = map_of t j | Some q \<Rightarrow> \<exists>q'. map_of t' j = Some q' \<and> reopened q q'" for j
    using t'(2) [rule_format, of j] k p'(2) x by (cases "j = k") (auto simp: update_conv' split: option.splits)
  with t'(1) p'(1) x k show ?case by auto
qed simp

lemma store_recover_ok:
  assumes "distinct (map fst ts)" and "0 < st_maxSegmentBytes s"
    and "\<forall>(name, t) \<in> set ts. t \<noteq> [] \<and> distinct (map fst t) \<and> (\<forall>(k, p) \<in> set t. part_good s p)"
  shows "\<exists>s'. store_recover (map (\<lambda>(name, t). (name, map (\<lambda>(k, p). (k, part_files p)) t)) ts) s = Inr s'
    \<and> (\<forall>name k. case map_of ts name of None \<Rightarrow> GetPartition s' name k = GetPartition s name k
        | Some t \<Rightarrow> (case map_of t k of None \<Rightarrow> GetPartition s' name k = None
            | Some p \<Rightarrow> \<exists>p'. GetPartition s' name k = Some p' \<and> reopened p p'))
    \<and> st_manifest s' = st_manifest s \<and> st_compacted s' = st_compacted s"
  using assms
proof (induction ts arbitrary: s)
  case (Cons x ts)
  obtain name t where x: "x = (name, t)" by fastforce
  then have t: "t \<noteq> []" "distinct (map fst t)" "\<forall>(k, p) \<in> set t. part_good s p" using Cons.prems(3) by auto
  from open_partitions_ok [OF t(2,3), of "[]"] t(1) obtain t' where
    t': "open_partitions (st_maxSegmentBytes s) (st_indexInterval s) (map (\<lambda>(k, p). (k, part_files p)) t) [] = Inr t'"
    "\<forall>k. case map_of t k of None \<Rightarrow> map_of t' k = None | Some p \<Rightarrow> \<exists>p'. map_of t' k = Some p' \<and> reopened p p'"
    "t' \<noteq> []" by (auto cong: option.case_cong)
  define s1 where "s1 = s\<lparr>st_topics := AList.update name t' (st_topics s)\<rparr>"
  have good: "part_good s1 = part_good s" by (simp add: part_good_def s1_def fun_eq_iff)
  from Cons.IH [of s1] Cons.prems obtain s' where
    s': "store_recover (map (\<lambda>(name, t). (name, map (\<lambda>(k, p). (k, part_files p)) t)) ts) s1 = Inr s'"
    "\<forall>n k. case map_of ts n of None \<Rightarrow> GetPartition s' n k = GetPartition s1 n k
        | Some t \<Rightarrow> (case map_of t k of None \<Rightarrow> GetPartition s' n k = None
            | Some p \<Rightarrow> \<exists>p'. GetPartition s' n k = Some p' \<and> reopened p p')"
    "st_manifest s' = st_manifest s" "st_compacted s' = st_compacted s"
    unfolding good by (auto simp: s1_def)
  have none: "map_of ts name = None" using Cons.prems(1) x by (auto simp: map_of_eq_None_iff)
  have get1: "GetPartition s1 n k = (if n = name then map_of t' k else GetPartition s n k)" for n k
    by (simp add: GetPartition_def s1_def update_conv')
  have "case map_of (x # ts) n of None \<Rightarrow> GetPartition s' n k = GetPartition s n k
      | Some t \<Rightarrow> (case map_of t k of None \<Rightarrow> GetPartition s' n k = None
          | Some p \<Rightarrow> \<exists>p'. GetPartition s' n k = Some p' \<and> reopened p p')" for n k
  proof (cases "n = name")
    case True
    then show ?thesis using s'(2) [rule_format, of name k] t'(2) [rule_format, of k] none x get1 by (simp split: option.splits)
  next
    case False
    then show ?thesis using s'(2) [rule_format, of n k] x get1 by (auto split: option.splits)
  qed
  moreover have "store_recover (map (\<lambda>(name, t). (name, map (\<lambda>(k, p). (k, part_files p)) t)) (x # ts)) s = Inr s'"
    using s'(1) t'(1,3) x by (simp add: s1_def)
  ultimately show ?case using s'(3,4) by blast
qed simp

text \<open>
  C19.  A broker that restarts finds its topics again.  Opening the data directory of a
  well-formed store gives a store with the same topics and partitions, each with the same
  batches, the same first and next offset, and the same topics are compacted.
\<close>

theorem topics_survive_restart:
  assumes "topics_ok s" and "st_manifest s = Some (st_compacted s)"
  shows "\<exists>s'. store_NewStore (store_dirs s) (st_manifest s) (st_maxSegmentBytes s) (st_indexInterval s) = Inr s'
    \<and> (\<forall>topic k. case GetPartition s topic k of None \<Rightarrow> GetPartition s' topic k = None
        | Some p \<Rightarrow> \<exists>p'. GetPartition s' topic k = Some p' \<and> reopened p p')
    \<and> (\<forall>topic. IsCompacted s' topic \<longleftrightarrow> IsCompacted s topic)"
proof -
  let ?s0 = "\<lparr>st_topics = [], st_compacted = [], st_manifest = st_manifest s,
    st_maxSegmentBytes = st_maxSegmentBytes s, st_indexInterval = st_indexInterval s\<rparr>"
  have good: "part_good ?s0 = part_good s" by (simp add: part_good_def fun_eq_iff)
  have ts: "distinct (map fst (st_topics s))"
    "\<forall>(name, t) \<in> set (st_topics s). t \<noteq> [] \<and> distinct (map fst t) \<and> (\<forall>(k, p) \<in> set t. part_good ?s0 p)"
    unfolding good using assms(1) by (simp_all add: topics_ok_def)
  from store_recover_ok [OF ts(1) _ ts(2)] assms(1) obtain s' where
    s': "store_recover (store_dirs s) ?s0 = Inr s'"
    "\<forall>name k. case map_of (st_topics s) name of None \<Rightarrow> GetPartition s' name k = GetPartition ?s0 name k
        | Some t \<Rightarrow> (case map_of t k of None \<Rightarrow> GetPartition s' name k = None
            | Some p \<Rightarrow> \<exists>p'. GetPartition s' name k = Some p' \<and> reopened p p')"
    "st_manifest s' = st_manifest s" "st_compacted s' = []"
    by (auto simp: store_dirs_def topics_ok_def)
  let ?s1 = "loadManifest s'"
  have get: "GetPartition ?s1 = GetPartition s'"
    by (auto simp: loadManifest_def GetPartition_def fun_eq_iff split: option.splits)
  have "case GetPartition s topic k of None \<Rightarrow> GetPartition ?s1 topic k = None
        | Some p \<Rightarrow> \<exists>p'. GetPartition ?s1 topic k = Some p' \<and> reopened p p'" for topic k
    using s'(2) [rule_format, of topic k] unfolding get by (auto simp: GetPartition_def split: option.splits)
  moreover have "IsCompacted ?s1 topic \<longleftrightarrow> IsCompacted s topic" for topic
    using s'(3) assms(2) by (simp add: IsCompacted_def loadManifest_def)
  ultimately show ?thesis using s'(1) by (simp add: store_NewStore_def)
qed

text \<open>
  Deleting a topic leaves its name among the compacted ones: a topic created later under
  that name is compacted without being asked for.
\<close>

lemma deleted_topic_stays_compacted:
  assumes "GetTopic s name = Some t"
  shows "IsCompacted (snd (CreateTopic (snd (DeleteTopic (snd (MarkCompacted True s name True)) name)) name n)) name"
  using assms
  by (auto simp: GetTopic_def IsCompacted_def MarkCompacted_def saveManifest_def DeleteTopic_def CreateTopic_def createLocked_def
      delete_conv' split: sum.splits option.splits)

text \<open>A store with one topic of one partition.\<close>

definition sample_store :: "Partition \<Rightarrow> Store" where
  "sample_store p = \<lparr>st_topics = [(str ''t'', [(0, p)])], st_compacted = [str ''t''], st_manifest = Some [str ''t''],
     st_maxSegmentBytes = p_maxSegmentBytes p, st_indexInterval = p_indexInterval p\<rparr>"

lemma sample_store_ok: "part_ok p bss \<Longrightarrow> 0 < p_maxSegmentBytes p \<Longrightarrow> topics_ok (sample_store p)"
  by (auto simp: topics_ok_def sample_store_def part_good_def)

theorem topics_survive_restart_witness:
  "\<exists>s' p'. store_NewStore (store_dirs (sample_store (sample_partition two_batches 1000))) (Some [str ''t'']) 1000 1 = Inr s'
    \<and> GetPartition s' (str ''t'') 0 = Some p' \<and> part_ok p' [[set_base 10 sample_raw, set_base 11 sample_raw]]
    \<and> IsCompacted s' (str ''t'')"
proof -
  let ?p = "sample_partition two_batches 1000"
  have ok: "part_ok ?p [[set_base 10 sample_raw, set_base 11 sample_raw]]" by (rule sample_partition_ok [OF two_batches_ok])
  have f: "st_maxSegmentBytes (sample_store ?p) = 1000" "st_indexInterval (sample_store ?p) = 1" "0 < p_maxSegmentBytes ?p"
    "st_manifest (sample_store ?p) = Some [str ''t'']" "st_compacted (sample_store ?p) = [str ''t'']"
    "GetPartition (sample_store ?p) (str ''t'') 0 = Some ?p" "IsCompacted (sample_store ?p) (str ''t'')"
    by (simp_all add: sample_store_def sample_partition_def two_batches_def GetPartition_def IsCompacted_def)
  from topics_survive_restart [OF sample_store_ok [OF ok f(3)]] obtain s' where
    s': "store_NewStore (store_dirs (sample_store ?p)) (Some [str ''t'']) 1000 1 = Inr s'"
    "\<forall>topic k. case GetPartition (sample_store ?p) topic k of None \<Rightarrow> GetPartition s' topic k = None
        | Some p \<Rightarrow> \<exists>p'. GetPartition s' topic k = Some p' \<and> reopened p p'"
    "\<forall>topic. IsCompacted s' topic \<longleftrightarrow> IsCompacted (sample_store ?p) topic" unfolding f(1,2,4,5) by auto
  from s'(2) [rule_format, of "str ''t''" 0] obtain p' where "GetPartition s' (str ''t'') 0 = Some p'" "reopened ?p p'"
    unfolding f(6) by auto
  with s' ok f(7) show ?thesis by (auto simp: reopened_def)
qed

end
