(* ===== verification/Spec2Isabelle.thy ===== *)
theory Spec2Isabelle
  imports Frame Messages_Data Messages_Admin Messages_Group Produce_Path Retention Group_Claims Compaction_Claims Compaction_Swap
    Rate_Limit Authz Topic_Store
begin

text \<open>
  Verification of pocketkafka, a single-node broker for the Kafka wire protocol
  written in Go.
\<close>

end
